(* ===== verification/Prelude.thy ===== *)
theory Prelude
  imports Main "HOL-Library.Word" "HOL-Library.Sublist" "HOL-Library.Code_Target_Nat"
begin

text \<open>
  What the components share: the model of Rust's primitive types and of the parts of its
  standard library the modelled sources call, and the generic lemmas on them.

  \<^item> A Rust \<^verbatim>\<open>&str\<close> / \<^verbatim>\<open>String\<close> / \<^verbatim>\<open>&[u8]\<close> is a \<^typ>\<open>string\<close>: the list of its (UTF-8)
    bytes, one \<^typ>\<open>char\<close> per byte, so \<^verbatim>\<open>len()\<close> is \<^term>\<open>length\<close>. Where the code works on
    Unicode scalar values (\<^verbatim>\<open>chars()\<close>, \<^verbatim>\<open>from_utf8\<close>), \<open>utf8_decode\<close> decodes them.
  \<^item> A \<^verbatim>\<open>Result<T, E>\<close> is \<open>'e + 't\<close>; an \<^verbatim>\<open>anyhow\<close> error is its message, a \<^typ>\<open>string\<close>.
  \<^item> A panic is the value \<^term>\<open>None\<close> of an option type, where the code can reach one.
  \<^item> \<^verbatim>\<open>usize\<close> and \<^verbatim>\<open>u64\<close> are 64 bits wide (every release target is). They are
    \<^typ>\<open>64 word\<close> where bits or wrap-around matter and \<^typ>\<open>nat\<close> elsewhere.
  \<^item> An \<^verbatim>\<open>Arc<T>\<close> is an address into a heap, the list of all allocated cells.
\<close>

unbundle bit_operations_syntax

named_theorems inv_intros \<open>preservation of component invariants\<close>

type_synonym u64 = "64 word"
type_synonym instant = nat \<comment> \<open>a \<^verbatim>\<open>std::time::Instant\<close>, in nanoseconds from an arbitrary origin\<close>

abbreviation NANOS :: nat where
  "NANOS \<equiv> 1000000000"

section \<open>Bytes and strings\<close>

abbreviation byte :: "char \<Rightarrow> nat" where
  "byte c \<equiv> of_char c"

definition is_ascii :: "string \<Rightarrow> bool" where
  "is_ascii s \<longleftrightarrow> list_all (\<lambda>c. byte c < 128) s"

definition is_ascii_digit :: "char \<Rightarrow> bool" where
  "is_ascii_digit c \<longleftrightarrow> 48 \<le> byte c \<and> byte c \<le> 57"

definition is_ascii_upper :: "char \<Rightarrow> bool" where
  "is_ascii_upper c \<longleftrightarrow> 65 \<le> byte c \<and> byte c \<le> 90"

definition is_ascii_lower :: "char \<Rightarrow> bool" where
  "is_ascii_lower c \<longleftrightarrow> 97 \<le> byte c \<and> byte c \<le> 122"

definition is_ascii_alphabetic :: "char \<Rightarrow> bool" where
  "is_ascii_alphabetic c \<longleftrightarrow> is_ascii_upper c \<or> is_ascii_lower c"

definition is_ascii_alphanumeric :: "char \<Rightarrow> bool" where
  "is_ascii_alphanumeric c \<longleftrightarrow> is_ascii_digit c \<or> is_ascii_upper c \<or> is_ascii_lower c"

definition is_ascii_graphic :: "char \<Rightarrow> bool" where
  "is_ascii_graphic c \<longleftrightarrow> 33 \<le> byte c \<and> byte c \<le> 126"

definition to_lower :: "char \<Rightarrow> char" where
  "to_lower c = (if is_ascii_upper c then char_of (byte c + 32) else c)"

definition eq_ignore_ascii_case :: "string \<Rightarrow> string \<Rightarrow> bool" where
  "eq_ignore_ascii_case a b \<longleftrightarrow> map to_lower a = map to_lower b"

text \<open>A quoted fragment of an error message.\<close>

definition quoted :: "string \<Rightarrow> string" where
  "quoted s = CHR 0x27 # s @ [CHR 0x27]"

text \<open>\<^verbatim>\<open>str::split(c)\<close>: the pieces between the separators, always at least one.\<close>

fun split_on :: "char \<Rightarrow> string \<Rightarrow> string list" where
  "split_on c [] = [[]]"
| "split_on c (x # xs) =
     (if x = c then [] # split_on c xs
      else (case split_on c xs of [] \<Rightarrow> [[x]] | p # ps \<Rightarrow> (x # p) # ps))"

text \<open>\<^verbatim>\<open>str::strip_prefix\<close>, \<^verbatim>\<open>str::strip_suffix\<close> and \<^verbatim>\<open>str::trim_end_matches(char)\<close>.\<close>

definition strip_prefix :: "string \<Rightarrow> string \<Rightarrow> string option" where
  "strip_prefix p s = (if prefix p s then Some (drop (length p) s) else None)"

definition strip_suffix :: "string \<Rightarrow> string \<Rightarrow> string option" where
  "strip_suffix p s = (if suffix p s then Some (take (length s - length p) s) else None)"

definition trim_end_matches :: "char \<Rightarrow> string \<Rightarrow> string" where
  "trim_end_matches c s = rev (dropWhile (\<lambda>x. x = c) (rev s))"

text \<open>
  \<^verbatim>\<open>str::trim\<close> on a string that is known to be ASCII (a header value that passed
  \<^verbatim>\<open>HeaderValue::to_str\<close>): the ASCII part of Unicode's \<^verbatim>\<open>White_Space\<close>.
\<close>

definition ascii_white :: "char \<Rightarrow> bool" where
  "ascii_white c \<longleftrightarrow> (9 \<le> byte c \<and> byte c \<le> 13) \<or> byte c = 32"

definition str_trim :: "string \<Rightarrow> string" where
  "str_trim s = rev (dropWhile ascii_white (rev (dropWhile ascii_white s)))"

text \<open>\<^verbatim>\<open>u8::is_ascii_whitespace\<close> (without the vertical tab) and \<^verbatim>\<open><[u8]>::trim_ascii\<close>.\<close>

definition is_ascii_whitespace :: "char \<Rightarrow> bool" where
  "is_ascii_whitespace c \<longleftrightarrow> byte c \<in> {9, 10, 12, 13, 32}"

definition trim_ascii :: "string \<Rightarrow> string" where
  "trim_ascii v = rev (dropWhile is_ascii_whitespace (rev (dropWhile is_ascii_whitespace v)))"

section \<open>UTF-8\<close>

text \<open>
  \<^verbatim>\<open>String::from_utf8\<close> / \<^verbatim>\<open>str::chars\<close>: the scalar values of a well-formed byte sequence,
  \<^term>\<open>None\<close> for an ill-formed one (overlong forms, surrogates, values over U+10FFFF and
  truncated sequences are ill-formed).
\<close>

definition utf8_cont :: "nat \<Rightarrow> bool" where
  "utf8_cont b \<longleftrightarrow> 128 \<le> b \<and> b \<le> 191"

definition utf8_second3 :: "nat \<Rightarrow> nat \<Rightarrow> bool" where
  "utf8_second3 a b \<longleftrightarrow>
     (if a = 224 then 160 \<le> b \<and> b \<le> 191
      else if a = 237 then 128 \<le> b \<and> b \<le> 159
      else utf8_cont b)"

definition utf8_second4 :: "nat \<Rightarrow> nat \<Rightarrow> bool" where
  "utf8_second4 a b \<longleftrightarrow>
     (if a = 240 then 144 \<le> b \<and> b \<le> 191
      else if a = 244 then 128 \<le> b \<and> b \<le> 143
      else utf8_cont b)"

fun utf8_decode_bytes :: "nat list \<Rightarrow> nat list option" where
  "utf8_decode_bytes [] = Some []"
| "utf8_decode_bytes (a # bs) =
     (if a < 128 then map_option (Cons a) (utf8_decode_bytes bs)
      else if 194 \<le> a \<and> a \<le> 223 then
        (case bs of
           b # r \<Rightarrow>
             if utf8_cont b
             then map_option (Cons ((a - 192) * 64 + (b - 128))) (utf8_decode_bytes r)
             else None
         | [] \<Rightarrow> None)
      else if 224 \<le> a \<and> a \<le> 239 then
        (case bs of
           b # c # r \<Rightarrow>
             if utf8_second3 a b \<and> utf8_cont c
             then map_option (Cons ((a - 224) * 4096 + (b - 128) * 64 + (c - 128)))
                    (utf8_decode_bytes r)
             else None
         | _ \<Rightarrow> None)
      else if 240 \<le> a \<and> a \<le> 244 then
        (case bs of
           b # c # d # r \<Rightarrow>
             if utf8_second4 a b \<and> utf8_cont c \<and> utf8_cont d
             then map_option
                    (Cons ((a - 240) * 262144 + (b - 128) * 4096 + (c - 128) * 64 + (d - 128)))
                    (utf8_decode_bytes r)
             else None
         | _ \<Rightarrow> None)
      else None)"

definition utf8_decode :: "string \<Rightarrow> nat list option" where
  "utf8_decode s = utf8_decode_bytes (map byte s)"

text \<open>A Rust \<^verbatim>\<open>str\<close> is well-formed by its type; \<open>str_chars\<close> is its \<^verbatim>\<open>chars()\<close>.\<close>

definition str_chars :: "string \<Rightarrow> nat list" where
  "str_chars s = (case utf8_decode s of Some cs \<Rightarrow> cs | None \<Rightarrow> [])"

text \<open>\<^verbatim>\<open>char::is_control\<close> (category Cc) and \<^verbatim>\<open>char::is_whitespace\<close> (\<^verbatim>\<open>White_Space\<close>).\<close>

definition char_is_control :: "nat \<Rightarrow> bool" where
  "char_is_control c \<longleftrightarrow> c < 32 \<or> (127 \<le> c \<and> c < 160)"

definition char_is_whitespace :: "nat \<Rightarrow> bool" where
  "char_is_whitespace c \<longleftrightarrow>
     (9 \<le> c \<and> c \<le> 13) \<or> c = 32 \<or> c = 133 \<or> c = 160 \<or> c = 5760 \<or> (8192 \<le> c \<and> c \<le> 8202)
     \<or> c = 8232 \<or> c = 8233 \<or> c = 8239 \<or> c = 8287 \<or> c = 12288"

text \<open>\<^verbatim>\<open>s.trim() == s\<close>: neither the first nor the last character is white space.\<close>

definition str_is_trimmed :: "string \<Rightarrow> bool" where
  "str_is_trimmed s \<longleftrightarrow>
     (let cs = str_chars s
      in cs = [] \<or> (\<not> char_is_whitespace (hd cs) \<and> \<not> char_is_whitespace (last cs)))"

section \<open>Results\<close>

text \<open>
  \<^verbatim>\<open>ensure!(c, message)\<close> and the \<^verbatim>\<open>?\<close> operator: a validator is the list of its checks in
  source order and returns the first error. \<open>try_all\<close> is a \<^verbatim>\<open>for\<close> loop whose body can fail,
  \<open>try_fold\<close> one that also carries state.
\<close>

definition ensure :: "bool \<Rightarrow> 'e \<Rightarrow> 'e + unit" where
  "ensure c msg = (if c then Inr () else Inl msg)"

fun try_all :: "('a \<Rightarrow> 'e + unit) \<Rightarrow> 'a list \<Rightarrow> 'e + unit" where
  "try_all f [] = Inr ()"
| "try_all f (x # xs) = (case f x of Inl e \<Rightarrow> Inl e | Inr _ \<Rightarrow> try_all f xs)"

definition first_error :: "('e + unit) list \<Rightarrow> 'e + unit" where
  "first_error rs = try_all (\<lambda>r. r) rs"

fun try_fold :: "('s \<Rightarrow> 'a \<Rightarrow> 'e + 's) \<Rightarrow> 's \<Rightarrow> 'a list \<Rightarrow> 'e + 's" where
  "try_fold f s [] = Inr s"
| "try_fold f s (x # xs) = (case f s x of Inl e \<Rightarrow> Inl e | Inr s' \<Rightarrow> try_fold f s' xs)"

text \<open>\<^verbatim>\<open>Result::map_err\<close> and \<^verbatim>\<open>Result::map\<close>.\<close>

fun map_err :: "('e \<Rightarrow> 'f) \<Rightarrow> 'e + 'a \<Rightarrow> 'f + 'a" where
  "map_err f (Inl e) = Inl (f e)"
| "map_err f (Inr a) = Inr a"

text \<open>The \<^verbatim>\<open>?\<close> operator on a value that is used, and \<^verbatim>\<open>Option::ok_or\<close>.\<close>

definition res_bind :: "'e + 'a \<Rightarrow> ('a \<Rightarrow> 'e + 'b) \<Rightarrow> 'e + 'b" where
  "res_bind r f = (case r of Inl e \<Rightarrow> Inl e | Inr a \<Rightarrow> f a)"

definition ok_or :: "'e \<Rightarrow> 'a option \<Rightarrow> 'e + 'a" where
  "ok_or e o' = (case o' of None \<Rightarrow> Inl e | Some a \<Rightarrow> Inr a)"

lemma res_bind_Inr [simp]: "res_bind r f = Inr b \<longleftrightarrow> (\<exists>a. r = Inr a \<and> f a = Inr b)"
  by (cases r) (simp_all add: res_bind_def)

lemma res_bind_Inl [simp]: "res_bind r f = Inl e \<longleftrightarrow> r = Inl e \<or> (\<exists>a. r = Inr a \<and> f a = Inl e)"
  by (cases r) (auto simp add: res_bind_def)

lemma res_bind_simps [simp]: "res_bind (Inr a) f = f a" "res_bind (Inl e) f = Inl e"
  by (simp_all add: res_bind_def)

lemma map_sum_eq_iff [simp]:
  "map_sum f g z = Inr y \<longleftrightarrow> (\<exists>x. z = Inr x \<and> y = g x)" "map_sum f g z = Inl e \<longleftrightarrow> (\<exists>x. z = Inl x \<and> e = f x)"
  by (cases z; auto)+

lemma ok_or_Inr [simp]: "ok_or e v = Inr a \<longleftrightarrow> v = Some a"
  by (cases v) (simp_all add: ok_or_def)

lemma ok_or_Inl [simp]: "ok_or e v = Inl e' \<longleftrightarrow> v = None \<and> e' = e"
  by (cases v) (auto simp add: ok_or_def)

lemma ensure_Inr [simp]: "ensure c msg = Inr u \<longleftrightarrow> c"
  by (simp add: ensure_def)

lemma ensure_Inl [simp]: "ensure c msg = Inl e \<longleftrightarrow> \<not> c \<and> e = msg"
  by (auto simp: ensure_def)

lemma try_all_Inr: "try_all f xs = Inr u \<longleftrightarrow> (\<forall>x\<in>set xs. f x = Inr ())"
  by (induction xs) (auto split: sum.splits)

lemma first_error_Nil [simp]: "first_error [] = Inr ()"
  by (simp add: first_error_def)

lemma first_error_Cons [simp]:
  "first_error (r # rs) = Inr u \<longleftrightarrow> r = Inr () \<and> first_error rs = Inr ()"
  by (cases r) (auto simp: first_error_def)

text \<open>A loop that fails on the first repeated element (\<^verbatim>\<open>ensure!(seen.insert(x), ...)\<close>).\<close>

fun check_distinct :: "('a \<Rightarrow> 'e + unit) \<Rightarrow> 'e \<Rightarrow> 'a list \<Rightarrow> 'a list \<Rightarrow> 'e + unit" where
  "check_distinct f dup seen [] = Inr ()"
| "check_distinct f dup seen (x # xs) =
     (case f x of
        Inl e \<Rightarrow> Inl e
      | Inr _ \<Rightarrow> if x \<in> set seen then Inl dup else check_distinct f dup (x # seen) xs)"

lemma check_distinct_Inr:
  "check_distinct f dup seen xs = Inr u \<longleftrightarrow>
     (\<forall>x\<in>set xs. f x = Inr ()) \<and> distinct xs \<and> set seen \<inter> set xs = {}"
  by (induction xs arbitrary: seen) (auto split: sum.splits)

lemma try_fold_append:
  "try_fold f s (xs @ ys) = res_bind (try_fold f s xs) (\<lambda>s'. try_fold f s' ys)"
proof (induction xs arbitrary: s)
  case (Cons x xs)
  then show ?case by (cases "f s x") simp_all
qed simp

lemma try_fold_invariant:
  "(\<And>s x s'. P s \<Longrightarrow> f s x = Inr s' \<Longrightarrow> P s') \<Longrightarrow> P s \<Longrightarrow> try_fold f s xs = Inr s' \<Longrightarrow> P s'"
  by (induction xs arbitrary: s) (auto split: sum.splits)

lemma try_fold_nonempty:
  assumes "\<And>s x s'. f s x = Inr s' \<Longrightarrow> s' \<noteq> []"
  shows "try_fold f s xs = Inr s' \<Longrightarrow> s \<noteq> [] \<or> xs \<noteq> [] \<Longrightarrow> s' \<noteq> []"
proof (induction xs arbitrary: s)
  case (Cons x xs)
  then show ?case using assms by (auto split: sum.splits)
qed simp

lemma try_fold_total: "(\<And>s x. \<exists>s'. f s x = Inr s') \<Longrightarrow> \<exists>s'. try_fold f s xs = Inr s'"
proof (induction xs arbitrary: s)
  case (Cons x xs)
  obtain s' where "f s x = Inr s'" using Cons.prems by blast
  then show ?case using Cons by simp
qed simp

lemma try_fold_element:
  "try_fold f s xs = Inr s' \<Longrightarrow> x \<in> set xs \<Longrightarrow> \<exists>t t'. f t x = Inr t'"
  by (induction xs arbitrary: s) (auto split: sum.splits)

section \<open>Lemmas on bytes and strings\<close>

lemma byte_inject [simp]: "byte a = byte b \<longleftrightarrow> a = b"
  by (metis char_of_char)

lemma byte_eqI: "byte a = byte b \<Longrightarrow> a = b"
  by simp

lemma byte_to_lower: "byte (to_lower c) = (if is_ascii_upper c then byte c + 32 else byte c)"
  by (simp add: to_lower_def is_ascii_upper_def of_char_of)

lemma to_lower_eq_iff:
  "to_lower a = to_lower b \<longleftrightarrow>
     (if is_ascii_upper a then byte a + 32 else byte a) =
     (if is_ascii_upper b then byte b + 32 else byte b)"
  by (metis byte_inject byte_to_lower)

lemma is_ascii_upper_to_lower [simp]: "\<not> is_ascii_upper (to_lower c)"
  by (auto simp: is_ascii_upper_def byte_to_lower)

lemma to_lower_idem [simp]: "to_lower (to_lower c) = to_lower c"
  by (simp add: to_lower_def [of "to_lower c"])

lemma byte_to_lower_ge128 [simp]: "byte (to_lower c) < 128 \<longleftrightarrow> byte c < 128"
  by (auto simp: byte_to_lower is_ascii_upper_def)

lemma is_ascii_Nil [simp]: "is_ascii []"
  by (simp add: is_ascii_def)

lemma is_ascii_map_to_lower [simp]: "is_ascii (map to_lower s) \<longleftrightarrow> is_ascii s"
  by (simp add: is_ascii_def list_all_iff)

lemma eq_ignore_ascii_case_refl [simp]: "eq_ignore_ascii_case s s"
  by (simp add: eq_ignore_ascii_case_def)

lemma eq_ignore_ascii_case_lower [simp]:
  "eq_ignore_ascii_case (map to_lower a) b = eq_ignore_ascii_case a b"
  "eq_ignore_ascii_case a (map to_lower b) = eq_ignore_ascii_case a b"
  by (simp_all add: eq_ignore_ascii_case_def comp_def)

lemma split_on_neq_Nil [simp]: "split_on c s \<noteq> []"
  by (induction s) (auto split: list.splits)

lemma split_on_no_sep: "c \<notin> set s \<Longrightarrow> split_on c s = [s]"
  by (induction s) auto

lemma split_on_append_sep: "split_on c (a @ c # b) = split_on c a @ split_on c b"
  by (induction a) (auto split: list.splits)

lemma split_on_pieces: "p \<in> set (split_on c s) \<Longrightarrow> c \<notin> set p"
  by (induction s arbitrary: p) (auto split: list.splits if_splits)

lemma set_split_on: "p \<in> set (split_on c s) \<Longrightarrow> set p \<subseteq> set s"
  by (induction s arbitrary: p) (fastforce split: list.splits if_splits)+

lemma split_on_map:
  assumes "\<And>x. f x = c \<longleftrightarrow> x = c"
  shows "split_on c (map f s) = map (map f) (split_on c s)"
  using assms by (induction s) (auto split: list.splits)

lemma set_split_on_join: "x \<in> set s \<Longrightarrow> x = c \<or> (\<exists>p\<in>set (split_on c s). x \<in> set p)"
  by (induction s) (auto split: list.splits)

lemma prefix_split_on:
  "prefix (split_on c a) (split_on c b) \<longleftrightarrow> b = a \<or> prefix (a @ [c]) b"
proof (induction a arbitrary: b)
  case Nil
  show ?case
  proof (cases b)
    case (Cons x b')
    then show ?thesis by (cases "split_on c b'") auto
  qed simp
next
  case (Cons x a)
  show ?case
  proof (cases b)
    case Nil
    then show ?thesis by (cases "split_on c a") auto
  next
    case b: (Cons y b')
    show ?thesis using Cons.IH [of b'] unfolding b
      by (cases "split_on c a"; cases "split_on c b'") auto
  qed
qed

text \<open>\<^verbatim>\<open>[T]::join\<close>.\<close>

fun join :: "string \<Rightarrow> string list \<Rightarrow> string" where
  "join sep [] = []"
| "join sep [x] = x"
| "join sep (x # y # ys) = x @ sep @ join sep (y # ys)"

lemma split_on_join: "xs \<noteq> [] \<Longrightarrow> list_all (\<lambda>x. c \<notin> set x) xs \<Longrightarrow> split_on c (join [c] xs) = xs"
  by (induction "[c]" xs rule: join.induct) (simp_all add: split_on_no_sep split_on_append_sep)

lemma join_split_on: "join [c] (split_on c s) = s"
proof (induction s)
  case (Cons x s)
  then show ?case by (cases "split_on c s"; cases "tl (split_on c s)") auto
qed simp

lemma join_append: "xs \<noteq> [] \<Longrightarrow> ys \<noteq> [] \<Longrightarrow> join sep (xs @ ys) = join sep xs @ sep @ join sep ys"
proof (induction sep xs rule: join.induct)
  case (2 sep x)
  then show ?case by (cases ys) simp_all
qed simp_all

subsection \<open>Characters without case\<close>

lemma to_lower_fixed: "\<not> is_ascii_lower c \<Longrightarrow> \<not> is_ascii_upper c \<Longrightarrow> to_lower x = c \<longleftrightarrow> x = c"
  by (cases "is_ascii_upper x")
    (auto simp: byte_to_lower is_ascii_lower_def is_ascii_upper_def to_lower_def of_char_of)

definition caseless :: "char \<Rightarrow> bool" where
  "caseless c \<longleftrightarrow> \<not> is_ascii_lower c \<and> \<not> is_ascii_upper c"

lemma caseless_simps [simp]:
  "caseless (CHR ''.'')" "caseless (CHR '':'')" "caseless (CHR ''['')" "caseless (CHR '']'')"
  "caseless (CHR ''*'')" "caseless (CHR ''?'')" "caseless (CHR ''-'')"
  by (simp_all add: caseless_def is_ascii_lower_def is_ascii_upper_def)

lemma caseless_lower: "caseless c \<Longrightarrow> to_lower x = c \<longleftrightarrow> x = c"
  by (simp add: caseless_def to_lower_fixed)

lemma prefix_lower: "list_all caseless p \<Longrightarrow> prefix p (map to_lower s) = prefix p s"
proof (induction p arbitrary: s)
  case (Cons c p)
  then show ?case by (cases s) (auto simp: eq_commute [of c] caseless_lower)
qed simp

lemma strip_prefix_lower:
  "list_all caseless p \<Longrightarrow> strip_prefix p (map to_lower s) = map_option (map to_lower) (strip_prefix p s)"
  by (simp add: strip_prefix_def drop_map prefix_lower)

lemma strip_suffix_lower:
  "caseless c \<Longrightarrow> strip_suffix [c] (map to_lower s) = map_option (map to_lower) (strip_suffix [c] s)"
  by (cases s rule: rev_cases) (auto simp: strip_suffix_def caseless_lower eq_commute [of c])

section \<open>Decimal numbers\<close>

definition digit_char :: "nat \<Rightarrow> char" where
  "digit_char n = char_of (48 + n)"

text \<open>\<^verbatim>\<open>Display\<close> of an unsigned integer.\<close>

fun nat_text :: "nat \<Rightarrow> string" where
  "nat_text n = (if n < 10 then [digit_char n] else nat_text (n div 10) @ [digit_char (n mod 10)])"

declare nat_text.simps [simp del]

definition digits_value :: "string \<Rightarrow> nat" where
  "digits_value s = foldl (\<lambda>n c. 10 * n + (byte c - 48)) 0 s"

text \<open>\<^verbatim>\<open>str::parse::<u64>\<close>: an optional plus sign, then digits, below 2^64.\<close>

definition parse_u64 :: "string \<Rightarrow> nat option" where
  "parse_u64 s =
     (let d = (case s of c # rest \<Rightarrow> if c = CHR ''+'' then rest else s | [] \<Rightarrow> [])
      in if d = [] \<or> \<not> list_all is_ascii_digit d \<or> \<not> digits_value d < 2 ^ 64 then None else Some (digits_value d))"

lemma byte_digit_char [simp]: "n < 10 \<Longrightarrow> byte (digit_char n) = 48 + n"
  by (simp add: digit_char_def of_char_of)

lemma digit_char_ascii [simp]: "n < 10 \<Longrightarrow> is_ascii_digit (digit_char n)"
  by (simp add: is_ascii_digit_def)

lemma nat_text_digits: "list_all is_ascii_digit (nat_text n)"
  by (induction n rule: nat_text.induct) (subst nat_text.simps, simp)

lemma nat_text_neq_Nil [simp]: "nat_text n \<noteq> []"
  by (subst nat_text.simps) simp

lemma digits_value_nat_text: "digits_value (nat_text n) = n"
proof (induction n rule: nat_text.induct)
  case (1 n)
  then show ?case by (subst nat_text.simps) (simp add: digits_value_def)
qed

lemma nat_text_inject [simp]: "nat_text a = nat_text b \<longleftrightarrow> a = b"
  by (metis digits_value_nat_text)

section \<open>Single bits of a 64-bit word\<close>

lemma bit_push1: "bit (push_bit 1 (w::u64)) j \<longleftrightarrow> 0 < j \<and> j < 64 \<and> bit w (j - 1)"
  by (auto simp only: bit_push_bit_iff) (auto simp: Suc_le_eq)

lemma bit_one_at: "bit (push_bit n (1::u64)) j \<longleftrightarrow> j = n \<and> n < 64"
  by (auto simp: push_bit_eq_mult bit_exp_iff)

lemma and_single_bit: "n < 64 \<Longrightarrow> (w AND push_bit n (1::u64) \<noteq> 0) \<longleftrightarrow> bit w n"
  unfolding bit_eq_iff [of "_ AND _"] bit_and_iff bit_one_at by auto

lemma unat_minus_one_w64: "unat (- 1 :: u64) = 2 ^ 64 - 1"
  by (simp add: unsigned_minus_1_eq_mask mask_eq_exp_minus_1)

lemma unat_plus_one:
  assumes "(w :: u64) \<noteq> - 1"
  shows "unat (w + 1) = unat w + 1"
proof -
  have "unat w \<noteq> 2 ^ 64 - 1" using assms by (metis unat_minus_one_w64 unsigned_word_eqI)
  moreover have "unat w < 2 ^ 64" using unsigned_less [of w] by simp
  ultimately show ?thesis by (simp add: unat_word_ariths)
qed

end
