(* ===== verification/StdNet.thy ===== *)
theory StdNet
  imports Prelude
begin

text \<open>
  The part of Rust's \<^verbatim>\<open>std::net\<close> the sources use: \<^verbatim>\<open>IpAddr\<close>, its order, \<^verbatim>\<open>to_canonical\<close> and
  \<^verbatim>\<open>str::parse::<IpAddr>\<close> (dotted quads without leading zeros; RFC 4291 text form with
  \<^verbatim>\<open>::\<close> and a trailing embedded IPv4 address; no scope, no brackets, no port).
\<close>

datatype ip_addr = V4 "32 word" | V6 "128 word"

text \<open>\<^verbatim>\<open>Ord for IpAddr\<close>: every IPv4 address comes before every IPv6 address.\<close>

instantiation ip_addr :: linorder
begin

fun less_eq_ip_addr :: "ip_addr \<Rightarrow> ip_addr \<Rightarrow> bool" where
  "less_eq_ip_addr (V4 a) (V4 b) = (a \<le> b)"
| "less_eq_ip_addr (V4 a) (V6 b) = True"
| "less_eq_ip_addr (V6 a) (V4 b) = False"
| "less_eq_ip_addr (V6 a) (V6 b) = (a \<le> b)"

definition less_ip_addr :: "ip_addr \<Rightarrow> ip_addr \<Rightarrow> bool" where
  "less_ip_addr a b \<longleftrightarrow> a \<le> b \<and> \<not> b \<le> a"

instance
proof
  fix x y z :: ip_addr
  show "x < y \<longleftrightarrow> x \<le> y \<and> \<not> y \<le> x" by (simp add: less_ip_addr_def)
  show "x \<le> x" by (cases x) auto
  show "x \<le> y \<Longrightarrow> y \<le> z \<Longrightarrow> x \<le> z" by (cases x; cases y; cases z) auto
  show "x \<le> y \<Longrightarrow> y \<le> x \<Longrightarrow> x = y" by (cases x; cases y) auto
  show "x \<le> y \<or> y \<le> x" by (cases x; cases y) auto
qed

end

text \<open>\<^verbatim>\<open>IpAddr::to_canonical\<close>: an IPv4-mapped IPv6 address becomes the IPv4 address.\<close>

fun to_canonical :: "ip_addr \<Rightarrow> ip_addr" where
  "to_canonical (V4 a) = V4 a"
| "to_canonical (V6 a) = (if drop_bit 32 a = 65535 then V4 (ucast a) else V6 a)"

lemma to_canonical_idem [simp]: "to_canonical (to_canonical a) = to_canonical a"
  by (cases a) auto

section \<open>Parsing\<close>

text \<open>
  The parser of \<^verbatim>\<open>core::net::parser\<close>: every reader either consumes input and succeeds or
  fails with the input unchanged (\<^verbatim>\<open>read_atomically\<close>).
\<close>

definition digit_value :: "nat \<Rightarrow> char \<Rightarrow> nat option" where
  "digit_value radix c =
     (let v = (if is_ascii_digit c then Some (byte c - 48)
               else if is_ascii_lower c then Some (byte c - 97 + 10)
               else if is_ascii_upper c then Some (byte c - 65 + 10)
               else None)
      in case v of Some d \<Rightarrow> (if d < radix then Some d else None) | None \<Rightarrow> None)"

fun read_digits :: "nat \<Rightarrow> string \<Rightarrow> nat list \<times> string" where
  "read_digits radix [] = ([], [])"
| "read_digits radix (c # cs) =
     (case digit_value radix c of
        Some d \<Rightarrow> (let (ds, r) = read_digits radix cs in (d # ds, r))
      | None \<Rightarrow> ([], c # cs))"

definition read_number ::
  "nat \<Rightarrow> nat \<Rightarrow> bool \<Rightarrow> nat \<Rightarrow> string \<Rightarrow> (nat \<times> string) option" where
  "read_number radix max_digits allow_zero_prefix bound s =
     (let (ds, r) = read_digits radix s;
          result = foldl (\<lambda>acc d. acc * radix + d) 0 ds
      in if ds = [] \<or> length ds > max_digits then None
         else if \<not> allow_zero_prefix \<and> hd ds = 0 \<and> length ds > 1 then None
         else if result < bound then Some (result, r) else None)"

definition read_octet :: "string \<Rightarrow> (nat \<times> string) option" where
  "read_octet s = read_number 10 3 False 256 s"

definition read_group :: "string \<Rightarrow> (nat \<times> string) option" where
  "read_group s = read_number 16 4 True 65536 s"

text \<open>\<^verbatim>\<open>read_separator\<close>: the separator is read before every element but the first.\<close>

definition read_sep :: "char \<Rightarrow> nat \<Rightarrow> string \<Rightarrow> string option" where
  "read_sep c i s = (if i = 0 then Some s else strip_prefix [c] s)"

fun read_octets :: "nat \<Rightarrow> nat \<Rightarrow> nat \<Rightarrow> string \<Rightarrow> (nat \<times> string) option" where
  "read_octets 0 i acc s = Some (acc, s)"
| "read_octets (Suc n) i acc s =
     (case read_sep (CHR ''.'') i s of
        None \<Rightarrow> None
      | Some s' \<Rightarrow>
          (case read_octet s' of
             None \<Rightarrow> None
           | Some (v, r) \<Rightarrow> read_octets n (Suc i) (acc * 256 + v) r))"

definition read_ipv4_addr :: "string \<Rightarrow> (nat \<times> string) option" where
  "read_ipv4_addr s = read_octets 4 0 0 s"

definition read_sep_ipv4 :: "nat \<Rightarrow> string \<Rightarrow> (nat \<times> string) option" where
  "read_sep_ipv4 i s =
     (case read_sep (CHR '':'') i s of None \<Rightarrow> None | Some s' \<Rightarrow> read_ipv4_addr s')"

definition read_sep_group :: "nat \<Rightarrow> string \<Rightarrow> (nat \<times> string) option" where
  "read_sep_group i s =
     (case read_sep (CHR '':'') i s of None \<Rightarrow> None | Some s' \<Rightarrow> read_group s')"

text \<open>
  \<open>read_groups limit i\<close> reads the groups \<open>i, i + 1, \<dots>\<close> of at most \<open>limit\<close>: the groups read,
  whether the last two came from an embedded IPv4 address, and the remaining input.
\<close>

function read_groups :: "nat \<Rightarrow> nat \<Rightarrow> string \<Rightarrow> nat list \<times> bool \<times> string" where
  "read_groups limit i s =
     (if i \<ge> limit then ([], False, s)
      else
        case (if i + 1 < limit then read_sep_ipv4 i s else None) of
          Some (a, r) \<Rightarrow> ([a div 65536, a mod 65536], True, r)
        | None \<Rightarrow>
            (case read_sep_group i s of
               None \<Rightarrow> ([], False, s)
             | Some (g, r) \<Rightarrow>
                 (let (gs, b, r') = read_groups limit (Suc i) r in (g # gs, b, r'))))"
  by pat_completeness auto
termination
  by (relation "measure (\<lambda>(limit, i, s). limit - i)") auto

declare read_groups.simps [simp del]
lemmas [code] = read_groups.simps

definition groups_value :: "nat list \<Rightarrow> nat" where
  "groups_value gs = foldl (\<lambda>acc g. acc * 65536 + g) 0 gs"

definition read_ipv6_addr :: "string \<Rightarrow> (nat \<times> string) option" where
  "read_ipv6_addr s =
     (let (head, head_ipv4, r) = read_groups 8 0 s
      in if length head = 8 then Some (groups_value head, r)
         else if head_ipv4 then None
         else (case strip_prefix ''::'' r of
                 None \<Rightarrow> None
               | Some r' \<Rightarrow>
                   (let (tail, _, r'') = read_groups (8 - (length head + 1)) 0 r'
                    in Some (groups_value (head @ replicate (8 - length head - length tail) 0 @ tail),
                             r''))))"

text \<open>\<^verbatim>\<open>str::parse::<IpAddr>()\<close>: IPv4 first, then IPv6, and all input must be used.\<close>

definition parse_ip_addr :: "string \<Rightarrow> ip_addr option" where
  "parse_ip_addr s =
     (case read_ipv4_addr s of
        Some (a, r) \<Rightarrow> if r = [] then Some (V4 (of_nat a)) else None
      | None \<Rightarrow>
          (case read_ipv6_addr s of
             Some (a, r) \<Rightarrow> if r = [] then Some (V6 (of_nat a)) else None
           | None \<Rightarrow> None))"

end
