(* ===== verification/HostMatch.thy ===== *)
theory HostMatch
  imports StdNet
begin

text \<open>
  \<^verbatim>\<open>src/host_match.rs\<close>: hostname patterns of routes and policies. A pattern with no wildcard
  is an exact host or an IP address; a glob matches label by label, each label by a
  bit-parallel automaton in one 64-bit word (\<open>match_label\<close>). \<open>glob\<close> is the textbook
  definition of a wildcard match; the automaton is proved equal to it.
\<close>

abbreviation MAX_HOST_BYTES :: nat where "MAX_HOST_BYTES \<equiv> 253"
abbreviation MAX_LABEL_BYTES :: nat where "MAX_LABEL_BYTES \<equiv> 63"

section \<open>The code\<close>

definition is_glob :: "string \<Rightarrow> bool" where
  "is_glob pattern \<longleftrightarrow> list_ex (\<lambda>b. b = CHR ''*'' \<or> b = CHR ''?'') pattern"

definition parse_ip :: "string \<Rightarrow> ip_addr option" where
  "parse_ip s =
     (case parse_ip_addr s of
        Some a \<Rightarrow> Some a
      | None \<Rightarrow>
          (case strip_prefix ''['' s of
             None \<Rightarrow> None
           | Some s' \<Rightarrow>
               (case strip_suffix '']'' s' of
                  None \<Rightarrow> None
                | Some s'' \<Rightarrow> parse_ip_addr s'')))"

definition valid_label_byte :: "bool \<Rightarrow> char \<Rightarrow> bool" where
  "valid_label_byte wildcards b \<longleftrightarrow>
     is_ascii_alphanumeric b \<or> b = CHR ''-'' \<or> (wildcards \<and> (b = CHR ''*'' \<or> b = CHR ''?''))"

definition valid_label :: "bool \<Rightarrow> string \<Rightarrow> bool" where
  "valid_label wildcards label \<longleftrightarrow>
     label \<noteq> [] \<and> length label \<le> MAX_LABEL_BYTES
     \<and> hd label \<noteq> CHR ''-'' \<and> last label \<noteq> CHR ''-''
     \<and> list_all (valid_label_byte wildcards) label"

definition valid_labels :: "string \<Rightarrow> bool \<Rightarrow> bool" where
  "valid_labels s wildcards \<longleftrightarrow> list_all (valid_label wildcards) (split_on (CHR ''.'') s)"

definition validate_pattern :: "string \<Rightarrow> string + unit" where
  "validate_pattern pattern =
     (if pattern = [] then Inl ''host pattern must not be empty''
      else if \<not> length pattern \<le> MAX_HOST_BYTES then Inl ''host pattern exceeds 253 bytes''
      else if \<not> is_ascii pattern then Inl ''host pattern must be ASCII''
      else if \<not> is_glob pattern \<and> parse_ip pattern \<noteq> None then Inr ()
      else if \<not> valid_labels pattern True
        then Inl (''invalid host pattern; each label must contain 1..63 DNS characters, ''
                  @ quoted ''*'' @ '' or '' @ quoted ''?'')
      else Inr ())"

text \<open>The index of a byte in the table of literal masks; \<^term>\<open>None\<close> is \<^verbatim>\<open>unreachable!\<close>.\<close>

definition character_index :: "char \<Rightarrow> nat option" where
  "character_index b =
     (if is_ascii_lower (to_lower b) then Some (byte (to_lower b) - 97)
      else if is_ascii_digit (to_lower b) then Some (26 + (byte b - 48))
      else if to_lower b = CHR ''-'' then Some 36
      else None)"

text \<open>
  The first loop of \<^verbatim>\<open>match_label\<close>: runs of stars collapse to one. Writing past the
  63-byte array panics (\<^term>\<open>None\<close>).
\<close>

fun compact :: "string \<Rightarrow> string \<Rightarrow> string option" where
  "compact acc [] = Some acc"
| "compact acc (b # bs) =
     (if b = CHR ''*'' \<and> acc \<noteq> [] \<and> last acc = CHR ''*'' then compact acc bs
      else if length acc < MAX_LABEL_BYTES then compact (acc @ [b]) bs
      else None)"

record masks =
  literals :: "u64 list"
  questions :: u64
  stars :: u64

text \<open>The second loop: one transition mask per literal, one for \<open>?\<close>, one for \<open>*\<close>.\<close>

fun build_masks :: "nat \<Rightarrow> string \<Rightarrow> masks \<Rightarrow> masks option" where
  "build_masks index [] m = Some m"
| "build_masks index (b # bs) m =
     (let bit = push_bit index (1 :: u64)
      in if b = CHR ''*'' then build_masks (Suc index) bs (m\<lparr>stars := stars m OR bit\<rparr>)
         else if b = CHR ''?'' then build_masks (Suc index) bs (m\<lparr>questions := questions m OR bit\<rparr>)
         else (case character_index b of
                 None \<Rightarrow> None
               | Some i \<Rightarrow>
                   build_masks (Suc index) bs
                     (m\<lparr>literals := (literals m)[i := literals m ! i OR bit]\<rparr>)))"

definition close_states :: "u64 \<Rightarrow> u64 \<Rightarrow> u64" where
  "close_states star_mask states = states OR push_bit 1 (states AND star_mask)"

text \<open>The third loop, over the host's bytes, and the final test of the accepting bit.\<close>

fun run_states :: "masks \<Rightarrow> nat \<Rightarrow> u64 \<Rightarrow> string \<Rightarrow> bool option" where
  "run_states m len states [] =
     Some (close_states (stars m) states AND push_bit len 1 \<noteq> 0)"
| "run_states m len states (actual # rest) =
     (case character_index actual of
        None \<Rightarrow> None
      | Some i \<Rightarrow>
          (let advancing = states AND (questions m OR literals m ! i);
               consuming_stars = states AND stars m;
               states' = close_states (stars m) (push_bit 1 advancing OR consuming_stars)
           in if states' = 0 then Some False else run_states m len states' rest))"

definition match_label :: "string \<Rightarrow> string \<Rightarrow> bool option" where
  "match_label pattern host =
     (case compact [] pattern of
        None \<Rightarrow> None
      | Some c \<Rightarrow>
          (case build_masks 0 c \<lparr>literals = replicate 37 0, questions = 0, stars = 0\<rparr> of
             None \<Rightarrow> None
           | Some m \<Rightarrow> run_states m (length c) (close_states (stars m) 1) host))"

text \<open>The loop of \<^verbatim>\<open>matches\<close> over the two label iterators.\<close>

fun match_labels :: "string list \<Rightarrow> string list \<Rightarrow> bool option" where
  "match_labels [] [] = Some True"
| "match_labels (p # ps) (h # hs) =
     (case match_label p h of
        None \<Rightarrow> None
      | Some True \<Rightarrow> match_labels ps hs
      | Some False \<Rightarrow> Some False)"
| "match_labels _ _ = Some False"

definition matches_opt :: "string \<Rightarrow> string \<Rightarrow> bool option" where
  "matches_opt pattern host =
     (if pattern = [] \<or> host = [] \<or> \<not> is_ascii pattern \<or> \<not> is_ascii host then Some False
      else if \<not> is_glob pattern then
        (case parse_ip pattern of
           Some expected \<Rightarrow> Some (parse_ip host = Some expected)
         | None \<Rightarrow>
             Some (length pattern \<le> 255 \<and> length host \<le> 255 \<and> eq_ignore_ascii_case pattern host))
      else if length pattern > MAX_HOST_BYTES \<or> length host > MAX_HOST_BYTES then Some False
      else if \<not> valid_labels pattern True \<or> \<not> valid_labels host False then Some False
      else match_labels (split_on (CHR ''.'') pattern) (split_on (CHR ''.'') host))"

text \<open>
  \<open>matches_opt\<close> keeps the panics of the code as \<^term>\<open>None\<close>; the theorem \<open>matches_total\<close> below
  shows there are none, and callers use \<open>host_matches_pattern\<close>.
\<close>

definition host_matches_pattern :: "string \<Rightarrow> string \<Rightarrow> bool" where
  "host_matches_pattern pattern host = (matches_opt pattern host = Some True)"

section \<open>Reference semantics of a wildcard\<close>

fun glob :: "string \<Rightarrow> string \<Rightarrow> bool" where
  "glob [] hs = (hs = [])"
| "glob (p # ps) [] = (p = CHR ''*'' \<and> glob ps [])"
| "glob (p # ps) (h # hs) =
     (if p = CHR ''*'' then glob ps (h # hs) \<or> glob (p # ps) hs
      else (p = CHR ''?'' \<or> to_lower p = to_lower h) \<and> glob ps hs)"

section \<open>The automaton computes the wildcard match\<close>

lemma bit_close_states:
  "bit (close_states t s) j \<longleftrightarrow> bit s j \<or> (0 < j \<and> j < 64 \<and> bit s (j - 1) \<and> bit t (j - 1))"
  unfolding close_states_def bit_or_iff bit_push1 bit_and_iff by auto

subsection \<open>Compaction\<close>

fun no_double_star :: "string \<Rightarrow> bool" where
  "no_double_star (a # b # cs) = (\<not> (a = CHR ''*'' \<and> b = CHR ''*'') \<and> no_double_star (b # cs))"
| "no_double_star _ = True"

lemma no_double_star_nth:
  "no_double_star c \<Longrightarrow> Suc j < length c \<Longrightarrow> c ! j = CHR ''*'' \<Longrightarrow> c ! Suc j \<noteq> CHR ''*''"
proof (induction c arbitrary: j rule: no_double_star.induct)
  case (1 a b cs)
  then show ?case by (cases j) auto
qed auto

lemma no_double_star_snoc:
  "no_double_star c \<Longrightarrow> \<not> (b = CHR ''*'' \<and> c \<noteq> [] \<and> last c = CHR ''*'') \<Longrightarrow> no_double_star (c @ [b])"
  by (induction c rule: no_double_star.induct) auto

lemma glob_double_star: "glob (CHR ''*'' # CHR ''*'' # ps) hs = glob (CHR ''*'' # ps) hs"
  by (induction hs) auto

lemma glob_append_cong:
  assumes "\<And>hs. glob p hs = glob q hs"
  shows "glob (a @ p) hs = glob (a @ q) hs"
proof (induction a hs rule: glob.induct)
qed (auto simp: assms)

lemma compact_glob:
  "compact acc ps = Some c \<Longrightarrow> glob (acc @ ps) hs = glob c hs"
proof (induction ps arbitrary: acc)
  case (Cons b bs)
  show ?case
  proof (cases "b = CHR ''*'' \<and> acc \<noteq> [] \<and> last acc = CHR ''*''")
    case True
    then have "acc = butlast acc @ [CHR ''*'']" by (metis append_butlast_last_id)
    then have "glob (acc @ b # bs) hs = glob (butlast acc @ CHR ''*'' # CHR ''*'' # bs) hs"
      using True by (metis append.assoc append_Cons append_Nil)
    also have "\<dots> = glob (butlast acc @ CHR ''*'' # bs) hs"
      by (rule glob_append_cong) (rule glob_double_star)
    also have "\<dots> = glob (acc @ bs) hs"
      using True by (metis append.assoc append_Cons append_Nil append_butlast_last_id)
    finally show ?thesis using Cons True by simp
  next
    case False
    then show ?thesis using Cons.IH [of "acc @ [b]"] Cons.prems by (auto split: if_splits)
  qed
qed simp

lemma compact_total: "length acc + length ps \<le> MAX_LABEL_BYTES \<Longrightarrow> \<exists>c. compact acc ps = Some c"
  by (induction ps arbitrary: acc) auto

lemma compact_props:
  "compact acc ps = Some c \<Longrightarrow> no_double_star acc \<Longrightarrow> length acc \<le> MAX_LABEL_BYTES \<Longrightarrow>
   no_double_star c \<and> length c \<le> MAX_LABEL_BYTES \<and> set c \<subseteq> set acc \<union> set ps"
  by (induction ps arbitrary: acc) (fastforce split: if_splits simp: no_double_star_snoc)+

subsection \<open>Character classes\<close>

definition char_ok :: "char \<Rightarrow> bool" where
  "char_ok b \<longleftrightarrow> is_ascii_alphanumeric b \<or> b = CHR ''-''"

lemma character_index_range: "character_index b = Some i \<Longrightarrow> i < 37"
  by (auto simp: character_index_def is_ascii_lower_def is_ascii_digit_def byte_to_lower
      is_ascii_upper_def split: if_splits)

lemma byte_minus: "byte b = 45 \<longleftrightarrow> b = CHR ''-''"
  using byte_inject [of b "CHR ''-''"] by simp

lemma to_lower_minus: "to_lower b = CHR ''-'' \<longleftrightarrow> b = CHR ''-''"
  unfolding byte_minus [symmetric] by (auto simp: byte_to_lower is_ascii_upper_def)

lemma character_index_ok: "character_index b = None \<longleftrightarrow> \<not> char_ok b"
  by (auto simp: character_index_def char_ok_def is_ascii_alphanumeric_def is_ascii_lower_def
      is_ascii_digit_def byte_to_lower is_ascii_upper_def to_lower_minus split: if_splits)

lemma character_index_eq:
  assumes "character_index a = Some i" "character_index b = Some j"
  shows "i = j \<longleftrightarrow> to_lower a = to_lower b"
  using assms
  by (auto simp: character_index_def to_lower_eq_iff is_ascii_lower_def to_lower_minus
      is_ascii_digit_def byte_to_lower is_ascii_upper_def split: if_splits)
    (rule byte_eqI, linarith)+

subsection \<open>The masks\<close>

definition masks_of :: "string \<Rightarrow> masks \<Rightarrow> bool" where
  "masks_of c m \<longleftrightarrow>
     length (literals m) = 37
     \<and> (\<forall>j. bit (stars m) j \<longleftrightarrow> j < length c \<and> c ! j = CHR ''*'')
     \<and> (\<forall>j. bit (questions m) j \<longleftrightarrow> j < length c \<and> c ! j = CHR ''?'')
     \<and> (\<forall>i<37. \<forall>j. bit (literals m ! i) j \<longleftrightarrow>
           j < length c \<and> c ! j \<noteq> CHR ''*'' \<and> c ! j \<noteq> CHR ''?'' \<and> character_index (c ! j) = Some i)"

lemma masks_of_Nil: "masks_of [] \<lparr>literals = replicate 37 0, questions = 0, stars = 0\<rparr>"
  by (simp add: masks_of_def)

lemma nth_snoc_less: "j < length (c @ [b]) \<and> P ((c @ [b]) ! j) \<longleftrightarrow> (j < length c \<and> P (c ! j)) \<or> (j = length c \<and> P b)"
  by (auto simp: nth_append less_Suc_eq)

lemma masks_of_snoc:
  assumes m: "masks_of c m" and len: "length c < 64"
    and m': "build_masks (length c) [b] m = Some m'"
  shows "masks_of (c @ [b]) m'"
proof -
  note snoc = nth_snoc_less [of _ c b "\<lambda>x. x = CHR ''*''"] nth_snoc_less [of _ c b "\<lambda>x. x = CHR ''?''"]
    nth_snoc_less [of _ c b "\<lambda>x. x \<noteq> CHR ''*'' \<and> x \<noteq> CHR ''?'' \<and> character_index x = Some _"]
  consider (star) "b = CHR ''*''" | (question) "b = CHR ''?''"
    | (lit) i where "b \<noteq> CHR ''*''" "b \<noteq> CHR ''?''" "character_index b = Some i"
    using m' by (auto simp: Let_def split: if_splits option.splits)
  then show ?thesis
  proof cases
    case star
    then have "m' = m\<lparr>stars := stars m OR push_bit (length c) 1\<rparr>" using m' by simp
    then show ?thesis using m len star
      unfolding masks_of_def snoc by (simp add: bit_or_iff bit_one_at del: push_bit_of_1)
  next
    case question
    then have "m' = m\<lparr>questions := questions m OR push_bit (length c) 1\<rparr>" using m' by simp
    then show ?thesis using m len question
      unfolding masks_of_def snoc by (simp add: bit_or_iff bit_one_at del: push_bit_of_1)
  next
    case lit
    have i: "i < 37" using character_index_range lit by blast
    have m'_eq: "m' = m\<lparr>literals := (literals m)[i := literals m ! i OR push_bit (length c) 1]\<rparr>"
      using m' lit by simp
    have l37: "length (literals m) = 37" using m by (simp add: masks_of_def)
    have "bit (literals m' ! k) j \<longleftrightarrow> bit (literals m ! k) j \<or> (j = length c \<and> i = k)" if "k < 37" for k j
      using that l37 i len unfolding m'_eq
      by (auto simp add: nth_list_update bit_or_iff bit_one_at simp del: push_bit_of_1)
    moreover have "stars m' = stars m" "questions m' = questions m" "length (literals m') = 37"
      using m'_eq l37 by simp_all
    ultimately show ?thesis using m lit
      unfolding masks_of_def snoc by simp
  qed
qed

lemma build_masks_snoc:
  "build_masks k (b # bs) m =
     (case build_masks k [b] m of None \<Rightarrow> None | Some m' \<Rightarrow> build_masks (Suc k) bs m')"
  by (simp add: Let_def split: option.splits)

lemma build_masks_spec:
  "masks_of c m \<Longrightarrow> length (c @ bs) \<le> 64 \<Longrightarrow> build_masks (length c) bs m = Some m' \<Longrightarrow>
   masks_of (c @ bs) m'"
proof (induction bs arbitrary: c m)
  case (Cons b bs)
  obtain m1 where m1: "build_masks (length c) [b] m = Some m1"
    and rest: "build_masks (Suc (length c)) bs m1 = Some m'"
    using Cons.prems(3) unfolding build_masks_snoc [of _ b bs] by (auto split: option.splits)
  have "masks_of (c @ [b]) m1"
    using Cons.prems(1,2) m1 by (intro masks_of_snoc) auto
  then show ?case using Cons.IH [of "c @ [b]" m1] Cons.prems(2) rest by simp
qed simp

lemma build_masks_total:
  "list_all (valid_label_byte True) bs \<Longrightarrow> \<exists>m'. build_masks k bs m = Some m'"
proof (induction bs arbitrary: k m)
  case (Cons b bs)
  then have "b = CHR ''*'' \<or> b = CHR ''?'' \<or> character_index b \<noteq> None"
    by (auto simp: valid_label_byte_def character_index_ok char_ok_def)
  with Cons.IH Cons.prems show ?case by (auto simp: Let_def)
qed simp

subsection \<open>The automaton\<close>

text \<open>State \<open>j\<close> of the automaton accepts a rest that the pattern from its byte \<open>j\<close> on matches.\<close>

definition accepts :: "string \<Rightarrow> u64 \<Rightarrow> string \<Rightarrow> bool" where
  "accepts c s hs \<longleftrightarrow> (\<exists>j\<le>length c. bit s j \<and> glob (drop j c) hs)"

definition closed_states :: "string \<Rightarrow> u64 \<Rightarrow> bool" where
  "closed_states c s \<longleftrightarrow> (\<forall>j<length c. bit s j \<longrightarrow> c ! j = CHR ''*'' \<longrightarrow> bit s (Suc j))"

lemma glob_star_skip: "glob ps hs \<Longrightarrow> glob (CHR ''*'' # ps) hs"
  by (cases hs) auto

lemma drop_nth: "j < length c \<Longrightarrow> drop j c = c ! j # drop (Suc j) c"
  by (simp add: Cons_nth_drop_Suc)

lemma accepts_close:
  assumes m: "masks_of c m"
  shows "accepts c (close_states (stars m) s) hs = accepts c s hs"
proof
  assume "accepts c (close_states (stars m) s) hs"
  then obtain j where j: "j \<le> length c" "glob (drop j c) hs"
    and b: "bit s j \<or> (0 < j \<and> bit s (j - 1) \<and> bit (stars m) (j - 1))"
    unfolding accepts_def bit_close_states by auto
  show "accepts c s hs"
  proof (cases "bit s j")
    case True with j show ?thesis by (auto simp: accepts_def)
  next
    case False
    with b m have k: "0 < j" "bit s (j - 1)" "j - 1 < length c" "c ! (j - 1) = CHR ''*''"
      by (auto simp: masks_of_def)
    then have "glob (drop (j - 1) c) hs"
      using j(2) drop_nth [of "j - 1" c] glob_star_skip by simp
    with k show ?thesis unfolding accepts_def by (intro exI [of _ "j - 1"]) simp
  qed
qed (auto simp: accepts_def bit_close_states)

lemma closed_close:
  assumes m: "masks_of c m" and nds: "no_double_star c" and len: "length c \<le> MAX_LABEL_BYTES"
  shows "closed_states c (close_states (stars m) s)"
  unfolding closed_states_def
proof (intro allI impI)
  fix j assume j: "j < length c" "bit (close_states (stars m) s) j" "c ! j = CHR ''*''"
  have "\<not> (0 < j \<and> bit (stars m) (j - 1))"
    using m nds j no_double_star_nth [of c "j - 1"] by (auto simp: masks_of_def)
  with j have "bit s j" by (auto simp: bit_close_states)
  moreover have "bit (stars m) j" using m j by (simp add: masks_of_def)
  ultimately show "bit (close_states (stars m) s) (Suc j)"
    using j len by (simp add: bit_close_states)
qed

lemma glob_Nil: "glob c [] \<longleftrightarrow> list_all (\<lambda>b. b = CHR ''*'') c"
  by (induction c) auto

lemma accepts_Nil:
  assumes nds: "no_double_star c" and cl: "closed_states c s"
  shows "accepts c s [] \<longleftrightarrow> bit s (length c)"
proof
  assume "accepts c s []"
  then obtain j where j: "j \<le> length c" "bit s j" "glob (drop j c) []" by (auto simp: accepts_def)
  show "bit s (length c)"
  proof (cases "j = length c")
    case False
    with j have jl: "j < length c" by simp
    with j(3) have all: "c ! k = CHR ''*''" if "j \<le> k" "k < length c" for k
      using that by (auto simp: glob_Nil list_all_length dest: spec [of _ "k - j"])
    with jl no_double_star_nth [OF nds, of j] have "Suc j = length c"
      by (metis Suc_leI le_SucI le_neq_implies_less order_refl)
    moreover have "bit s (Suc j)" using cl jl j(2) all [of j] by (simp add: closed_states_def)
    ultimately show ?thesis by simp
  qed (use j in simp)
qed (auto simp: accepts_def)

definition step_states :: "masks \<Rightarrow> nat \<Rightarrow> u64 \<Rightarrow> u64" where
  "step_states m i s = push_bit 1 (s AND (questions m OR literals m ! i)) OR (s AND stars m)"

lemma bit_step_states:
  assumes m: "masks_of c m" and i: "character_index h = Some i" and len: "length c \<le> MAX_LABEL_BYTES"
  shows "bit (step_states m i s) j \<longleftrightarrow>
     (bit s j \<and> j < length c \<and> c ! j = CHR ''*'')
     \<or> (\<exists>k. j = Suc k \<and> bit s k \<and> k < length c \<and> c ! k \<noteq> CHR ''*''
          \<and> (c ! k = CHR ''?'' \<or> character_index (c ! k) = Some i))"
proof -
  have st: "bit (stars m) k \<longleftrightarrow> k < length c \<and> c ! k = CHR ''*''" for k
    using m by (simp add: masks_of_def)
  have ql: "bit (questions m OR literals m ! i) k \<longleftrightarrow>
      k < length c \<and> c ! k \<noteq> CHR ''*'' \<and> (c ! k = CHR ''?'' \<or> character_index (c ! k) = Some i)" for k
    using m character_index_range [OF i] unfolding masks_of_def bit_or_iff by auto
  show ?thesis
    unfolding step_states_def bit_or_iff [of "push_bit 1 _"] bit_push1 bit_and_iff st ql
    using len by (cases j) auto
qed

lemma accepts_step:
  assumes m: "masks_of c m" and ok: "list_all (valid_label_byte True) c"
    and i: "character_index h = Some i"
    and len: "length c \<le> MAX_LABEL_BYTES" and cl: "closed_states c s"
    and nds: "no_double_star c"
  shows "accepts c s (h # hs) = accepts c (step_states m i s) hs"
proof -
  note bs = bit_step_states [OF m i len]
  have lit: "character_index (c ! j) = Some i \<longleftrightarrow> to_lower (c ! j) = to_lower h"
    if "j < length c" "c ! j \<noteq> CHR ''*''" "c ! j \<noteq> CHR ''?''" for j
  proof -
    have "char_ok (c ! j)"
      using that ok by (auto simp: list_all_length valid_label_byte_def char_ok_def)
    then obtain i' where "character_index (c ! j) = Some i'" using character_index_ok by blast
    with character_index_eq [OF this i] show ?thesis by auto
  qed
  have plain: "accepts c (step_states m i s) hs"
    if "j < length c" "bit s j" "c ! j \<noteq> CHR ''*''" "glob (drop j c) (h # hs)" for j
  proof -
    have "(c ! j = CHR ''?'' \<or> to_lower (c ! j) = to_lower h) \<and> glob (drop (Suc j) c) hs"
      using that drop_nth [of j c] by simp
    then show ?thesis using that lit [of j] unfolding accepts_def bs
      by (intro exI [of _ "Suc j"]) auto
  qed
  show ?thesis
  proof
    assume "accepts c s (h # hs)"
    then obtain j where j: "j \<le> length c" "bit s j" "glob (drop j c) (h # hs)"
      by (auto simp: accepts_def)
    then have jl: "j < length c" by (cases "j = length c") auto
    show "accepts c (step_states m i s) hs"
    proof (cases "c ! j = CHR ''*''")
      case True
      have "glob (drop (Suc j) c) (h # hs) \<or> glob (drop j c) hs"
        using j(3) drop_nth [OF jl] True by simp
      then show ?thesis
      proof
        assume g: "glob (drop (Suc j) c) (h # hs)"
        then have sl: "Suc j < length c" by (cases "Suc j < length c") auto
        have "bit s (Suc j)" using cl jl j(2) True by (auto simp: closed_states_def)
        then show ?thesis
          using plain [OF sl] g no_double_star_nth [OF nds sl True] by simp
      next
        assume "glob (drop j c) hs"
        then show ?thesis using j jl True unfolding accepts_def bs by (intro exI [of _ j]) simp
      qed
    qed (use plain jl j in blast)
  next
    assume "accepts c (step_states m i s) hs"
    then obtain j where j: "j \<le> length c" "glob (drop j c) hs" and b: "bit (step_states m i s) j"
      by (auto simp: accepts_def)
    from b consider (star) "bit s j" "j < length c" "c ! j = CHR ''*''"
      | (adv) k where "j = Suc k" "bit s k" "k < length c" "c ! k \<noteq> CHR ''*''"
          "c ! k = CHR ''?'' \<or> character_index (c ! k) = Some i"
      unfolding bs by auto
    then show "accepts c s (h # hs)"
    proof cases
      case star
      then have "glob (drop j c) (h # hs)" using j(2) drop_nth [of j c] by simp
      with star show ?thesis unfolding accepts_def by (intro exI [of _ j]) simp
    next
      case adv
      then have "glob (drop k c) (h # hs)" using j(2) drop_nth [of k c] lit [of k] by auto
      with adv j show ?thesis unfolding accepts_def by (intro exI [of _ k]) auto
    qed
  qed
qed

lemma run_states_spec:
  assumes "masks_of c m" "list_all (valid_label_byte True) c" "no_double_star c"
    "length c \<le> MAX_LABEL_BYTES"
  shows "list_all (valid_label_byte False) hs \<Longrightarrow> closed_states c s \<Longrightarrow>
    run_states m (length c) s hs = Some (accepts c s hs)"
proof (induction hs arbitrary: s)
  case Nil
  have "accepts c s [] = bit (close_states (stars m) s) (length c)"
    using assms closed_close [of c m s] accepts_close [of c m s "[]"] by (simp add: accepts_Nil)
  moreover have "bit (close_states (stars m) s) (length c) =
      (close_states (stars m) s AND push_bit (length c) 1 \<noteq> 0)"
    using and_single_bit [of "length c"] assms(4) by simp
  ultimately show ?case unfolding run_states.simps by simp
next
  case (Cons h hs)
  then obtain i where i: "character_index h = Some i"
    using character_index_ok [of h] by (auto simp: valid_label_byte_def char_ok_def)
  let ?s = "close_states (stars m) (step_states m i s)"
  have acc: "accepts c s (h # hs) = accepts c ?s hs"
    using assms Cons.prems i by (simp add: accepts_close accepts_step)
  have run: "run_states m (length c) s (h # hs) =
      (if ?s = 0 then Some False else run_states m (length c) ?s hs)"
    by (simp only: run_states.simps i option.case Let_def step_states_def)
  show ?case
  proof (cases "?s = 0")
    case True
    then have "\<not> accepts c ?s hs" by (simp add: accepts_def)
    with run True acc show ?thesis by simp
  next
    case False
    then show ?thesis
      using run acc Cons closed_close assms by simp
  qed
qed

lemma match_label_glob:
  assumes p: "valid_label True p" and h: "valid_label False h"
  shows "match_label p h = Some (glob p h)"
proof -
  obtain c where c: "compact [] p = Some c"
    using compact_total [of "[]" p] p by (auto simp: valid_label_def)
  have props: "no_double_star c" "length c \<le> MAX_LABEL_BYTES" "set c \<subseteq> set p"
    using compact_props [OF c] by auto
  have ok: "list_all (valid_label_byte True) c"
    using p props(3) by (auto simp: valid_label_def list_all_iff)
  obtain m where m: "build_masks 0 c \<lparr>literals = replicate 37 0, questions = 0, stars = 0\<rparr> = Some m"
    using build_masks_total [OF ok] by blast
  have mo: "masks_of c m"
    using build_masks_spec [OF masks_of_Nil, of c m] m props(2) by simp
  have "accepts c (close_states (stars m) 1) h = accepts c 1 h"
    by (rule accepts_close [OF mo])
  also have "\<dots> = glob c h" by (auto simp: accepts_def bit_1_iff)
  also have "\<dots> = glob p h" using compact_glob [OF c] by simp
  finally have "accepts c (close_states (stars m) 1) h = glob p h" .
  moreover have "run_states m (length c) (close_states (stars m) 1) h =
      Some (accepts c (close_states (stars m) 1) h)"
    using run_states_spec [OF mo ok props(1,2)] closed_close [OF mo props(1,2)] h
    by (auto simp: valid_label_def)
  ultimately show ?thesis using c m by (simp add: match_label_def)
qed

section \<open>Whole hosts\<close>

lemma match_labels_spec:
  "list_all (valid_label True) ps \<Longrightarrow> list_all (valid_label False) hs \<Longrightarrow>
   match_labels ps hs = Some (list_all2 glob ps hs)"
  by (induction ps hs rule: match_labels.induct) (auto simp: match_label_glob split: bool.splits)

lemma valid_label_byte_ascii: "valid_label_byte w b \<Longrightarrow> byte b < 128"
  by (auto simp: valid_label_byte_def is_ascii_alphanumeric_def is_ascii_digit_def
      is_ascii_upper_def is_ascii_lower_def)

lemma valid_labels_ascii:
  assumes v: "valid_labels s w"
  shows "is_ascii s \<and> s \<noteq> []"
proof
  have "byte x < 128" if "x \<in> set s" for x
    using set_split_on_join [OF that, of "CHR ''.''"] v valid_label_byte_ascii
    by (fastforce simp: valid_labels_def valid_label_def list_all_iff)
  then show "is_ascii s" by (simp add: is_ascii_def list_all_iff)
  show "s \<noteq> []" using v by (auto simp: valid_labels_def valid_label_def)
qed

lemma matches_opt_glob:
  "is_glob p \<Longrightarrow> matches_opt p h =
     Some (length p \<le> MAX_HOST_BYTES \<and> length h \<le> MAX_HOST_BYTES
       \<and> valid_labels p True \<and> valid_labels h False
       \<and> list_all2 glob (split_on (CHR ''.'') p) (split_on (CHR ''.'') h))"
proof (cases "valid_labels p True \<and> valid_labels h False")
  case True
  then have "p \<noteq> []" "h \<noteq> []" "is_ascii p" "is_ascii h"
    using valid_labels_ascii by blast+
  moreover assume "is_glob p"
  ultimately show ?thesis
    using True match_labels_spec [of "split_on (CHR ''.'') p" "split_on (CHR ''.'') h"]
    by (simp add: matches_opt_def valid_labels_def not_less)
next
  case False
  moreover assume "is_glob p"
  ultimately show ?thesis by (simp add: matches_opt_def) blast
qed

subsection \<open>Case\<close>

lemma digit_value_lower: "radix \<le> 36 \<Longrightarrow> digit_value radix (to_lower c) = digit_value radix c"
  by (auto simp: digit_value_def byte_to_lower is_ascii_digit_def is_ascii_lower_def
      is_ascii_upper_def)

lemma read_digits_lower:
  "radix \<le> 36 \<Longrightarrow> read_digits radix (map to_lower s) = apsnd (map to_lower) (read_digits radix s)"
  by (induction s) (auto simp: digit_value_lower split: option.splits prod.splits)

lemma read_number_lower:
  "radix \<le> 36 \<Longrightarrow> read_number radix d z b (map to_lower s) =
     map_option (apsnd (map to_lower)) (read_number radix d z b s)"
  by (simp add: read_number_def read_digits_lower Let_def split: prod.splits)

lemma read_sep_lower:
  "caseless c \<Longrightarrow> read_sep c i (map to_lower s) = map_option (map to_lower) (read_sep c i s)"
  by (simp add: read_sep_def strip_prefix_lower)

lemma read_octets_lower:
  "read_octets n i acc (map to_lower s) = map_option (apsnd (map to_lower)) (read_octets n i acc s)"
proof (induction n arbitrary: i acc s)
  case (Suc n)
  show ?case
    by (cases "read_sep (CHR ''.'') i s")
      (simp_all add: read_sep_lower read_octet_def read_number_lower Suc.IH split: option.splits prod.splits)
qed simp

lemma read_ipv4_lower:
  "read_ipv4_addr (map to_lower s) = map_option (apsnd (map to_lower)) (read_ipv4_addr s)"
  by (simp add: read_ipv4_addr_def read_octets_lower)

lemma read_sep_ipv4_lower:
  "read_sep_ipv4 i (map to_lower s) = map_option (apsnd (map to_lower)) (read_sep_ipv4 i s)"
  by (simp add: read_sep_ipv4_def read_sep_lower read_ipv4_lower split: option.splits)

lemma read_sep_group_lower:
  "read_sep_group i (map to_lower s) = map_option (apsnd (map to_lower)) (read_sep_group i s)"
  by (simp add: read_sep_group_def read_sep_lower read_group_def read_number_lower
      split: option.splits)

lemma read_groups_lower:
  "read_groups limit i (map to_lower s) = apsnd (apsnd (map to_lower)) (read_groups limit i s)"
proof (induction limit i s rule: read_groups.induct)
  case (1 limit i s)
  show ?case
  proof (cases "limit \<le> i")
    case False
    show ?thesis
    proof (cases "if i + 1 < limit then read_sep_ipv4 i s else None")
      case None
      show ?thesis
      proof (cases "read_sep_group i s")
        case (Some gr)
        obtain g r where gr: "gr = (g, r)" by force
        have "read_groups limit (Suc i) (map to_lower r) = apsnd (apsnd (map to_lower)) (read_groups limit (Suc i) r)"
          using "1.IH" [OF _ None Some gr [symmetric]] False by simp
        then show ?thesis using False None Some gr
          by (auto simp: read_groups.simps [of limit i] read_sep_ipv4_lower read_sep_group_lower
              split: prod.splits if_splits)
      qed (use False None in \<open>auto simp: read_groups.simps [of limit i] read_sep_ipv4_lower
          read_sep_group_lower split: if_splits\<close>)
    next
      case (Some ar)
      then show ?thesis using False
        by (cases ar) (auto simp: read_groups.simps [of limit i] read_sep_ipv4_lower split: if_splits)
    qed
  qed (simp add: read_groups.simps [of limit i])
qed

lemma read_ipv6_lower:
  "read_ipv6_addr (map to_lower s) = map_option (apsnd (map to_lower)) (read_ipv6_addr s)"
  by (simp add: read_ipv6_addr_def read_groups_lower strip_prefix_lower Let_def
      split: prod.splits option.splits)

lemma parse_ip_addr_lower: "parse_ip_addr (map to_lower s) = parse_ip_addr s"
  by (simp add: parse_ip_addr_def read_ipv4_lower read_ipv6_lower split: option.splits prod.splits)

lemma parse_ip_lower: "parse_ip (map to_lower s) = parse_ip s"
  by (simp add: parse_ip_def parse_ip_addr_lower strip_prefix_lower strip_suffix_lower
      split: option.splits)


lemma valid_label_lower: "valid_label w (map to_lower l) = valid_label w l"
proof -
  have "valid_label_byte w (to_lower b) = valid_label_byte w b" for b
    by (auto simp: valid_label_byte_def caseless_lower is_ascii_alphanumeric_def is_ascii_digit_def
        is_ascii_upper_def is_ascii_lower_def byte_to_lower)
  then show ?thesis
    by (cases "l = []") (auto simp: valid_label_def list_all_iff hd_map last_map caseless_lower)
qed

lemma split_dot_lower: "split_on (CHR ''.'') (map to_lower s) = map (map to_lower) (split_on (CHR ''.'') s)"
  by (rule split_on_map) (simp add: caseless_lower)

lemma valid_labels_lower: "valid_labels (map to_lower s) w = valid_labels s w"
  by (simp add: valid_labels_def split_dot_lower list_all_iff valid_label_lower)

lemma is_glob_lower: "is_glob (map to_lower p) = is_glob p"
  by (simp add: is_glob_def list_ex_iff caseless_lower)

lemma glob_lower: "glob (map to_lower p) (map to_lower h) = glob p h"
  by (induction p h rule: glob.induct) (simp_all add: caseless_lower)

lemma matches_opt_lower: "matches_opt (map to_lower p) (map to_lower h) = matches_opt p h"
proof (cases "is_glob p")
  case True
  then show ?thesis
    by (simp add: matches_opt_glob is_glob_lower valid_labels_lower split_dot_lower
        list_all2_map1 list_all2_map2 glob_lower)
next
  case False
  then show ?thesis by (simp add: matches_opt_def is_glob_lower parse_ip_lower split: option.splits)
qed

lemma matches_opt_total: "\<exists>b. matches_opt p h = Some b"
proof (cases "is_glob p")
  case False
  then show ?thesis by (auto simp: matches_opt_def split: option.splits)
qed (simp add: matches_opt_glob)

text \<open>Witnesses evaluate the reference semantics instead of the automaton.\<close>

lemma host_matches_pattern_code [code]:
  "host_matches_pattern p h =
     (if is_glob p then
        length p \<le> MAX_HOST_BYTES \<and> length h \<le> MAX_HOST_BYTES
        \<and> valid_labels p True \<and> valid_labels h False
        \<and> list_all2 glob (split_on (CHR ''.'') p) (split_on (CHR ''.'') h)
      else matches_opt p h = Some True)"
  by (simp add: host_matches_pattern_def matches_opt_glob)

section \<open>Properties\<close>

text \<open>
  C3. On a valid pattern label and a valid host label the bit-parallel automaton of
  \<^verbatim>\<open>match_label\<close> never panics (no index out of range, no \<^verbatim>\<open>unreachable!\<close>) and returns
  exactly whether the label matches the wildcard pattern, compared without case.
\<close>

theorem match_label_correct:
  assumes "valid_label True pattern" and "valid_label False host"
  shows "match_label pattern host = Some (glob pattern host)"
  using assms by (rule match_label_glob)

theorem match_label_correct_witness:
  "valid_label True ''a*b'' \<and> valid_label False ''axyzb'' \<and> match_label ''a*b'' ''axyzb'' = Some True"
proof -
  have p: "valid_label True ''a*b''" and h: "valid_label False ''axyzb''" by code_simp+
  have "glob ''a*b'' ''axyzb''" by code_simp
  then show ?thesis using p h match_label_correct [OF p h] by simp
qed

text \<open>
  A glob pattern matches a host exactly when both are within 253 bytes, both split into
  valid DNS labels, they have the same number of labels, and each host label matches its
  pattern label: wildcards never cross a dot, and invalid or oversized hosts never match.
\<close>

theorem matches_glob_spec:
  assumes "is_glob pattern"
  shows "matches_opt pattern host =
     Some (length pattern \<le> MAX_HOST_BYTES \<and> length host \<le> MAX_HOST_BYTES
       \<and> valid_labels pattern True \<and> valid_labels host False
       \<and> list_all2 glob (split_on (CHR ''.'') pattern) (split_on (CHR ''.'') host))"
  using assms by (rule matches_opt_glob)

theorem matches_glob_spec_witness:
  "is_glob ''*.foo.com'' \<and> matches_opt ''*.foo.com'' ''a.b.foo.com'' = Some False"
proof -
  have g: "is_glob ''*.foo.com''" by code_simp
  show ?thesis using g matches_glob_spec [OF g, of "''a.b.foo.com''"]
    by (simp add: list_all2_Cons1)
qed

text \<open>Matching never panics and ignores ASCII case on both sides, IP literals included.\<close>

theorem matches_case_insensitive:
  assumes "eq_ignore_ascii_case pattern pattern'" and "eq_ignore_ascii_case host host'"
  shows "\<exists>b. matches_opt pattern host = Some b \<and> matches_opt pattern' host' = Some b"
proof -
  have "matches_opt pattern host = matches_opt pattern' host'"
    using assms by (metis eq_ignore_ascii_case_def matches_opt_lower)
  then show ?thesis using matches_opt_total by metis
qed

theorem matches_case_insensitive_witness:
  "eq_ignore_ascii_case ''2001:db8::a'' ''2001:DB8::A'' \<and> eq_ignore_ascii_case ''[2001:db8::A]'' ''[2001:DB8::a]''
   \<and> (\<exists>b. matches_opt ''2001:db8::a'' ''[2001:db8::A]'' = Some b \<and> matches_opt ''2001:DB8::A'' ''[2001:DB8::a]'' = Some b)"
proof -
  have p: "eq_ignore_ascii_case ''2001:db8::a'' ''2001:DB8::A''"
    and h: "eq_ignore_ascii_case ''[2001:db8::A]'' ''[2001:DB8::a]''" by code_simp+
  show ?thesis using p h matches_case_insensitive [OF p h] by blast
qed

end
