(* ===== verification/Http.thy ===== *)
theory Http
  imports HostMatch
begin

text \<open>
  What the sources read of the \<^verbatim>\<open>http\<close> crate. A \<^verbatim>\<open>Request\<close> and a \<^verbatim>\<open>HeaderMap\<close> are records of
  the observations the code makes of them; the crate's parsers are not part of the
  repository and are the fields of a record \<open>http_lib\<close>, an argument of every definition that
  calls one. What a property relies on of them is a hypothesis of that property.
\<close>

text \<open>\<open>hm_keys\<close> is \<^verbatim>\<open>HeaderMap::keys\<close> (lower-case names), \<open>hm_values n\<close> is \<^verbatim>\<open>get_all(n)\<close>.\<close>

record header_map =
  hm_keys :: "string list"
  hm_values :: "string \<Rightarrow> string list"

record request =
  req_method :: string
  uri_path :: string
  uri_scheme :: "string option"
  uri_authority :: "(string \<times> string) option" \<comment> \<open>\<^verbatim>\<open>as_str()\<close> and \<^verbatim>\<open>host()\<close>\<close>
  uri_path_and_query :: "string option"
  req_headers :: header_map

text \<open>
  \<^item> \<open>parse_authority_host v\<close>: \<^verbatim>\<open>v.parse::<Authority>().ok()\<close> and the \<^verbatim>\<open>host()\<close> of it;
  \<^item> \<open>header_to_str v\<close>: \<^verbatim>\<open>HeaderValue::to_str\<close>;
  \<^item> \<open>parse_header_name v\<close>: \<^verbatim>\<open>v.parse::<HeaderName>().ok()\<close> and its \<^verbatim>\<open>as_str()\<close>.
\<close>

record http_lib =
  parse_authority_host :: "string \<Rightarrow> string option"
  header_to_str :: "string \<Rightarrow> string option"
  parse_header_name :: "string \<Rightarrow> string option"

definition contains_key :: "header_map \<Rightarrow> string \<Rightarrow> bool" where
  "contains_key h n \<longleftrightarrow> hm_values h n \<noteq> []"

text \<open>\<^verbatim>\<open>HeaderMap::insert\<close> (replaces all values) and \<^verbatim>\<open>HeaderMap::remove\<close>.\<close>

definition hm_insert :: "string \<Rightarrow> string \<Rightarrow> header_map \<Rightarrow> header_map" where
  "hm_insert n v h = h\<lparr>hm_keys := (if n \<in> set (hm_keys h) then hm_keys h else hm_keys h @ [n]),
     hm_values := (hm_values h)(n := [v])\<rparr>"

definition hm_remove :: "string \<Rightarrow> header_map \<Rightarrow> header_map" where
  "hm_remove n h = h\<lparr>hm_keys := filter (\<lambda>k. k \<noteq> n) (hm_keys h), hm_values := (hm_values h)(n := [])\<rparr>"

lemma hm_values_insert [simp]: "hm_values (hm_insert n v h) m = (if m = n then [v] else hm_values h m)"
  by (simp add: hm_insert_def)

lemma hm_values_remove [simp]: "hm_values (hm_remove n h) m = (if m = n then [] else hm_values h m)"
  by (simp add: hm_remove_def)

section \<open>Host of a request\<close>

text \<open>\<^verbatim>\<open>authority_host\<close> and \<^verbatim>\<open>request_host\<close> of \<^verbatim>\<open>src/resource_guard.rs\<close>.\<close>

definition authority_host :: "http_lib \<Rightarrow> string \<Rightarrow> string option" where
  "authority_host L s = parse_authority_host L s"

definition request_host :: "http_lib \<Rightarrow> request \<Rightarrow> string option" where
  "request_host L r =
     (let from_header =
            (case hm_values (req_headers r) ''host'' of
               [] \<Rightarrow> None
             | v # _ \<Rightarrow> (case header_to_str L v of None \<Rightarrow> None | Some s \<Rightarrow> authority_host L s))
      in case from_header of
           Some h \<Rightarrow> Some h
         | None \<Rightarrow> map_option snd (uri_authority r))"

text \<open>
  A concrete instance for the witnesses: a host name without a port is its own authority, a
  printable ASCII value is its own text, and a header name is folded to lower case.
\<close>

definition plain_http :: http_lib where
  "plain_http =
     \<lparr>parse_authority_host = (\<lambda>v. if v \<noteq> [] \<and> valid_labels v False then Some v else None),
      header_to_str = (\<lambda>v. if list_all (\<lambda>c. 32 \<le> byte c \<and> byte c < 127) v then Some v else None),
      parse_header_name = (\<lambda>v. if v \<noteq> [] \<and> list_all (\<lambda>c. is_ascii_alphanumeric c \<or> c = CHR ''-'') v
                              then Some (map to_lower v) else None)\<rparr>"

end
