(* ===== verification/ResourcePolicy.thy ===== *)
theory ResourcePolicy
  imports Http
begin

text \<open>
  \<^verbatim>\<open>src/resource_policy.rs\<close>: canonicalisation of request paths, validation of a resource
  policy against the route's authenticators, and the authorisation decision; with
  \<^verbatim>\<open>validate_spiffe_id\<close> of \<^verbatim>\<open>src/workload_tls.rs\<close>, which the validation calls.
\<close>

section \<open>Canonical paths\<close>

definition hex_digit :: "char \<Rightarrow> nat option" where
  "hex_digit b =
     (if is_ascii_digit b then Some (byte b - 48)
      else if 97 \<le> byte b \<and> byte b \<le> 102 then Some (byte b - 97 + 10)
      else if 65 \<le> byte b \<and> byte b \<le> 70 then Some (byte b - 65 + 10)
      else None)"

text \<open>The bytes \<^verbatim>\<open>canonical_path\<close> refuses wherever they come from.\<close>

definition path_byte_refused :: "char \<Rightarrow> bool" where
  "path_byte_refused d \<longleftrightarrow>
     byte d = 92 \<or> d = CHR ''%'' \<or> d = CHR ''?'' \<or> d = CHR ''#'' \<or> d = CHR '';''
     \<or> byte d \<le> 31 \<or> byte d = 127"

definition path_byte_ok :: "char \<Rightarrow> char \<Rightarrow> bool" where
  "path_byte_ok raw decoded \<longleftrightarrow>
     \<not> path_byte_refused decoded \<and> (decoded \<noteq> CHR ''/'' \<or> raw = CHR ''/'')"

text \<open>The decoding loop.\<close>

fun decode_path :: "string \<Rightarrow> string + string" where
  "decode_path [] = Inr []"
| "decode_path (b # input) =
     (if b = CHR ''%'' then
        (case input of
           hi # lo # rest \<Rightarrow>
             (case (hex_digit hi, hex_digit lo) of
                (Some h, Some l) \<Rightarrow>
                  (let decoded = char_of (h * 16 + l)
                   in if \<not> path_byte_ok b decoded
                      then Inl ''ambiguous or unsupported resource path byte''
                      else (case decode_path rest of Inl e \<Rightarrow> Inl e | Inr out \<Rightarrow> Inr (decoded # out)))
              | _ \<Rightarrow> Inl ''invalid resource path escape'')
         | _ \<Rightarrow> Inl ''invalid resource path escape'')
      else if \<not> path_byte_ok b b then Inl ''ambiguous or unsupported resource path byte''
      else (case decode_path input of Inl e \<Rightarrow> Inl e | Inr out \<Rightarrow> Inr (b # out)))"

definition dot_segment :: "string \<Rightarrow> bool" where
  "dot_segment s \<longleftrightarrow> s = ''.'' \<or> s = ''..''"

definition canonical_path :: "string \<Rightarrow> string + string" where
  "canonical_path path =
     (if \<not> (prefix ''/'' path \<and> length path \<le> 2048)
      then Inl ''resource path must start with / and contain at most 2048 bytes''
      else (case decode_path path of
              Inl e \<Rightarrow> Inl e
            | Inr out \<Rightarrow>
                (case utf8_decode out of
                   None \<Rightarrow> Inl ''invalid utf-8''
                 | Some cs \<Rightarrow>
                     if list_ex char_is_control cs
                     then Inl ''resource path contains Unicode control character''
                     else if sublist ''//'' out then Inl ''resource path has repeated separators''
                     else if list_ex dot_segment (split_on (CHR ''/'') out)
                     then Inl ''resource path has dot segment''
                     else Inr out)))"

lemma path_byte_refused_escape: "path_byte_ok r d \<Longrightarrow> d \<noteq> CHR ''%''"
  by (auto simp: path_byte_ok_def path_byte_refused_def)

lemma decode_path_ok:
  "decode_path p = Inr q \<Longrightarrow>
     list_all (\<lambda>b. path_byte_ok b b) q \<and> length q \<le> length p
     \<and> count_list q (CHR ''/'') = count_list p (CHR ''/'')"
proof (induction p arbitrary: q rule: decode_path.induct)
  case (2 b input)
  show ?case
  proof (cases "b = CHR ''%''")
    case True
    then obtain hi lo rest h l out where i: "input = hi # lo # rest"
      and hl: "hex_digit hi = Some h" "hex_digit lo = Some l"
      and ok: "path_byte_ok b (char_of (h * 16 + l))"
      and out: "decode_path rest = Inr out" "q = char_of (h * 16 + l) # out"
      using "2.prems" by (auto simp: Let_def split: list.splits option.splits if_splits sum.splits)
    have "hi \<noteq> CHR ''/''" "lo \<noteq> CHR ''/''"
      using hl by (auto simp: hex_digit_def is_ascii_digit_def)
    moreover have "char_of (h * 16 + l) \<noteq> CHR ''/''"
      using ok True by (auto simp: path_byte_ok_def)
    moreover have "path_byte_ok (char_of (h * 16 + l)) (char_of (h * 16 + l))"
      using ok by (simp add: path_byte_ok_def)
    moreover have "list_all (\<lambda>b. path_byte_ok b b) out \<and> length out \<le> length rest
        \<and> count_list out (CHR ''/'') = count_list rest (CHR ''/'')"
      using "2.IH"(1) [OF True i refl] hl ok out True by simp
    ultimately show ?thesis using out i True by simp
  next
    case False
    then show ?thesis using "2.prems" "2.IH"(2) [OF False] by (auto split: if_splits sum.splits)
  qed
qed simp

lemma decode_path_id: "list_all (\<lambda>b. path_byte_ok b b) q \<Longrightarrow> decode_path q = Inr q"
  by (induction q) (auto dest: path_byte_refused_escape)

lemma decode_path_slash: "decode_path (CHR ''/'' # p) = Inr q \<Longrightarrow> prefix ''/'' q"
  by (auto split: if_splits sum.splits)

lemma canonical_path_Inr:
  "canonical_path p = Inr q \<longleftrightarrow>
     prefix ''/'' p \<and> length p \<le> 2048 \<and> decode_path p = Inr q
     \<and> (\<exists>cs. utf8_decode q = Some cs \<and> \<not> list_ex char_is_control cs)
     \<and> \<not> sublist ''//'' q \<and> \<not> list_ex dot_segment (split_on (CHR ''/'') q)"
  by (auto simp: canonical_path_def split: sum.splits option.splits)

lemma canonical_path_fixed: "canonical_path p = Inr q \<Longrightarrow> canonical_path q = Inr q"
proof -
  assume c: "canonical_path p = Inr q"
  then obtain p' where p: "p = CHR ''/'' # p'" by (auto simp: canonical_path_Inr prefix_def)
  have d: "decode_path p = Inr q" using c by (simp add: canonical_path_Inr)
  note ok = decode_path_ok [OF d]
  show ?thesis
    using c ok decode_path_id [of q] decode_path_slash [of p' q] d p
    unfolding canonical_path_Inr by auto
qed

section \<open>Resource policies\<close>

datatype principal_source = Basic | Jwt | Workload | External string

record allow_rule =
  subjects :: "string list"
  rule_methods :: "string list"

text \<open>
  Of the two Pumgye gates the code of this file reads only whether they are present and their
  \<^verbatim>\<open>service_id\<close>, which is the value kept here.
\<close>

record resource_policy =
  pumgye :: "string option"
  pumgye_resource :: "string option"
  resource_id :: string
  rp_enforce :: bool
  principal :: principal_source
  allow :: "allow_rule list"

text \<open>What \<^verbatim>\<open>PrincipalEvidence\<close> carries: the verified name, or the authorisation response's headers.\<close>

datatype principal_evidence =
    EvBasic string
  | EvJwt string \<comment> \<open>\<^verbatim>\<open>Verified.subject\<close>\<close>
  | EvWorkload string \<comment> \<open>\<^verbatim>\<open>Identity.uri\<close>\<close>
  | EvExternal header_map

definition has_pumgye :: "resource_policy \<Rightarrow> bool" where
  "has_pumgye p \<longleftrightarrow> pumgye p \<noteq> None \<or> pumgye_resource p \<noteq> None"

definition pumgye_service :: "resource_policy \<Rightarrow> string option" where
  "pumgye_service p = (case pumgye p of Some s \<Rightarrow> Some s | None \<Rightarrow> pumgye_resource p)"

text \<open>\<^verbatim>\<open>PrincipalSource::deserialize\<close>, from the two fields of its wire form.\<close>

definition principal_source_of_wire :: "string \<Rightarrow> string option \<Rightarrow> string + principal_source" where
  "principal_source_of_wire source subject_header =
     (case subject_header of
        None \<Rightarrow>
          if source = ''basic'' then Inr Basic
          else if source = ''jwt'' then Inr Jwt
          else if source = ''workload'' then Inr Workload
          else if source = ''external'' then Inl ''external principal needs subject_header''
          else Inl ''invalid resource principal source''
      | Some h \<Rightarrow>
          if source = ''external'' then Inr (External h)
          else if source = ''basic'' then Inl ''basic principal has no subject_header''
          else Inl ''invalid resource principal source'')"

fun is_external :: "principal_source \<Rightarrow> bool" where
  "is_external (External _) = True"
| "is_external _ = False"

definition valid_subject :: "string \<Rightarrow> principal_source \<Rightarrow> bool" where
  "valid_subject subject source \<longleftrightarrow>
     subject \<noteq> []
     \<and> length subject \<le> (if source = Workload then 2048 else 255)
     \<and> str_is_trimmed subject
     \<and> \<not> list_ex char_is_control (str_chars subject)
     \<and> (\<not> is_external source \<or> CHR '','' \<notin> set subject)"

definition valid_method :: "string \<Rightarrow> bool" where
  "valid_method m \<longleftrightarrow>
     m = ''*''
     \<or> (m \<noteq> [] \<and> length m \<le> 32
        \<and> list_all (\<lambda>b. is_ascii_upper b \<or> is_ascii_digit b \<or> b = CHR ''-'') m)"

subsection \<open>SPIFFE identities\<close>

definition spiffe_domain_byte :: "char \<Rightarrow> bool" where
  "spiffe_domain_byte b \<longleftrightarrow> is_ascii_lower b \<or> is_ascii_digit b \<or> b \<in> set ''._-''"

definition spiffe_path_byte :: "char \<Rightarrow> bool" where
  "spiffe_path_byte b \<longleftrightarrow> is_ascii_alphanumeric b \<or> b \<in> set ''._-''"

definition spiffe_segment_ok :: "string \<Rightarrow> bool" where
  "spiffe_segment_ok s \<longleftrightarrow>
     s \<noteq> [] \<and> s \<noteq> ''.'' \<and> s \<noteq> ''..'' \<and> list_all spiffe_path_byte s"

definition validate_spiffe_id :: "string \<Rightarrow> string + unit" where
  "validate_spiffe_id uri =
     (if \<not> (length uri \<le> 2048 \<and> is_ascii uri)
      then Inl ''SPIFFE URI must be ASCII and at most 2048 bytes''
      else (case strip_prefix ''spiffe://'' uri of
              None \<Rightarrow> Inl ''mTLS identity must use canonical spiffe:// scheme''
            | Some rest \<Rightarrow>
                if list_ex (\<lambda>b. b \<in> set ''?#%@:'') rest
                then Inl ''SPIFFE URI contains forbidden URI syntax''
                else
                  let domain = takeWhile (\<lambda>b. b \<noteq> CHR ''/'') rest;
                      path = drop (Suc (length domain)) rest
                  in if \<not> (domain \<noteq> [] \<and> length domain \<le> 255 \<and> list_all spiffe_domain_byte domain)
                     then Inl ''SPIFFE trust domain is invalid''
                     else if path \<noteq> [] then
                       (if list_all spiffe_segment_ok (split_on (CHR ''/'') path) then Inr ()
                        else Inl ''SPIFFE path segment is invalid'')
                     else if suffix ''/'' rest then Inl ''SPIFFE URI has a trailing slash''
                     else Inr ()))"

subsection \<open>Validation\<close>

text \<open>The fields of the route's \<^verbatim>\<open>ExternalAuth\<close> that the validation reads.\<close>

record external_auth =
  terminal_response :: bool
  ea_native :: bool \<comment> \<open>\<^verbatim>\<open>native.is_some()\<close>\<close>
  response_headers :: "string list"

definition lists_response_header :: "external_auth option \<Rightarrow> string \<Rightarrow> bool" where
  "lists_response_header ea name \<longleftrightarrow>
     (case ea of None \<Rightarrow> False
      | Some a \<Rightarrow> list_ex (\<lambda>n. eq_ignore_ascii_case n name) (response_headers a))"

definition validate_principal ::
  "http_lib \<Rightarrow> resource_policy \<Rightarrow> bool \<Rightarrow> external_auth option \<Rightarrow> bool \<Rightarrow> bool \<Rightarrow> string + unit" where
  "validate_principal L p basic_auth external jwt_auth workload_auth =
     (case principal p of
        Workload \<Rightarrow> ensure workload_auth ''resource principal workload requires workload_auth''
      | Jwt \<Rightarrow> ensure jwt_auth ''resource principal jwt requires jwt_auth''
      | Basic \<Rightarrow> ensure basic_auth ''resource principal basic requires basic_auth''
      | External subject_header \<Rightarrow>
          (if \<not> (subject_header \<noteq> [] \<and> length subject_header \<le> 128)
           then Inl ''resource subject_header must contain 1..128 bytes''
           else (case parse_header_name L subject_header of
                   None \<Rightarrow> Inl ''invalid HTTP header name''
                 | Some header \<Rightarrow>
                     ensure (lists_response_header external header)
                       ''resource external subject_header must be an auth response_header'')))"

definition check_subject :: "principal_source \<Rightarrow> string \<Rightarrow> string + unit" where
  "check_subject source subject =
     ensure (valid_subject subject source
             \<and> (source \<noteq> Workload \<or> validate_spiffe_id subject = Inr ()))
       ''invalid resource subject''"

definition validate_rule :: "principal_source \<Rightarrow> allow_rule \<Rightarrow> string + unit" where
  "validate_rule source rule =
     first_error
       [ensure (subjects rule \<noteq> [] \<and> length (subjects rule) \<le> 32) ''resource rule needs 1..32 subjects'',
        ensure (rule_methods rule \<noteq> [] \<and> length (rule_methods rule) \<le> 16)
          ''resource rule needs 1..16 methods'',
        check_distinct (check_subject source) ''duplicate resource subject'' [] (subjects rule),
        check_distinct (\<lambda>m. ensure (valid_method m) ''invalid resource method'')
          ''duplicate resource method'' [] (rule_methods rule),
        ensure (''*'' \<notin> set (rule_methods rule) \<or> card (set (rule_methods rule)) = 1)
          (''resource method '' @ quoted ''*'' @ '' must be the only method in its rule'')]"

definition rule_items :: "allow_rule \<Rightarrow> nat" where
  "rule_items rule = length (subjects rule) + length (rule_methods rule)"

definition rule_text :: "allow_rule \<Rightarrow> nat" where
  "rule_text rule = sum_list (map length (subjects rule)) + sum_list (map length (rule_methods rule))"

definition validate_binding_with_workload ::
  "http_lib \<Rightarrow> resource_policy \<Rightarrow> bool \<Rightarrow> external_auth option \<Rightarrow> bool \<Rightarrow> bool \<Rightarrow> string + unit" where
  "validate_binding_with_workload L p basic_auth external jwt_auth workload_auth =
     first_error
       [ensure (resource_id p \<noteq> [] \<and> length (resource_id p) \<le> 128
                \<and> list_all (\<lambda>b. is_ascii_alphanumeric b \<or> b \<in> set ''._-:'') (resource_id p))
          ''resource_id must contain 1..128 ASCII ID characters'',
        ensure (case external of None \<Rightarrow> True | Some a \<Rightarrow> \<not> terminal_response a)
          ''resource policy cannot use external auth terminal_response'',
        ensure (pumgye p = None \<or> pumgye_resource p = None) ''choose one Pumgye gate'',
        (if has_pumgye p then
           first_error
             [ensure ((case external of None \<Rightarrow> False | Some a \<Rightarrow> ea_native a)
                      \<and> lists_response_header external ''x-hopae-aal'')
                ''Pumgye requires native Hopae assurance evidence'',
              ensure (allow p = []) ''Pumgye cannot combine legacy allow rules'',
              ensure (principal p = External ''x-forwarded-user'')
                ''Pumgye requires trusted Hopae subject'']
         else Inr ()),
        validate_principal L p basic_auth external jwt_auth workload_auth,
        ensure (length (allow p) \<le> 32) ''too many resource allow rules'',
        try_all (validate_rule (principal p)) (allow p),
        ensure (sum_list (map rule_items (allow p)) \<le> 512
                \<and> length (resource_id p) + sum_list (map rule_text (allow p)) \<le> 32 * 1024)
          ''resource policy exceeds bounded item or text limits'']"

subsection \<open>The decision\<close>

definition evidence_subject ::
  "http_lib \<Rightarrow> principal_source \<Rightarrow> principal_evidence \<Rightarrow> string option" where
  "evidence_subject L source evidence =
     (case (source, evidence) of
        (Jwt, EvJwt s) \<Rightarrow> Some s
      | (Basic, EvBasic s) \<Rightarrow> Some s
      | (Workload, EvWorkload uri) \<Rightarrow> Some uri
      | (External subject_header, EvExternal headers) \<Rightarrow>
          (case parse_header_name L subject_header of
             None \<Rightarrow> None
           | Some header \<Rightarrow>
               (case hm_values headers header of
                  [first] \<Rightarrow> if utf8_decode first \<noteq> None then Some first else None
                | _ \<Rightarrow> None))
      | _ \<Rightarrow> None)"

definition allows :: "http_lib \<Rightarrow> resource_policy \<Rightarrow> string \<Rightarrow> principal_evidence \<Rightarrow> bool" where
  "allows L p m evidence =
     (case evidence_subject L (principal p) evidence of
        None \<Rightarrow> False
      | Some subject \<Rightarrow>
          if \<not> valid_subject subject (principal p) \<or> \<not> valid_method m then False
          else list_ex
                 (\<lambda>rule. list_ex (\<lambda>allowed. allowed = subject) (subjects rule)
                         \<and> list_ex (\<lambda>allowed. allowed = ''*'' \<or> allowed = m) (rule_methods rule))
                 (allow p))"

section \<open>Properties\<close>

text \<open>
  C9. A path that \<^verbatim>\<open>canonical_path\<close> accepts is a fixed point of it: decoding an accepted path
  again changes nothing, so a backend that decodes once more sees the same path. The result
  starts with a slash, has exactly the separators of the raw path (no escape adds one), no
  repeated separator, no dot segment and is no longer than the raw path.
\<close>

theorem canonical_path_canonical:
  assumes "canonical_path path = Inr out"
  shows "canonical_path out = Inr out
    \<and> prefix ''/'' out
    \<and> count_list out (CHR ''/'') = count_list path (CHR ''/'')
    \<and> \<not> sublist ''//'' out
    \<and> list_all (\<lambda>s. s \<noteq> ''.'' \<and> s \<noteq> ''..'') (split_on (CHR ''/'') out)
    \<and> length out \<le> length path"
proof -
  have "canonical_path out = Inr out" using assms by (rule canonical_path_fixed)
  moreover have "decode_path path = Inr out" using assms by (simp add: canonical_path_Inr)
  ultimately show ?thesis
    using decode_path_ok by (auto simp: canonical_path_Inr list_ex_iff list_all_iff dot_segment_def)
qed

theorem canonical_path_canonical_witness:
  "canonical_path ''/pr%69vate/a'' = Inr ''/private/a'' \<and> canonical_path ''/private/a'' = Inr ''/private/a''"
proof -
  have c: "canonical_path ''/pr%69vate/a'' = Inr ''/private/a''" by code_simp
  show ?thesis using c canonical_path_canonical [OF c] by simp
qed

lemma validate_rule_methods:
  assumes "validate_rule source rule = Inr ()" and "''*'' \<in> set (rule_methods rule)"
  shows "rule_methods rule = [''*'']"
proof -
  have d: "distinct (rule_methods rule)" and "card (set (rule_methods rule)) = 1"
    using assms by (auto simp: validate_rule_def check_distinct_Inr)
  then have "length (rule_methods rule) = 1" using distinct_card by metis
  then show ?thesis using assms(2) by (cases "rule_methods rule") auto
qed

text \<open>
  C24. With a policy that passed validation, access is granted only to the one subject the
  configured authenticator established, listed verbatim in an allow rule that names the
  method or consists of the single method \<open>*\<close>; never under a Pumgye gate; an external subject
  holds no comma (so it is not a merged list) and a workload subject is a SPIFFE identity.
\<close>

theorem allows_only_validated_grants:
  assumes valid: "validate_binding_with_workload L p basic_auth external jwt_auth workload_auth = Inr ()"
    and granted: "allows L p m evidence"
  shows "\<exists>subject rule. evidence_subject L (principal p) evidence = Some subject
    \<and> rule \<in> set (allow p) \<and> subject \<in> set (subjects rule)
    \<and> (rule_methods rule = [''*''] \<or> m \<in> set (rule_methods rule))
    \<and> \<not> has_pumgye p
    \<and> (is_external (principal p) \<longrightarrow> CHR '','' \<notin> set subject)
    \<and> (principal p = Workload \<longrightarrow> validate_spiffe_id subject = Inr ())"
proof -
  obtain subject rule where s: "evidence_subject L (principal p) evidence = Some subject"
    and vs: "valid_subject subject (principal p)"
    and r: "rule \<in> set (allow p)" "subject \<in> set (subjects rule)"
    and m: "''*'' \<in> set (rule_methods rule) \<or> m \<in> set (rule_methods rule)"
    using granted by (auto simp: allows_def list_ex_iff split: option.splits if_splits)
  have vr: "validate_rule (principal p) rule = Inr ()"
    using valid r(1) by (auto simp: validate_binding_with_workload_def try_all_Inr)
  then have "check_subject (principal p) subject = Inr ()"
    using r(2) by (auto simp: validate_rule_def check_distinct_Inr)
  moreover have "\<not> has_pumgye p"
    using valid r(1) by (auto simp: validate_binding_with_workload_def)
  ultimately show ?thesis
    using s vs r m validate_rule_methods [OF vr] by (auto simp: check_subject_def valid_subject_def)
qed

definition demo_policy :: resource_policy where
  "demo_policy = \<lparr>pumgye = None, pumgye_resource = None, resource_id = ''records'', rp_enforce = True,
     principal = External ''X-User'',
     allow = [\<lparr>subjects = [''alice''], rule_methods = [''GET'']\<rparr>]\<rparr>"

theorem allows_only_validated_grants_witness:
  "\<exists>subject rule.
     evidence_subject plain_http (principal demo_policy)
       (EvExternal \<lparr>hm_keys = [''x-user''], hm_values = (\<lambda>n. if n = ''x-user'' then [''alice''] else [])\<rparr>)
       = Some subject
     \<and> rule \<in> set (allow demo_policy) \<and> subject \<in> set (subjects rule)
     \<and> (rule_methods rule = [''*''] \<or> ''GET'' \<in> set (rule_methods rule))"
proof -
  let ?e = "EvExternal \<lparr>hm_keys = [''x-user''], hm_values = (\<lambda>n. if n = ''x-user'' then [''alice''] else [])\<rparr>"
  have v: "validate_binding_with_workload plain_http demo_policy False
      (Some \<lparr>terminal_response = False, ea_native = False, response_headers = [''x-user'']\<rparr>) False False = Inr ()"
    by code_simp
  have a: "allows plain_http demo_policy ''GET'' ?e" by code_simp
  show ?thesis using allows_only_validated_grants [OF v a] by blast
qed

end
