(* ===== verification/PathBlocks.thy ===== *)
theory PathBlocks
  imports ResourcePolicy
begin

text \<open>
  \<^verbatim>\<open>src/path_blocks.rs\<close>: deny rules on a host and a path, checked before routing, and the
  selector the other path policies (allow lists, rate limits, failure bans) share.
\<close>

record block_rule =
  block_path :: string
  block_hosts :: "string list"

section \<open>The code\<close>

definition validate_block_rule :: "block_rule \<Rightarrow> string + unit" where
  "validate_block_rule rule =
     first_error
       [(case canonical_path (block_path rule) of
           Inl e \<Rightarrow> Inl e
         | Inr p \<Rightarrow> ensure (p = block_path rule)
                    ''blocked path must be canonical, without percent escapes''),
        ensure (block_path rule = ''/'' \<or> \<not> suffix ''/'' (block_path rule))
          ''blocked path must not end in / (except root)'',
        ensure (length (block_hosts rule) \<le> 16) ''blocked path allows at most 16 hosts'',
        try_all validate_pattern (block_hosts rule)]"

definition block_rule_text :: "block_rule \<Rightarrow> nat" where
  "block_rule_text rule = length (block_path rule) + sum_list (map length (block_hosts rule))"

definition validate_path_blocks :: "block_rule list \<Rightarrow> string + unit" where
  "validate_path_blocks rules =
     first_error
       [ensure (length rules \<le> 128) ''settings.path_blocks allows at most 128 rules'',
        try_all validate_block_rule rules,
        ensure (sum_list (map block_rule_text rules) \<le> 32 * 1024) ''settings.path_blocks exceeds 32 KiB'']"

text \<open>
  The host names a request may be meant for: its \<^verbatim>\<open>Host\<close>, a trusted forwarded host and the
  authority of an absolute target, in this order and without the missing ones.
\<close>

definition host_candidates :: "http_lib \<Rightarrow> request \<Rightarrow> string option \<Rightarrow> string list" where
  "host_candidates L r forwarded_host =
     List.map_filter id
       [request_host L r,
        Option.bind forwarded_host (parse_authority_host L),
        map_option snd (uri_authority r)]"

definition scope_host_matches :: "http_lib \<Rightarrow> block_rule \<Rightarrow> request \<Rightarrow> string option \<Rightarrow> bool" where
  "scope_host_matches L scope r forwarded_host \<longleftrightarrow>
     block_hosts scope = []
     \<or> list_ex (\<lambda>pattern. list_ex (\<lambda>host. host_matches_pattern pattern (trim_end_matches (CHR ''.'') host))
                              (host_candidates L r forwarded_host))
         (block_hosts scope)"

text \<open>\<^verbatim>\<open>path.strip_prefix(p).is_some_and(|tail| tail.starts_with('/'))\<close>\<close>

definition below :: "string \<Rightarrow> string \<Rightarrow> bool" where
  "below p path \<longleftrightarrow> (case strip_prefix p path of None \<Rightarrow> False | Some tail \<Rightarrow> prefix ''/'' tail)"

definition path_blocks_check ::
  "http_lib \<Rightarrow> block_rule list \<Rightarrow> request \<Rightarrow> string option \<Rightarrow> nat + unit" where
  "path_blocks_check L rules r forwarded_host =
     (if rules = [] then Inr ()
      else if \<not> list_ex (\<lambda>rule. scope_host_matches L rule r forwarded_host) rules then Inr ()
      else (case canonical_path (uri_path r) of
              Inl _ \<Rightarrow> Inl 400
            | Inr path \<Rightarrow>
                if list_ex (\<lambda>rule. block_path rule = ''/'' \<or> path = block_path rule \<or> below (block_path rule) path)
                     (filter (\<lambda>rule. scope_host_matches L rule r forwarded_host) rules)
                then Inl 404 else Inr ()))"

definition selector_matches ::
  "http_lib \<Rightarrow> block_rule \<Rightarrow> request \<Rightarrow> string option \<Rightarrow> bool \<Rightarrow> nat + bool" where
  "selector_matches L scope r forwarded_host include_subpaths =
     (if \<not> scope_host_matches L scope r forwarded_host then Inr False
      else (case canonical_path (uri_path r) of
              Inl _ \<Rightarrow> Inl 400
            | Inr path \<Rightarrow>
                Inr (path = block_path scope
                     \<or> (block_path scope \<noteq> ''/'' \<and> strip_suffix ''/'' path = Some (block_path scope))
                     \<or> (include_subpaths \<and> (block_path scope = ''/'' \<or> below (block_path scope) path)))))"

section \<open>Reference: paths as lists of segments\<close>

definition path_segments :: "string \<Rightarrow> string list" where
  "path_segments p = (if p = ''/'' then [] else tl (split_on (CHR ''/'') p))"

lemma below_iff: "below p path \<longleftrightarrow> prefix (p @ ''/'') path"
  by (auto simp: below_def strip_prefix_def prefix_def split: option.splits)

lemma split_on_rooted: "prefix ''/'' p \<Longrightarrow> split_on (CHR ''/'') p = [] # tl (split_on (CHR ''/'') p)"
  by (auto simp: prefix_def)

lemma at_or_below_segments:
  assumes "prefix ''/'' p" and "prefix ''/'' path" and "p \<noteq> ''/''"
  shows "path = p \<or> below p path \<longleftrightarrow> prefix (path_segments p) (tl (split_on (CHR ''/'') path))"
proof -
  have "path = p \<or> below p path \<longleftrightarrow> prefix (split_on (CHR ''/'') p) (split_on (CHR ''/'') path)"
    by (simp add: below_iff prefix_split_on)
  also have "\<dots> \<longleftrightarrow> prefix (tl (split_on (CHR ''/'') p)) (tl (split_on (CHR ''/'') path))"
    by (subst split_on_rooted [OF assms(1)], subst split_on_rooted [OF assms(2)]) simp
  finally show ?thesis using assms(3) by (simp add: path_segments_def)
qed

lemma canonical_path_rooted: "canonical_path p = Inr q \<Longrightarrow> prefix ''/'' q"
  using canonical_path_fixed [of p q] by (simp add: canonical_path_Inr)

lemma validated_block_rule:
  assumes "validate_path_blocks rules = Inr ()" and "rule \<in> set rules"
  shows "prefix ''/'' (block_path rule)"
    and "canonical_path (block_path rule) = Inr (block_path rule)"
    and "block_path rule = ''/'' \<or> \<not> suffix ''/'' (block_path rule)"
proof -
  have "validate_block_rule rule = Inr ()"
    using assms by (auto simp: validate_path_blocks_def try_all_Inr)
  then show c: "canonical_path (block_path rule) = Inr (block_path rule)"
    and "block_path rule = ''/'' \<or> \<not> suffix ''/'' (block_path rule)"
    by (auto simp: validate_block_rule_def split: sum.splits)
  show "prefix ''/'' (block_path rule)" using c by (rule canonical_path_rooted)
qed

lemma root_segments [simp]: "path_segments ''/'' = []"
  by (simp add: path_segments_def)

lemma blocked_segments:
  assumes "prefix ''/'' p" and "prefix ''/'' path"
  shows "p = ''/'' \<or> path = p \<or> below p path \<longleftrightarrow> prefix (path_segments p) (tl (split_on (CHR ''/'') path))"
  using at_or_below_segments [OF assms] by (cases "p = ''/''") auto

section \<open>Properties\<close>

text \<open>
  With validated rules, a request in the host scope of some rule is refused with 400 when
  its path has no canonical form and with 404 exactly when the segments of a scoped rule's
  path are a prefix of its segments; every other request passes. A rule on \<^verbatim>\<open>/admin\<close> thus
  covers \<^verbatim>\<open>/admin\<close>, \<^verbatim>\<open>/admin/\<close> and \<^verbatim>\<open>/%61dmin/x\<close> but not \<^verbatim>\<open>/administrator\<close>.
\<close>

theorem path_blocks_check_spec:
  assumes "validate_path_blocks rules = Inr ()"
  shows "path_blocks_check L rules r fh =
    (if \<exists>rule\<in>set rules. scope_host_matches L rule r fh then
       (case canonical_path (uri_path r) of
          Inl _ \<Rightarrow> Inl 400
        | Inr path \<Rightarrow>
            if \<exists>rule\<in>set rules. scope_host_matches L rule r fh
                 \<and> prefix (path_segments (block_path rule)) (tl (split_on (CHR ''/'') path))
            then Inl 404 else Inr ())
     else Inr ())"
proof (cases "canonical_path (uri_path r)")
  case (Inr path)
  have "(block_path rule = ''/'' \<or> path = block_path rule \<or> below (block_path rule) path)
      = prefix (path_segments (block_path rule)) (tl (split_on (CHR ''/'') path))"
    if "rule \<in> set rules" for rule
    using blocked_segments validated_block_rule(1) [OF assms that] canonical_path_rooted [OF Inr] by blast
  then show ?thesis using Inr by (auto simp: path_blocks_check_def list_ex_iff)
qed (auto simp: path_blocks_check_def list_ex_iff)

definition demo_request :: "string \<Rightarrow> request" where
  "demo_request path =
     \<lparr>req_method = ''GET'', uri_path = path, uri_scheme = None, uri_authority = None,
      uri_path_and_query = Some path,
      req_headers = \<lparr>hm_keys = [''host''], hm_values = (\<lambda>n. if n = ''host'' then [''app.example.com''] else [])\<rparr>\<rparr>"

definition demo_blocks :: "block_rule list" where
  "demo_blocks = [\<lparr>block_path = ''/admin'', block_hosts = [''*.example.com'']\<rparr>]"

theorem path_blocks_check_spec_witness:
  "path_blocks_check plain_http demo_blocks (demo_request ''/%61dmin/x'') None = Inl 404
   \<and> path_blocks_check plain_http demo_blocks (demo_request ''/administrator'') None = Inr ()
   \<and> path_blocks_check plain_http demo_blocks (demo_request ''/admin/../x'') None = Inl 400"
proof -
  have v: "validate_path_blocks demo_blocks = Inr ()" by code_simp
  show ?thesis unfolding path_blocks_check_spec [OF v] by code_simp
qed

text \<open>
  The selector of the path policies: for a validated scope that matches the request's host
  and a request with a canonical path, it selects exactly the scope's path with or without a
  trailing slash, and with \<^verbatim>\<open>include_subpaths\<close> every path whose segments extend the scope's.
\<close>

theorem selector_matches_spec:
  assumes "validate_path_blocks rules = Inr ()" and "scope \<in> set rules"
    and "scope_host_matches L scope r fh" and "canonical_path (uri_path r) = Inr path"
  shows "selector_matches L scope r fh subpaths =
    Inr (if subpaths then prefix (path_segments (block_path scope)) (tl (split_on (CHR ''/'') path))
         else path = block_path scope \<or> (block_path scope \<noteq> ''/'' \<and> path = block_path scope @ ''/''))"
proof -
  have tail: "strip_suffix ''/'' path = Some p \<longleftrightarrow> path = p @ ''/''" for p
    by (auto simp: strip_suffix_def suffix_def)
  have "path = p @ ''/'' \<Longrightarrow> below p path" for p by (simp add: below_iff)
  then show ?thesis
    using blocked_segments [OF validated_block_rule(1) [OF assms(1,2)] canonical_path_rooted [OF assms(4)]]
      assms(3,4) by (auto simp: selector_matches_def tail)
qed

theorem selector_matches_spec_witness:
  "selector_matches plain_http (hd demo_blocks) (demo_request ''/admin/'') None False = Inr True
   \<and> selector_matches plain_http (hd demo_blocks) (demo_request ''/admin/a'') None False = Inr False
   \<and> selector_matches plain_http (hd demo_blocks) (demo_request ''/admin/a'') None True = Inr True"
proof -
  have v: "validate_path_blocks demo_blocks = Inr ()" "hd demo_blocks \<in> set demo_blocks"
    "scope_host_matches plain_http (hd demo_blocks) (demo_request ''/admin/'') None"
    "scope_host_matches plain_http (hd demo_blocks) (demo_request ''/admin/a'') None"
    "canonical_path (uri_path (demo_request ''/admin/'')) = Inr ''/admin/''"
    "canonical_path (uri_path (demo_request ''/admin/a'')) = Inr ''/admin/a''"
    by code_simp+
  show ?thesis
    unfolding selector_matches_spec [OF v(1,2,3,5)] selector_matches_spec [OF v(1,2,4,6)] by code_simp
qed

end
