(* ===== verification/Buckets.thy ===== *)
theory Buckets
  imports PathBlocks
begin

text \<open>
  What the rate limits and the failure bans share: rules are compiled into shared buckets, and
  a configuration reload keeps the bucket (and so its counters and bans) of every rule that
  did not change. An \<^verbatim>\<open>Arc<Bucket>\<close> is an address into the list of all buckets.
\<close>

text \<open>
  \<^verbatim>\<open>prepare\<close> of \<^verbatim>\<open>src/path_rate_limits.rs\<close> and of \<^verbatim>\<open>src/path_failure_bans.rs\<close>, which differ
  only in the bucket type: for each rule the first previous bucket with an equal rule, or a
  new one.
\<close>

fun prepare_buckets :: "('b \<Rightarrow> 'r) \<Rightarrow> ('r \<Rightarrow> 'b) \<Rightarrow> nat list \<Rightarrow> 'r list \<Rightarrow> 'b list \<Rightarrow> nat list \<times> 'b list" where
  "prepare_buckets rule_of new_bucket previous [] heap = ([], heap)"
| "prepare_buckets rule_of new_bucket previous (rule # rules) heap =
     (case find (\<lambda>a. rule_of (heap ! a) = rule) previous of
        Some a \<Rightarrow>
          (case prepare_buckets rule_of new_bucket previous rules heap of (as, heap') \<Rightarrow> (a # as, heap'))
      | None \<Rightarrow>
          (case prepare_buckets rule_of new_bucket previous rules (heap @ [new_bucket rule]) of
             (as, heap') \<Rightarrow> (length heap # as, heap')))"

text \<open>The interface a bucket type has to meet.\<close>

locale bucket_family =
  fixes rule_of :: "'b \<Rightarrow> 'r" and new_bucket :: "'r \<Rightarrow> 'b"
  assumes rule_of_new: "rule_of (new_bucket r) = r"
begin

definition valid_addrs :: "nat list \<Rightarrow> 'b list \<Rightarrow> bool" where
  "valid_addrs as heap \<longleftrightarrow> (\<forall>a\<in>set as. a < length heap)"

lemma prepare_extends:
  "prepare_buckets rule_of new_bucket previous rules heap = (as, heap') \<Longrightarrow> \<exists>ext. heap' = heap @ ext"
  by (induction rules arbitrary: heap as) (fastforce split: option.splits prod.splits)+

lemma prepare_spec:
  assumes "prepare_buckets rule_of new_bucket previous rules heap = (as, heap')"
    and "valid_addrs previous heap"
  shows "valid_addrs as heap' \<and> map (\<lambda>a. rule_of (heap' ! a)) as = rules
    \<and> (\<forall>a\<in>set as. a \<in> set previous \<or> length heap \<le> a)"
  using assms
proof (induction rules arbitrary: heap as)
  case (Cons rule rules)
  {
    fix a as1 h
    assume rest: "prepare_buckets rule_of new_bucket previous rules h = (as1, heap')"
      and h: "\<exists>ext. h = heap @ ext" and a: "a < length h" "rule_of (h ! a) = rule"
        "a \<in> set previous \<or> length heap \<le> a"
    have v: "valid_addrs previous h" using h Cons.prems(2) by (auto simp: valid_addrs_def)
    obtain ext where e: "heap' = h @ ext" using prepare_extends [OF rest] by blast
    have "valid_addrs (a # as1) heap' \<and> map (\<lambda>a. rule_of (heap' ! a)) (a # as1) = rule # rules
      \<and> (\<forall>a\<in>set (a # as1). a \<in> set previous \<or> length heap \<le> a)"
      using Cons.IH [OF rest v] a e h by (auto simp: valid_addrs_def nth_append)
  }
  note step = this
  show ?case
  proof -
    have "\<exists>a as1 h. as = a # as1 \<and> prepare_buckets rule_of new_bucket previous rules h = (as1, heap')
        \<and> (\<exists>ext. h = heap @ ext) \<and> a < length h \<and> rule_of (h ! a) = rule
        \<and> (a \<in> set previous \<or> length heap \<le> a)"
    proof (cases "find (\<lambda>a. rule_of (heap ! a) = rule) previous")
      case None
      then show ?thesis using Cons.prems(1)
        by (intro exI [of _ "length heap"] exI [of _ "tl as"] exI [of _ "heap @ [new_bucket rule]"])
          (auto simp: rule_of_new split: prod.splits)
    next
      case (Some a)
      then have "a \<in> set previous" "rule_of (heap ! a) = rule" by (auto simp: find_Some_iff)
      then show ?thesis using Cons.prems Some
        by (intro exI [of _ a] exI [of _ "tl as"] exI [of _ heap])
          (auto simp: valid_addrs_def split: prod.splits)
    qed
    then show ?thesis using step by blast
  qed
qed (auto simp: valid_addrs_def)

text \<open>A rule of the previous generation keeps its bucket, with everything it has counted.\<close>

lemma prepare_reuses:
  assumes "prepare_buckets rule_of new_bucket previous rules heap = (as, heap')"
    and "valid_addrs previous heap" and "i < length rules"
    and "\<exists>p\<in>set previous. rule_of (heap ! p) = rules ! i"
  shows "as ! i \<in> set previous \<and> heap' ! (as ! i) = heap ! (as ! i) \<and> rule_of (heap ! (as ! i)) = rules ! i"
  using assms
proof (induction rules arbitrary: heap as i)
  case (Cons rule rules)
  have first: "as ! 0 \<in> set previous \<and> heap' ! (as ! 0) = heap ! (as ! 0) \<and> rule_of (heap ! (as ! 0)) = rule"
    if i: "i = 0"
  proof -
    obtain a where a: "find (\<lambda>a. rule_of (heap ! a) = rule) previous = Some a"
      using Cons.prems(4) i by (cases "find (\<lambda>a. rule_of (heap ! a) = rule) previous") (auto simp: find_None_iff)
    then have "as ! 0 = a" using Cons.prems(1) by (auto split: prod.splits)
    moreover have "a \<in> set previous" "rule_of (heap ! a) = rule" using a by (auto simp: find_Some_iff)
    moreover have "heap' ! a = heap ! a"
      using prepare_extends [OF Cons.prems(1)] Cons.prems(2) \<open>a \<in> set previous\<close>
      by (auto simp: valid_addrs_def nth_append)
    ultimately show ?thesis by simp
  qed
  show ?case
  proof (cases i)
    case (Suc j)
    obtain as1 h where h: "prepare_buckets rule_of new_bucket previous rules h = (as1, heap')" "as ! i = as1 ! j"
      "\<exists>ext. h = heap @ ext"
      using Cons.prems(1) Suc by (auto split: option.splits prod.splits)
    have same: "p \<in> set previous \<Longrightarrow> h ! p = heap ! p" for p
      using h(3) Cons.prems(2) by (auto simp: valid_addrs_def nth_append)
    have "valid_addrs previous h" using h(3) Cons.prems(2) by (auto simp: valid_addrs_def)
    moreover have "\<exists>p\<in>set previous. rule_of (h ! p) = rules ! j" using Cons.prems(4) same Suc by auto
    ultimately have "as1 ! j \<in> set previous \<and> heap' ! (as1 ! j) = h ! (as1 ! j) \<and> rule_of (h ! (as1 ! j)) = rules ! j"
      using Cons.IH [OF h(1), of j] Cons.prems(3) Suc by simp
    then show ?thesis using same [of "as1 ! j"] h(2) Suc by simp
  qed (use first in simp)
qed simp

end

end
