(* ===== verification/PathRateLimits.thy ===== *)
theory PathRateLimits
  imports Buckets
begin

text \<open>
  \<^verbatim>\<open>src/path_rate_limits.rs\<close>: token buckets and fixed windows per URL, shared by all clients.
  Credit is counted in nanoseconds of the configured rate; the products the code forms stay
  below \<open>2 ^ 64\<close> and \<open>2 ^ 128\<close> for every \<^verbatim>\<open>u32\<close> rate and burst, so they are \<^typ>\<open>nat\<close>.
\<close>

record window_limit =
  requests :: nat
  window_seconds :: nat

record rate_rule =
  rr_path :: string
  rr_include_subpaths :: bool
  rr_hosts :: "string list"
  tps :: "nat option"
  burst :: nat
  limits :: "window_limit list"

definition rate_selector :: "rate_rule \<Rightarrow> block_rule" where
  "rate_selector rule = \<lparr>block_path = rr_path rule, block_hosts = rr_hosts rule\<rparr>"

definition validate_rate_rule :: "rate_rule list \<Rightarrow> rate_rule \<Rightarrow> string + rate_rule list" where
  "validate_rate_rule before rule =
     res_bind
       (first_error
          [ensure (rule \<notin> set before) ''duplicate path rate rule'',
           ensure (case tps rule of None \<Rightarrow> True | Some t \<Rightarrow> 1 \<le> t \<and> t \<le> 1000000)
             ''path rate tps must be 1..1000000'',
           ensure (1 \<le> burst rule \<and> burst rule \<le> 1000000) ''path rate burst must be 1..1000000'',
           ensure (tps rule \<noteq> None \<or> limits rule \<noteq> []) ''rate rule needs tps or limits'',
           ensure (length (limits rule) \<le> 8) ''rate rule allows at most 8 windows'',
           try_all
             (\<lambda>w. ensure (1 \<le> requests w \<and> requests w \<le> 1000000
                          \<and> 1 \<le> window_seconds w \<and> window_seconds w \<le> 86400)
                    ''rate window requests must be 1..1000000 and seconds 1..86400'')
             (limits rule)])
       (\<lambda>_. Inr (before @ [rule]))"

definition validate_rate_limits :: "rate_rule list \<Rightarrow> string + unit" where
  "validate_rate_limits rules =
     first_error
       [ensure (length rules \<le> 128) ''settings.path_rate_limits allows at most 128 rules'',
        validate_path_blocks (map rate_selector rules),
        res_bind (try_fold validate_rate_rule [] rules) (\<lambda>_. Inr ())]"

record rate_bucket =
  rb_rule :: rate_rule
  rb_updated :: instant
  credit :: nat
  windows :: "(instant \<times> nat) list"

definition new_rate_bucket :: "instant \<Rightarrow> rate_rule \<Rightarrow> rate_bucket" where
  "new_rate_bucket now rule =
     \<lparr>rb_rule = rule, rb_updated = now, credit = burst rule * NANOS,
      windows = map (\<lambda>_. (now, 0)) (limits rule)\<rparr>"

subsection \<open>Bucket::admit\<close>

definition refill :: "rate_bucket \<Rightarrow> instant \<Rightarrow> rate_bucket" where
  "refill b now =
     (let earned = (now - rb_updated b) * (case tps (rb_rule b) of None \<Rightarrow> 0 | Some t \<Rightarrow> t);
          capacity = burst (rb_rule b) * NANOS
      in b\<lparr>credit := min (credit b + earned) capacity, rb_updated := max now (rb_updated b)\<rparr>)"

fun roll_window :: "instant \<Rightarrow> window_limit \<Rightarrow> instant \<times> nat \<Rightarrow> instant \<times> nat" where
  "roll_window now limit (started, used) =
     (if (now - started) div NANOS \<ge> window_seconds limit then (max now started, 0) else (started, used))"

definition roll_windows :: "rate_bucket \<Rightarrow> instant \<Rightarrow> rate_bucket" where
  "roll_windows b now = b\<lparr>windows := map2 (roll_window now) (limits (rb_rule b)) (windows b)\<rparr>"

definition exhausted :: "rate_bucket \<Rightarrow> bool" where
  "exhausted b \<longleftrightarrow>
     (tps (rb_rule b) \<noteq> None \<and> credit b < NANOS)
     \<or> list_ex (\<lambda>(limit, (_, used)). used \<ge> requests limit) (zip (limits (rb_rule b)) (windows b))"

definition consume :: "rate_bucket \<Rightarrow> rate_bucket" where
  "consume b =
     (let b' = (if tps (rb_rule b) \<noteq> None then b\<lparr>credit := credit b - NANOS\<rparr> else b)
      in b'\<lparr>windows := map (\<lambda>(started, used). (started, used + 1)) (windows b')\<rparr>)"

definition admit :: "rate_bucket \<Rightarrow> instant \<Rightarrow> bool \<times> rate_bucket" where
  "admit b now =
     (let b1 = roll_windows (refill b now) now
      in if exhausted b1 then (False, b1) else (True, consume b1))"

subsection \<open>check\<close>

definition rate_path_matches :: "rate_rule \<Rightarrow> string \<Rightarrow> bool" where
  "rate_path_matches rule path \<longleftrightarrow>
     path = rr_path rule
     \<or> (rr_path rule \<noteq> ''/'' \<and> strip_suffix ''/'' path = Some (rr_path rule))
     \<or> (rr_include_subpaths rule \<and> (rr_path rule = ''/'' \<or> below (rr_path rule) path))"

fun rate_loop :: "string \<Rightarrow> instant \<Rightarrow> nat list \<Rightarrow> rate_bucket list \<Rightarrow> (nat + unit) \<times> rate_bucket list" where
  "rate_loop path now [] heap = (Inr (), heap)"
| "rate_loop path now (a # as) heap =
     (if rate_path_matches (rb_rule (heap ! a)) path then
        (case admit (heap ! a) now of
           (False, b) \<Rightarrow> (Inl 429, heap[a := b])
         | (True, b) \<Rightarrow> rate_loop path now as (heap[a := b]))
      else rate_loop path now as heap)"

definition rate_check ::
  "http_lib \<Rightarrow> nat list \<Rightarrow> request \<Rightarrow> string option \<Rightarrow> instant \<Rightarrow> rate_bucket list
   \<Rightarrow> (nat + unit) \<times> rate_bucket list" where
  "rate_check L buckets r forwarded_host now heap =
     (let scoped = (\<lambda>a. scope_host_matches L (rate_selector (rb_rule (heap ! a))) r forwarded_host)
      in if buckets = [] then (Inr (), heap)
         else if \<not> list_ex scoped buckets then (Inr (), heap)
         else (case canonical_path (uri_path r) of
                 Inl _ \<Rightarrow> (Inl 400, heap)
               | Inr path \<Rightarrow> rate_loop path now (filter scoped buckets) heap))"

definition prepare_rate_limits ::
  "instant \<Rightarrow> rate_rule list \<Rightarrow> nat list \<Rightarrow> rate_bucket list \<Rightarrow> nat list \<times> rate_bucket list" where
  "prepare_rate_limits now rules previous heap =
     prepare_buckets rb_rule (new_rate_bucket now) previous rules heap"

interpretation rate_family: bucket_family rb_rule "new_rate_bucket now" for now
  by unfold_locales (simp add: new_rate_bucket_def)

section \<open>Invariant\<close>

definition rate_inv :: "rate_bucket \<Rightarrow> bool" where
  "rate_inv b \<longleftrightarrow>
     credit b \<le> burst (rb_rule b) * NANOS
     \<and> list_all2 (\<lambda>limit (_, used). used \<le> requests limit) (limits (rb_rule b)) (windows b)"

lemma new_rate_bucket_inv: "rate_inv (new_rate_bucket now rule)"
  by (simp add: rate_inv_def new_rate_bucket_def list_all2_conv_all_nth)

lemma roll_window_used: "snd (roll_window now limit w) \<le> snd w"
  by (cases w) simp

lemma rate_inv_roll: "rate_inv b \<Longrightarrow> rate_inv (roll_windows (refill b now) now)"
proof -
  assume i: "rate_inv b"
  have "snd (map2 (roll_window now) (limits (rb_rule b)) (windows b) ! k) \<le> requests (limits (rb_rule b) ! k)"
    if "k < length (limits (rb_rule b))" for k
  proof -
    have "snd (windows b ! k) \<le> requests (limits (rb_rule b) ! k)" "k < length (windows b)"
      using i that by (auto simp: rate_inv_def list_all2_conv_all_nth case_prod_unfold)
    then show ?thesis using that roll_window_used [of now "limits (rb_rule b) ! k" "windows b ! k"] by simp
  qed
  then show ?thesis using i
    by (auto simp: rate_inv_def refill_def roll_windows_def Let_def list_all2_conv_all_nth case_prod_unfold)
qed

lemma rate_inv_consume: "rate_inv b \<Longrightarrow> \<not> exhausted b \<Longrightarrow> rate_inv (consume b)"
  by (auto simp: rate_inv_def consume_def exhausted_def Let_def list_all2_conv_all_nth list_ex_length
      case_prod_unfold not_le Suc_le_eq)

lemma admit_inv: "rate_inv b \<Longrightarrow> rate_inv (snd (admit b now))"
  by (simp add: admit_def Let_def rate_inv_roll rate_inv_consume)

lemma admit_rule [simp]: "rb_rule (snd (admit b now)) = rb_rule b"
  by (simp add: admit_def Let_def roll_windows_def refill_def consume_def)

section \<open>Runs of a bucket\<close>

text \<open>The number of requests admitted at the given times, in the order they reach the lock.\<close>

fun admits :: "rate_bucket \<Rightarrow> instant list \<Rightarrow> nat \<times> rate_bucket" where
  "admits b [] = (0, b)"
| "admits b (t # ts) =
     (case admit b t of (ok, b1) \<Rightarrow> (case admits b1 ts of (n, b2) \<Rightarrow> (if ok then n + 1 else n, b2)))"

lemma admit_credit:
  assumes "admit b now = (ok, b')" and "tps (rb_rule b) = Some t"
  shows "(if ok then NANOS else 0) + credit b' \<le> credit b + t * (rb_updated b' - rb_updated b)"
    and "rb_updated b' = max now (rb_updated b)" and "rb_rule b' = rb_rule b"
proof -
  define c where "c = min (credit b + t * (now - rb_updated b)) (burst (rb_rule b) * NANOS)"
  have "credit b' = (if ok then c - NANOS else c)" "ok \<Longrightarrow> NANOS \<le> c"
    "rb_updated b' - rb_updated b = now - rb_updated b"
    using assms
    by (auto simp: admit_def Let_def refill_def roll_windows_def consume_def exhausted_def c_def mult.commute
        split: if_splits)
  moreover have "c \<le> credit b + t * (now - rb_updated b)" by (simp add: c_def)
  ultimately show "(if ok then NANOS else 0) + credit b' \<le> credit b + t * (rb_updated b' - rb_updated b)"
    by (cases ok) simp_all
  show "rb_updated b' = max now (rb_updated b)" "rb_rule b' = rb_rule b"
    using assms by (auto simp: admit_def Let_def refill_def roll_windows_def consume_def split: if_splits)
qed

lemma admits_credit:
  assumes "admits b ts = (n, b')" and "tps (rb_rule b) = Some t"
  shows "n * NANOS + credit b' \<le> credit b + t * (rb_updated b' - rb_updated b)
    \<and> rb_updated b \<le> rb_updated b' \<and> rb_updated b' = fold max ts (rb_updated b)"
  using assms
proof (induction ts arbitrary: b n)
  case (Cons x ts)
  obtain ok b1 where a: "admit b x = (ok, b1)" by fastforce
  obtain m where m: "admits b1 ts = (m, b')" "n = (if ok then m + 1 else m)"
    using Cons.prems(1) a by (auto split: prod.splits)
  note step = admit_credit [OF a Cons.prems(2)]
  have rest: "m * NANOS + credit b' \<le> credit b1 + t * (rb_updated b' - rb_updated b1)"
    "rb_updated b1 \<le> rb_updated b'" "rb_updated b' = fold max ts (rb_updated b1)"
    using Cons.IH [OF m(1)] step(3) Cons.prems(2) by metis+
  have "t * (rb_updated b' - rb_updated b1) + t * (rb_updated b1 - rb_updated b) = t * (rb_updated b' - rb_updated b)"
    using rest(2) step(2) by (simp flip: distrib_left)
  then show ?case using rest step m(2) by (auto split: if_splits)
qed simp

text \<open>How many more requests one window can admit before the instant \<open>t0\<close> plus its length.\<close>

definition window_room :: "window_limit \<Rightarrow> instant \<Rightarrow> instant \<times> nat \<Rightarrow> nat" where
  "window_room limit t0 w =
     (if fst w \<ge> t0 then requests limit - snd w else (requests limit - snd w) + requests limit)"

lemma roll_window_room:
  assumes "t0 \<le> now" and "now < t0 + window_seconds limit * NANOS"
  shows "window_room limit t0 (roll_window now limit w) \<le> window_room limit t0 w"
proof (cases w)
  case (Pair started used)
  have "started < t0" if "(now - started) div NANOS \<ge> window_seconds limit"
  proof -
    have "window_seconds limit * NANOS \<le> (now - started) div NANOS * NANOS"
      by (rule mult_le_mono1 [OF that])
    also have "\<dots> \<le> now - started" by simp
    finally show ?thesis using assms by linarith
  qed
  then show ?thesis using assms by (auto simp: window_room_def Pair)
qed

lemma admit_room:
  assumes "admit b now = (ok, b')" and "rate_inv b" and "k < length (limits (rb_rule b))"
    and "t0 \<le> now" and "now < t0 + window_seconds (limits (rb_rule b) ! k) * NANOS"
  shows "(if ok then 1 else 0) + window_room (limits (rb_rule b) ! k) t0 (windows b' ! k)
    \<le> window_room (limits (rb_rule b) ! k) t0 (windows b ! k)"
proof -
  let ?lim = "limits (rb_rule b) ! k"
  let ?w = "roll_window now ?lim (windows b ! k)"
  have k: "k < length (windows b)" using assms(2,3) by (auto simp: rate_inv_def list_all2_conv_all_nth)
  have room: "window_room ?lim t0 ?w \<le> window_room ?lim t0 (windows b ! k)"
    using assms(4,5) by (rule roll_window_room)
  have b1: "windows (roll_windows (refill b now) now) ! k = ?w"
    using assms(3) k by (simp add: roll_windows_def refill_def Let_def)
  show ?thesis
  proof (cases ok)
    case False
    then show ?thesis using assms(1) b1 room by (auto simp: admit_def Let_def split: if_splits)
  next
    case True
    then have ex: "\<not> exhausted (roll_windows (refill b now) now)"
      and b': "b' = consume (roll_windows (refill b now) now)"
      using assms(1) by (auto simp: admit_def Let_def split: if_splits)
    have "windows b' ! k = (fst ?w, snd ?w + 1)"
      using b' b1 k assms(3)
      by (auto simp: consume_def Let_def case_prod_unfold roll_windows_def refill_def)
    moreover have "snd ?w < requests ?lim"
      using ex b1 k assms(3)
      by (auto simp: exhausted_def list_ex_length case_prod_unfold roll_windows_def refill_def Let_def not_le)
    ultimately show ?thesis using True room by (auto simp: window_room_def)
  qed
qed

lemma admits_room:
  assumes "admits b ts = (n, b')" and "rate_inv b" and "k < length (limits (rb_rule b))"
    and "\<forall>t\<in>set ts. t0 \<le> t \<and> t < t0 + window_seconds (limits (rb_rule b) ! k) * NANOS"
  shows "n \<le> window_room (limits (rb_rule b) ! k) t0 (windows b ! k)"
  using assms
proof (induction ts arbitrary: b n)
  case (Cons x ts)
  obtain ok b1 where a: "admit b x = (ok, b1)" by fastforce
  obtain m where m: "admits b1 ts = (m, b')" "n = (if ok then m + 1 else m)"
    using Cons.prems(1) a by (auto split: prod.splits)
  have b1: "rate_inv b1" "rb_rule b1 = rb_rule b"
    using admit_inv [OF Cons.prems(2), of x] admit_rule [of b x] a by simp_all
  have "m \<le> window_room (limits (rb_rule b) ! k) t0 (windows b1 ! k)"
    using Cons.IH [OF m(1) b1(1)] b1(2) Cons.prems(3,4) by simp
  moreover have "(if ok then 1 else 0) + window_room (limits (rb_rule b) ! k) t0 (windows b1 ! k)
      \<le> window_room (limits (rb_rule b) ! k) t0 (windows b ! k)"
    using Cons.prems(4) by (intro admit_room [OF a Cons.prems(2,3)]) simp_all
  ultimately show ?case using m(2) by (simp split: if_splits)
qed simp

section \<open>Properties\<close>

lemma validated_rate_rule:
  assumes "validate_rate_limits rules = Inr ()" and "rule \<in> set rules"
  shows "1 \<le> burst rule" "\<forall>w\<in>set (limits rule). 1 \<le> requests w \<and> 1 \<le> window_seconds w"
    "\<And>t. tps rule = Some t \<Longrightarrow> 1 \<le> t"
proof -
  obtain st where st: "try_fold validate_rate_rule [] rules = Inr st"
    using assms(1) by (auto simp: validate_rate_limits_def)
  have "\<exists>before after. validate_rate_rule before rule = Inr after"
    using try_fold_element [OF st assms(2)] .
  then show "1 \<le> burst rule" "\<forall>w\<in>set (limits rule). 1 \<le> requests w \<and> 1 \<le> window_seconds w"
    "\<And>t. tps rule = Some t \<Longrightarrow> 1 \<le> t"
    by (auto simp: validate_rate_rule_def try_all_Inr split: option.splits)
qed

text \<open>
  C12. The token bucket keeps its rate: however requests arrive, including out of time order,
  at most \<open>burst + tps * elapsed\<close> of them are admitted up to any instant, counted in
  nanoseconds so that no fraction is lost.
\<close>

theorem rate_limit_bound:
  assumes "rate_inv b" and "tps (rb_rule b) = Some t"
    and "rb_updated b \<le> horizon" and "\<forall>x\<in>set arrivals. x \<le> horizon"
  shows "fst (admits b arrivals) * NANOS \<le> burst (rb_rule b) * NANOS + t * (horizon - rb_updated b)"
proof -
  obtain n b' where a: "admits b arrivals = (n, b')" by fastforce
  have "fold max arrivals x \<le> horizon" if "x \<le> horizon" for x
    using assms(4) that by (induction arrivals arbitrary: x) auto
  then have "rb_updated b' \<le> horizon" using admits_credit [OF a assms(2)] assms(3) by metis
  then have "t * (rb_updated b' - rb_updated b) \<le> t * (horizon - rb_updated b)"
    by (intro mult_le_mono2 diff_le_mono)
  moreover have "credit b \<le> burst (rb_rule b) * NANOS" using assms(1) by (simp add: rate_inv_def)
  moreover have "n * NANOS \<le> credit b + t * (rb_updated b' - rb_updated b)"
    using admits_credit [OF a assms(2)] by linarith
  ultimately show ?thesis unfolding a fst_conv by linarith
qed

definition demo_rate_rule :: rate_rule where
  "demo_rate_rule = \<lparr>rr_path = ''/login'', rr_include_subpaths = False, rr_hosts = [], tps = Some 2, burst = 3,
     limits = [\<lparr>requests = 5, window_seconds = 10\<rparr>]\<rparr>"

theorem rate_limit_bound_witness:
  "fst (admits (new_rate_bucket 0 demo_rate_rule) [0, 0, 0, 0, NANOS]) * NANOS \<le> 3 * NANOS + 2 * (NANOS - 0)
   \<and> fst (admits (new_rate_bucket 0 demo_rate_rule) [0, 0, 0, 0, NANOS]) = 4"
proof
  have i: "rate_inv (new_rate_bucket 0 demo_rate_rule)" by (rule new_rate_bucket_inv)
  have t: "tps (rb_rule (new_rate_bucket 0 demo_rate_rule)) = Some 2"
    by (simp add: new_rate_bucket_def demo_rate_rule_def)
  have u: "rb_updated (new_rate_bucket 0 demo_rate_rule) \<le> NANOS" "\<forall>x\<in>set [0, 0, 0, 0, NANOS]. x \<le> NANOS"
    by (simp_all add: new_rate_bucket_def)
  show "fst (admits (new_rate_bucket 0 demo_rate_rule) [0, 0, 0, 0, NANOS]) * NANOS \<le> 3 * NANOS + 2 * (NANOS - 0)"
    using rate_limit_bound [OF i t u] by (simp add: new_rate_bucket_def demo_rate_rule_def)
  show "fst (admits (new_rate_bucket 0 demo_rate_rule) [0, 0, 0, 0, NANOS]) = 4" by code_simp
qed

text \<open>
  A fixed window of \<open>requests\<close> per \<open>window_seconds\<close> never admits more than twice its
  number in any time interval of its length, whatever the order of arrival.
\<close>

theorem rate_window_bound:
  assumes "rate_inv b" and "k < length (limits (rb_rule b))"
    and "\<forall>t\<in>set arrivals. t0 \<le> t \<and> t < t0 + window_seconds (limits (rb_rule b) ! k) * NANOS"
  shows "fst (admits b arrivals) \<le> 2 * requests (limits (rb_rule b) ! k)"
proof -
  obtain n b' where a: "admits b arrivals = (n, b')" by fastforce
  have "n \<le> window_room (limits (rb_rule b) ! k) t0 (windows b ! k)"
    using admits_room [OF a assms] .
  also have "\<dots> \<le> 2 * requests (limits (rb_rule b) ! k)" by (auto simp: window_room_def)
  finally show ?thesis using a by simp
qed

theorem rate_window_bound_witness:
  "fst (admits (new_rate_bucket 0 demo_rate_rule) [7, 8, NANOS]) \<le> 10"
proof -
  have i: "rate_inv (new_rate_bucket 0 demo_rate_rule)" by (rule new_rate_bucket_inv)
  have "0 < length (limits (rb_rule (new_rate_bucket 0 demo_rate_rule)))"
    "\<forall>t\<in>set [7, 8, NANOS].
       7 \<le> t \<and> t < 7 + window_seconds (limits (rb_rule (new_rate_bucket 0 demo_rate_rule)) ! 0) * NANOS"
    by (simp_all add: new_rate_bucket_def demo_rate_rule_def)
  from rate_window_bound [OF i this] show ?thesis by (simp add: new_rate_bucket_def demo_rate_rule_def)
qed

text \<open>
  C30. Admission recovers: an idle bucket of a validated rule admits the next request once
  the time for one token has passed and every window has rolled over.
\<close>

theorem rate_limit_recovers:
  assumes "validate_rate_limits rules = Inr ()" and "rb_rule b \<in> set rules" and "rate_inv b"
    and "\<forall>t. tps (rb_rule b) = Some t \<longrightarrow> NANOS \<le> t * (now - rb_updated b)"
    and "\<forall>k < length (limits (rb_rule b)).
      window_seconds (limits (rb_rule b) ! k) * NANOS \<le> now - fst (windows b ! k)"
  shows "fst (admit b now)"
proof -
  note v = validated_rate_rule [OF assms(1,2)]
  have len: "length (windows b) = length (limits (rb_rule b))"
    using assms(3) by (auto simp: rate_inv_def dest: list_all2_lengthD)
  have w: "roll_window now (limits (rb_rule b) ! k) (windows b ! k) = (max now (fst (windows b ! k)), 0)"
    if "k < length (limits (rb_rule b))" for k
  proof -
    have "window_seconds (limits (rb_rule b) ! k) \<le> (now - fst (windows b ! k)) div NANOS"
      using assms(5) that by (simp add: less_eq_div_iff_mult_less_eq)
    then show ?thesis by (cases "windows b ! k") simp
  qed
  have "\<not> list_ex (\<lambda>(limit, (_, used)). used \<ge> requests limit)
      (zip (limits (rb_rule b)) (map2 (roll_window now) (limits (rb_rule b)) (windows b)))"
    using v(2) w len nth_mem [of _ "limits (rb_rule b)"]
    by (auto simp: list_ex_length case_prod_unfold Suc_le_eq)
  moreover have "NANOS \<le> min (credit b + (now - rb_updated b) * t) (burst (rb_rule b) * NANOS)"
    if "tps (rb_rule b) = Some t" for t
    using v(1) assms(4) that by (simp add: mult.commute trans_le_add2)
  ultimately show ?thesis
    by (auto simp: admit_def Let_def exhausted_def roll_windows_def refill_def not_less)
qed

theorem rate_limit_recovers_witness:
  "fst (admit (snd (admits (new_rate_bucket 0 demo_rate_rule) [0, 0, 0])) (20 * NANOS))"
proof (rule rate_limit_recovers)
  let ?b = "snd (admits (new_rate_bucket 0 demo_rate_rule) [0, 0, 0])"
  have b: "?b = \<lparr>rb_rule = demo_rate_rule, rb_updated = 0, credit = 0, windows = [(0, 3)]\<rparr>" by code_simp
  show "validate_rate_limits [demo_rate_rule] = Inr ()" by code_simp
  show "rb_rule ?b \<in> set [demo_rate_rule]" "rate_inv ?b"
    "\<forall>t. tps (rb_rule ?b) = Some t \<longrightarrow> NANOS \<le> t * (20 * NANOS - rb_updated ?b)"
    "\<forall>k < length (limits (rb_rule ?b)).
      window_seconds (limits (rb_rule ?b) ! k) * NANOS \<le> 20 * NANOS - fst (windows ?b ! k)"
    unfolding b by (simp_all add: rate_inv_def demo_rate_rule_def)
qed

text \<open>
  A reload keeps what was counted: after \<^verbatim>\<open>prepare\<close> every rule has a bucket with exactly
  that rule, no existing bucket changed, and a rule of the previous generation keeps the very
  bucket it had, with its credit and windows.
\<close>

theorem prepare_rate_limits_keeps:
  assumes "prepare_rate_limits now rules previous heap = (as, heap')"
    and "\<forall>a\<in>set previous. a < length heap"
  shows "map (\<lambda>a. rb_rule (heap' ! a)) as = rules
    \<and> (\<forall>a < length heap. heap' ! a = heap ! a)
    \<and> (\<forall>i < length rules. (\<exists>p\<in>set previous. rb_rule (heap ! p) = rules ! i) \<longrightarrow>
         as ! i \<in> set previous \<and> heap' ! (as ! i) = heap ! (as ! i))"
proof -
  note p = assms(1) [unfolded prepare_rate_limits_def]
  have v: "rate_family.valid_addrs previous heap" using assms(2) by (simp add: rate_family.valid_addrs_def)
  show ?thesis
    using rate_family.prepare_spec [OF p v] rate_family.prepare_extends [OF p]
      rate_family.prepare_reuses [OF p v] by (auto simp: nth_append)
qed

theorem prepare_rate_limits_keeps_witness:
  "\<exists>as heap'. prepare_rate_limits 9 [demo_rate_rule] [0] [(new_rate_bucket 0 demo_rate_rule)\<lparr>credit := 1\<rparr>] = (as, heap')
    \<and> as ! 0 = 0 \<and> heap' ! 0 = (new_rate_bucket 0 demo_rate_rule)\<lparr>credit := 1\<rparr>"
proof -
  let ?h = "[(new_rate_bucket 0 demo_rate_rule)\<lparr>credit := 1\<rparr>]"
  obtain as heap' where p: "prepare_rate_limits 9 [demo_rate_rule] [0] ?h = (as, heap')" by fastforce
  have "\<forall>a\<in>set [0]. a < length ?h" by simp
  from prepare_rate_limits_keeps [OF p this] show ?thesis
    using p by (auto simp: new_rate_bucket_def)
qed

end
