(* ===== verification/PathFailureBans.thy ===== *)
theory PathFailureBans
  imports Buckets "HOL-Library.AList" "HOL-Library.Multiset"
    "HOL-Library.List_Lexorder" "HOL-Library.Product_Lexorder"
begin

text \<open>
  \<^verbatim>\<open>src/path_failure_bans.rs\<close>: bans of a client address after failing responses on selected
  URLs. The client map is an association list with distinct keys; the identity of a
  \<^verbatim>\<open>generation: Arc<()>\<close> is a number drawn from a counter of the bucket (a lease keeps its
  generation alive, so an address in use is never reused); \<^verbatim>\<open>in_flight\<close> is a 64-bit word whose
  decrement wraps.
\<close>

datatype ban_scope = UrlScope | HostScope | GlobalScope

abbreviation (input) MAX_CLIENTS :: nat where
  "MAX_CLIENTS \<equiv> 1024"

record ban_rule =
  br_path :: string
  br_hosts :: "string list"
  br_include_subpaths :: bool
  br_failures :: nat
  br_window_seconds :: nat
  ban_seconds :: nat
  statuses :: "nat list"

definition ban_selector :: "ban_rule \<Rightarrow> block_rule" where
  "ban_selector rule = \<lparr>block_path = br_path rule, block_hosts = br_hosts rule\<rparr>"

definition validate_ban_rule :: "ban_rule list \<Rightarrow> ban_rule \<Rightarrow> string + ban_rule list" where
  "validate_ban_rule before rule =
     res_bind
       (first_error
          [ensure (rule \<notin> set before) ''duplicate path failure ban rule'',
           ensure (1 \<le> br_failures rule \<and> br_failures rule \<le> 1000)
             ''path failure threshold must be 1..1000'',
           ensure (1 \<le> br_window_seconds rule \<and> br_window_seconds rule \<le> 86400
                   \<and> 1 \<le> ban_seconds rule \<and> ban_seconds rule \<le> 86400)
             ''path failure window and ban must be 1..86400 seconds'',
           ensure (statuses rule \<noteq> [] \<and> length (statuses rule) \<le> 16)
             ''path failure statuses must contain 1..16 values'',
           check_distinct
             (\<lambda>s. ensure (400 \<le> s \<and> s \<le> 599) ''path failure statuses must be distinct values in 400..599'')
             ''path failure statuses must be distinct values in 400..599'' [] (statuses rule)])
       (\<lambda>_. Inr (before @ [rule]))"

definition validate_failure_bans :: "ban_rule list \<Rightarrow> string + unit" where
  "validate_failure_bans rules =
     first_error
       [ensure (length rules \<le> 128) ''path failure bans allow at most 128 rules'',
        validate_path_blocks (map ban_selector rules),
        res_bind (try_fold validate_ban_rule [] rules) (\<lambda>_. Inr ())]"

subsection \<open>Records\<close>

record client_record =
  generation :: nat
  cr_updated :: instant
  window_started :: instant
  cr_failures :: nat
  banned_since :: "instant option"
  in_flight :: u64

definition banned :: "client_record \<Rightarrow> ban_rule \<Rightarrow> instant \<Rightarrow> bool" where
  "banned rec rule now =
     (case banned_since rec of
        None \<Rightarrow> False
      | Some started \<Rightarrow> now - started < ban_seconds rule * NANOS)"

definition window_live :: "client_record \<Rightarrow> ban_rule \<Rightarrow> instant \<Rightarrow> bool" where
  "window_live rec rule now \<longleftrightarrow> now - window_started rec < br_window_seconds rule * NANOS"

definition reset_expired :: "client_record \<Rightarrow> ban_rule \<Rightarrow> instant \<Rightarrow> client_record" where
  "reset_expired rec rule now =
     (if banned_since rec \<noteq> None \<and> \<not> banned rec rule now
      then rec\<lparr>banned_since := None, cr_failures := 0, window_started := now\<rparr>
      else if banned_since rec = None \<and> \<not> window_live rec rule now
      then rec\<lparr>cr_failures := 0, window_started := now\<rparr>
      else rec)"

record ban_bucket =
  bb_rule :: ban_rule
  bb_selector :: block_rule
  clients :: "(ip_addr \<times> client_record) list"
  next_generation :: nat \<comment> \<open>the allocator of \<^verbatim>\<open>Arc::new(())\<close>\<close>

definition new_ban_bucket :: "ban_rule \<Rightarrow> ban_bucket" where
  "new_ban_bucket rule =
     \<lparr>bb_rule = rule, bb_selector = ban_selector rule, clients = [], next_generation = 0\<rparr>"

text \<open>A lease: the bucket is the one the operation is applied to, so address and generation.\<close>

type_synonym lease = "ip_addr \<times> nat"

subsection \<open>Bucket::reserve\<close>

definition retained :: "ban_rule \<Rightarrow> instant \<Rightarrow> client_record \<Rightarrow> bool" where
  "retained rule now rec \<longleftrightarrow>
     in_flight rec \<noteq> 0
     \<or> banned rec rule now
     \<or> (banned_since rec = None \<and> cr_failures rec \<noteq> 0 \<and> window_live rec rule now)"

definition fresh_record :: "nat \<Rightarrow> instant \<Rightarrow> client_record" where
  "fresh_record g now =
     \<lparr>generation = g, cr_updated = now, window_started = now, cr_failures = 0,
      banned_since = None, in_flight = 0\<rparr>"

text \<open>The eviction at the start: \<^term>\<open>None\<close> is the early return of 503.\<close>

definition make_room :: "ban_bucket \<Rightarrow> ip_addr \<Rightarrow> instant \<Rightarrow> bool \<times> ban_bucket" where
  "make_room b ip now =
     (if map_of (clients b) ip = None \<and> length (clients b) \<ge> MAX_CLIENTS then
        (let b' = b\<lparr>clients := filter (\<lambda>(_, rec). retained (bb_rule b) now rec) (clients b)\<rparr>
         in (length (clients b') < MAX_CLIENTS, b'))
      else (True, b))"

text \<open>\<^verbatim>\<open>entry(ip).or_insert_with(..)\<close>\<close>

definition entry_record :: "ban_bucket \<Rightarrow> ip_addr \<Rightarrow> instant \<Rightarrow> client_record \<times> ban_bucket" where
  "entry_record b ip now =
     (case map_of (clients b) ip of
        Some rec \<Rightarrow> (rec, b)
      | None \<Rightarrow>
          let rec = fresh_record (next_generation b) now
          in (rec, b\<lparr>clients := AList.update ip rec (clients b), next_generation := next_generation b + 1\<rparr>))"

definition store_record :: "ban_bucket \<Rightarrow> ip_addr \<Rightarrow> client_record \<Rightarrow> ban_bucket" where
  "store_record b ip rec = b\<lparr>clients := AList.update ip rec (clients b)\<rparr>"

definition touch :: "client_record \<Rightarrow> ban_rule \<Rightarrow> instant \<Rightarrow> client_record" where
  "touch rec rule now =
     (let now' = max now (cr_updated rec) in reset_expired (rec\<lparr>cr_updated := now'\<rparr>) rule now')"

definition reserve :: "ban_bucket \<Rightarrow> ip_addr \<Rightarrow> instant \<Rightarrow> (nat + lease) \<times> ban_bucket" where
  "reserve b ip now =
     (case make_room b ip now of
        (False, b1) \<Rightarrow> (Inl 503, b1)
      | (True, b1) \<Rightarrow>
          (case entry_record b1 ip now of
             (rec, b2) \<Rightarrow>
               let rec' = touch rec (bb_rule b) now
               in if banned rec' (bb_rule b) (cr_updated rec') then (Inl 429, store_record b2 ip rec')
                  else if in_flight rec' = - 1 then (Inl 503, store_record b2 ip rec')
                  else (Inr (ip, generation rec'),
                        store_record b2 ip (rec'\<lparr>in_flight := in_flight rec' + 1\<rparr>))))"

subsection \<open>Bucket::record and Drop\<close>

definition count_failure :: "ban_bucket \<Rightarrow> ip_addr \<Rightarrow> client_record \<Rightarrow> bool \<times> ban_bucket" where
  "count_failure b ip rec =
     (let now = cr_updated rec;
          rec1 = (if cr_failures rec = 0 then rec\<lparr>window_started := now\<rparr> else rec);
          rec2 = rec1\<lparr>cr_failures := min (min 4294967295 (cr_failures rec1 + 1)) (br_failures (bb_rule b))\<rparr>
      in if cr_failures rec2 \<ge> br_failures (bb_rule b)
         then (True, (store_record b ip
                        (rec2\<lparr>banned_since := Some now, generation := next_generation b, in_flight := 0\<rparr>))
                       \<lparr>next_generation := next_generation b + 1\<rparr>)
         else (False, store_record b ip rec2))"

definition record_response :: "ban_bucket \<Rightarrow> lease \<Rightarrow> nat \<Rightarrow> instant \<Rightarrow> bool \<times> ban_bucket" where
  "record_response b l status now =
     (if status \<notin> set (statuses (bb_rule b)) then (False, b)
      else (case map_of (clients b) (fst l) of
              None \<Rightarrow> (False, b)
            | Some rec \<Rightarrow>
                if generation rec \<noteq> snd l then (False, b)
                else
                  let rec' = touch rec (bb_rule b) now
                  in if banned rec' (bb_rule b) (cr_updated rec') then (False, store_record b (fst l) rec')
                     else count_failure b (fst l) rec'))"

definition drop_lease :: "ban_bucket \<Rightarrow> lease \<Rightarrow> ban_bucket" where
  "drop_lease b l =
     (case map_of (clients b) (fst l) of
        None \<Rightarrow> b
      | Some rec \<Rightarrow>
          if generation rec \<noteq> snd l then b
          else
            let rec' = rec\<lparr>in_flight := in_flight rec - 1\<rparr>
            in if in_flight rec' = 0 \<and> cr_failures rec' = 0 \<and> banned_since rec' = None
               then b\<lparr>clients := AList.delete (fst l) (clients b)\<rparr>
               else store_record b (fst l) rec')"

definition clear_client :: "ban_bucket \<Rightarrow> ip_addr \<Rightarrow> bool \<times> ban_bucket" where
  "clear_client b ip =
     (map_of (clients b) ip \<noteq> None, b\<lparr>clients := AList.delete ip (clients b)\<rparr>)"

subsection \<open>Observations over the shared buckets\<close>

text \<open>
  A bucket list is a list of addresses into the heap of buckets; an \<^verbatim>\<open>Observation\<close> is the list
  of its leases, each with the address of its bucket.
\<close>

type_synonym observation_leases = "(nat \<times> lease) list"

definition is_failure :: "ban_bucket list \<Rightarrow> observation_leases \<Rightarrow> nat \<Rightarrow> bool" where
  "is_failure heap leases status = list_ex (\<lambda>(a, _). status \<in> set (statuses (bb_rule (heap ! a)))) leases"

definition drop_leases :: "observation_leases \<Rightarrow> ban_bucket list \<Rightarrow> ban_bucket list" where
  "drop_leases leases heap = fold (\<lambda>(a, l) h. h[a := drop_lease (h ! a) l]) leases heap"

record ban_event =
  event_path :: string
  event_ban_seconds :: nat

fun record_leases ::
  "observation_leases \<Rightarrow> nat \<Rightarrow> instant \<Rightarrow> ban_bucket list \<Rightarrow> ban_event list \<times> ban_bucket list" where
  "record_leases [] status now heap = ([], heap)"
| "record_leases ((a, l) # leases) status now heap =
     (case record_response (heap ! a) l status now of
        (hit, b) \<Rightarrow>
          (case record_leases leases status now (heap[a := b]) of
             (events, heap') \<Rightarrow>
               (if hit then \<lparr>event_path = br_path (bb_rule (heap ! a)),
                             event_ban_seconds = ban_seconds (bb_rule (heap ! a))\<rparr> # events
                else events, heap')))"

text \<open>\<^verbatim>\<open>record_at(self, ..)\<close> consumes the observation: its leases are dropped at the end.\<close>

definition record_at ::
  "observation_leases \<Rightarrow> nat \<Rightarrow> instant \<Rightarrow> ban_bucket list \<Rightarrow> ban_event list \<times> ban_bucket list" where
  "record_at leases status now heap =
     (case record_leases leases status now heap of (events, heap') \<Rightarrow> (events, drop_leases leases heap'))"

subsection \<open>precheck and check\<close>

definition scope_matches ::
  "http_lib \<Rightarrow> ban_scope \<Rightarrow> ban_bucket \<Rightarrow> request \<Rightarrow> string option \<Rightarrow> nat + bool" where
  "scope_matches L scope b r forwarded_host =
     (case scope of
        GlobalScope \<Rightarrow> Inr True
      | HostScope \<Rightarrow> Inr (scope_host_matches L (bb_selector b) r forwarded_host)
      | UrlScope \<Rightarrow> selector_matches L (bb_selector b) r forwarded_host (br_include_subpaths (bb_rule b)))"

fun precheck_at ::
  "http_lib \<Rightarrow> nat list \<Rightarrow> request \<Rightarrow> string option \<Rightarrow> ip_addr \<Rightarrow> ban_scope \<Rightarrow> instant
   \<Rightarrow> ban_bucket list \<Rightarrow> nat + unit" where
  "precheck_at L [] r forwarded_host ip scope now heap = Inr ()"
| "precheck_at L (a # as) r forwarded_host ip scope now heap =
     (if \<not> (case map_of (clients (heap ! a)) ip of
             None \<Rightarrow> False | Some rec \<Rightarrow> banned rec (bb_rule (heap ! a)) now)
      then precheck_at L as r forwarded_host ip scope now heap
      else res_bind (scope_matches L scope (heap ! a) r forwarded_host)
             (\<lambda>m. if m then Inl 429 else precheck_at L as r forwarded_host ip scope now heap))"

text \<open>On an early return the leases taken so far are dropped with the observation.\<close>

fun reserve_loop ::
  "http_lib \<Rightarrow> nat list \<Rightarrow> request \<Rightarrow> string option \<Rightarrow> ip_addr \<Rightarrow> instant \<Rightarrow> observation_leases
   \<Rightarrow> ban_bucket list \<Rightarrow> (nat + observation_leases) \<times> ban_bucket list" where
  "reserve_loop L [] r forwarded_host ip now leases heap = (Inr leases, heap)"
| "reserve_loop L (a # as) r forwarded_host ip now leases heap =
     (case selector_matches L (bb_selector (heap ! a)) r forwarded_host
             (br_include_subpaths (bb_rule (heap ! a))) of
        Inl e \<Rightarrow> (Inl e, drop_leases leases heap)
      | Inr False \<Rightarrow> reserve_loop L as r forwarded_host ip now leases heap
      | Inr True \<Rightarrow>
          (case reserve (heap ! a) ip now of
             (Inl e, b) \<Rightarrow> (Inl e, drop_leases leases (heap[a := b]))
           | (Inr l, b) \<Rightarrow>
               reserve_loop L as r forwarded_host ip now (leases @ [(a, l)]) (heap[a := b])))"

definition check_scope_at ::
  "http_lib \<Rightarrow> nat list \<Rightarrow> request \<Rightarrow> string option \<Rightarrow> ip_addr \<Rightarrow> ban_scope \<Rightarrow> instant
   \<Rightarrow> ban_bucket list \<Rightarrow> (nat + observation_leases) \<times> ban_bucket list" where
  "check_scope_at L buckets r forwarded_host ip scope now heap =
     (case precheck_at L buckets r forwarded_host ip scope now heap of
        Inl e \<Rightarrow> (Inl e, heap)
      | Inr _ \<Rightarrow> reserve_loop L buckets r forwarded_host ip now [] heap)"

definition ban_check ::
  "http_lib \<Rightarrow> nat list \<Rightarrow> request \<Rightarrow> string option \<Rightarrow> ip_addr \<Rightarrow> ban_scope \<Rightarrow> instant
   \<Rightarrow> ban_bucket list \<Rightarrow> (nat + observation_leases) \<times> ban_bucket list" where
  "ban_check L buckets r forwarded_host ip scope now heap =
     check_scope_at L buckets r forwarded_host (to_canonical ip) scope now heap"

definition ban_precheck ::
  "http_lib \<Rightarrow> nat list \<Rightarrow> request \<Rightarrow> string option \<Rightarrow> ip_addr \<Rightarrow> ban_scope \<Rightarrow> instant
   \<Rightarrow> ban_bucket list \<Rightarrow> nat + unit" where
  "ban_precheck L buckets r forwarded_host ip scope now heap =
     precheck_at L buckets r forwarded_host (to_canonical ip) scope now heap"

subsection \<open>Administration\<close>

record ban_info =
  info_ip :: ip_addr
  info_path :: string
  remaining_seconds :: nat

definition ban_remaining :: "ban_rule \<Rightarrow> client_record \<Rightarrow> instant \<Rightarrow> nat" where
  "ban_remaining rule rec now =
     (let remaining = ban_seconds rule * NANOS - (now - the (banned_since rec))
      in remaining div NANOS + (if remaining mod NANOS \<noteq> 0 then 1 else 0))"

fun list_clients ::
  "ban_rule \<Rightarrow> ip_addr option \<Rightarrow> nat \<Rightarrow> instant \<Rightarrow> (ip_addr \<times> client_record) list \<Rightarrow> ban_info list
   \<Rightarrow> ban_info list \<times> bool" where
  "list_clients rule ip limit now [] bans = (bans, False)"
| "list_clients rule ip limit now ((client, rec) # rest) bans =
     (if (case ip of None \<Rightarrow> False | Some i \<Rightarrow> i \<noteq> client) \<or> \<not> banned rec rule now
      then list_clients rule ip limit now rest bans
      else if length bans = limit then (bans, True)
      else list_clients rule ip limit now rest
             (bans @ [\<lparr>info_ip = client, info_path = br_path rule,
                       remaining_seconds = ban_remaining rule rec now\<rparr>]))"

fun list_buckets ::
  "ip_addr option \<Rightarrow> nat \<Rightarrow> instant \<Rightarrow> ban_bucket list \<Rightarrow> ban_info list \<Rightarrow> ban_info list \<times> bool" where
  "list_buckets ip limit now [] bans = (bans, False)"
| "list_buckets ip limit now (b # bs) bans =
     (case list_clients (bb_rule b) ip limit now (clients b) bans of
        (bans', True) \<Rightarrow> (bans', True)
      | (bans', False) \<Rightarrow> list_buckets ip limit now bs bans')"

text \<open>\<^verbatim>\<open>sort_by\<close> on the address, then on the path (compared by bytes).\<close>

definition info_key :: "ban_info \<Rightarrow> ip_addr \<times> nat list" where
  "info_key i = (info_ip i, map of_char (info_path i))"

definition list_at ::
  "nat list \<Rightarrow> ip_addr option \<Rightarrow> nat \<Rightarrow> instant \<Rightarrow> ban_bucket list \<Rightarrow> ban_info list \<times> bool" where
  "list_at buckets ip limit now heap =
     (case list_buckets ip (min limit 200) now (map (nth heap) buckets) [] of
        (bans, truncated) \<Rightarrow> (sort_key info_key bans, truncated))"

definition list_bans ::
  "nat list \<Rightarrow> ip_addr option \<Rightarrow> nat \<Rightarrow> instant \<Rightarrow> ban_bucket list \<Rightarrow> ban_info list \<times> bool" where
  "list_bans buckets ip limit now heap = list_at buckets (map_option to_canonical ip) limit now heap"

fun clear_loop :: "ip_addr \<Rightarrow> nat list \<Rightarrow> ban_bucket list \<Rightarrow> nat \<times> ban_bucket list" where
  "clear_loop ip [] heap = (0, heap)"
| "clear_loop ip (a # as) heap =
     (case clear_client (heap ! a) ip of
        (removed, b) \<Rightarrow>
          (case clear_loop ip as (heap[a := b]) of
             (n, heap') \<Rightarrow> (if removed then n + 1 else n, heap')))"

definition clear_bans :: "nat list \<Rightarrow> ip_addr \<Rightarrow> ban_bucket list \<Rightarrow> nat \<times> ban_bucket list" where
  "clear_bans buckets ip heap = clear_loop (to_canonical ip) buckets heap"

definition prepare_failure_bans ::
  "ban_rule list \<Rightarrow> nat list \<Rightarrow> ban_bucket list \<Rightarrow> nat list \<times> ban_bucket list" where
  "prepare_failure_bans rules previous heap =
     prepare_buckets bb_rule new_ban_bucket previous rules heap"

interpretation ban_family: bucket_family bb_rule new_ban_bucket
  by unfold_locales (simp add: new_ban_bucket_def)

end
