(* ===== verification/FailureBanRuns.thy ===== *)
theory FailureBanRuns
  imports PathFailureBans
begin

text \<open>
  Runs of one failure-ban bucket (\<^verbatim>\<open>src/path_failure_bans.rs\<close>) together with the leases that
  are outstanding: requests reserve, responses are recorded, leases are dropped and an
  administrator clears clients, in any order and with any clock samples.
\<close>

section \<open>Association lists\<close>

lemma map_of_filter_values:
  "distinct (map fst al) \<Longrightarrow>
   map_of (filter (\<lambda>(k, v). P v) al) k = (case map_of al k of None \<Rightarrow> None | Some v \<Rightarrow> if P v then Some v else None)"
proof (induction al)
  case (Cons x al)
  obtain a v where x: "x = (a, v)" by (cases x)
  have "map_of al a = None" "map_of (filter (\<lambda>(k, v). P v) al) a = None"
    using Cons.prems by (auto simp: x map_of_eq_None_iff)
  then show ?case using Cons by (auto simp: x split: option.splits)
qed simp

lemma distinct_filter_keys: "distinct (map fst al) \<Longrightarrow> distinct (map fst (filter P al))"
  by (induction al) auto

lemma length_update:
  "length (AList.update k v al) = (if map_of al k = None then Suc (length al) else length al)"
  by (induction al) auto

lemma length_delete_le: "length (AList.delete k al) \<le> length al"
  by (simp add: AList.delete_eq)

section \<open>Runs\<close>

datatype ban_act =
    AReserve ip_addr instant
  | ARecord lease nat instant
  | ADrop lease
  | AClear ip_addr

inductive ban_step :: "ban_act \<Rightarrow> ban_bucket \<times> lease multiset \<Rightarrow> ban_bucket \<times> lease multiset \<Rightarrow> bool" where
  reserve_ok: "reserve b ip now = (Inr l, b') \<Longrightarrow> ban_step (AReserve ip now) (b, M) (b', add_mset l M)"
| reserve_err: "reserve b ip now = (Inl e, b') \<Longrightarrow> ban_step (AReserve ip now) (b, M) (b', M)"
| recorded: "l \<in># M \<Longrightarrow> ban_step (ARecord l status now) (b, M) (snd (record_response b l status now), M)"
| dropped: "l \<in># M \<Longrightarrow> ban_step (ADrop l) (b, M) (drop_lease b l, M - {#l#})"
| cleared: "ban_step (AClear ip) (b, M) (snd (clear_client b ip), M)"

inductive_cases ban_step_reserveE: "ban_step (AReserve ip now) s s'"
inductive_cases ban_step_recordE: "ban_step (ARecord l status now) s s'"
inductive_cases ban_step_dropE: "ban_step (ADrop l) s s'"
inductive_cases ban_step_clearE: "ban_step (AClear ip) s s'"

inductive ban_run :: "ban_bucket \<times> lease multiset \<Rightarrow> ban_act list \<Rightarrow> ban_bucket \<times> lease multiset \<Rightarrow> bool" where
  ban_run_Nil: "ban_run s [] s"
| ban_run_snoc: "ban_run s acts t \<Longrightarrow> ban_step act t u \<Longrightarrow> ban_run s (acts @ [act]) u"

text \<open>
  The invariant: addresses are unique and at most 1024, every generation was drawn from the
  counter, and \<open>in_flight\<close> of a record counts exactly the outstanding leases of its generation.
\<close>

definition ban_inv :: "ban_bucket \<times> lease multiset \<Rightarrow> bool" where
  "ban_inv s \<longleftrightarrow>
     (let b = fst s; M = snd s
      in distinct (map fst (clients b)) \<and> length (clients b) \<le> MAX_CLIENTS
         \<and> (\<forall>l\<in>#M. snd l < next_generation b)
         \<and> (\<forall>ip rec. map_of (clients b) ip = Some rec \<longrightarrow>
              generation rec < next_generation b \<and> unat (in_flight rec) = count M (ip, generation rec)))"

lemma ban_invI:
  assumes "distinct (map fst (clients b))" and "length (clients b) \<le> MAX_CLIENTS"
    and "\<And>l. l \<in># M \<Longrightarrow> snd l < next_generation b"
    and "\<And>ip rec. map_of (clients b) ip = Some rec \<Longrightarrow>
      generation rec < next_generation b \<and> unat (in_flight rec) = count M (ip, generation rec)"
  shows "ban_inv (b, M)"
  using assms by (auto simp: ban_inv_def Let_def)

lemma ban_invD:
  assumes "ban_inv (b, M)"
  shows "distinct (map fst (clients b))" "length (clients b) \<le> MAX_CLIENTS"
    "\<And>l. l \<in># M \<Longrightarrow> snd l < next_generation b"
    "\<And>ip rec. map_of (clients b) ip = Some rec \<Longrightarrow> generation rec < next_generation b"
    "\<And>ip rec. map_of (clients b) ip = Some rec \<Longrightarrow> unat (in_flight rec) = count M (ip, generation rec)"
  using assms by (auto simp: ban_inv_def Let_def)

lemma new_bucket_inv: "ban_inv (new_ban_bucket rule, {#})"
  by (rule ban_invI) (simp_all add: new_ban_bucket_def)

section \<open>Preservation\<close>

lemma touch_simps [simp]:
  "generation (touch rec rule now) = generation rec"
  "in_flight (touch rec rule now) = in_flight rec"
  "cr_updated (touch rec rule now) = max now (cr_updated rec)"
  by (simp_all add: touch_def reset_expired_def Let_def)

lemma store_record_simps [simp]:
  "map_of (clients (store_record b ip rec)) = (map_of (clients b))(ip \<mapsto> rec)"
  "next_generation (store_record b ip rec) = next_generation b"
  "bb_rule (store_record b ip rec) = bb_rule b"
  "map_of (clients b) ip \<noteq> None \<Longrightarrow> length (clients (store_record b ip rec)) = length (clients b)"
  by (simp_all add: store_record_def update_conv' length_update)

lemma store_record_distinct:
  "distinct (map fst (clients b)) \<Longrightarrow> distinct (map fst (clients (store_record b ip rec)))"
  by (simp add: store_record_def distinct_update)

text \<open>Replacing the record of one client, with its own leases changed to match.\<close>

lemma ban_inv_store:
  assumes inv: "ban_inv (b, M)" and present: "map_of (clients b) ip \<noteq> None"
    and gen: "generation rec < next_generation b" and cnt: "unat (in_flight rec) = count M' (ip, generation rec)"
    and others: "\<And>l. fst l \<noteq> ip \<Longrightarrow> count M' l = count M l"
    and own: "\<And>l. l \<in># M' \<Longrightarrow> snd l < next_generation b"
  shows "ban_inv (store_record b ip rec, M')"
proof (rule ban_invI)
  note i = ban_invD [OF inv]
  show "distinct (map fst (clients (store_record b ip rec)))" using i(1) by (rule store_record_distinct)
  show "length (clients (store_record b ip rec)) \<le> MAX_CLIENTS" using i(2) present by simp
  show "snd l < next_generation (store_record b ip rec)" if "l \<in># M'" for l using own [OF that] by simp
  show "generation rec' < next_generation (store_record b ip rec)
      \<and> unat (in_flight rec') = count M' (ip', generation rec')"
    if "map_of (clients (store_record b ip rec)) ip' = Some rec'" for ip' rec'
    using that i(4,5) gen cnt others by (cases "ip' = ip") auto
qed

lemma ban_inv_delete:
  assumes inv: "ban_inv (b, M)" and others: "\<And>l. fst l \<noteq> ip \<Longrightarrow> count M' l = count M l"
    and own: "\<And>l. l \<in># M' \<Longrightarrow> snd l < next_generation b"
  shows "ban_inv (b\<lparr>clients := AList.delete ip (clients b)\<rparr>, M')"
proof (rule ban_invI)
  note i = ban_invD [OF inv]
  show "distinct (map fst (clients (b\<lparr>clients := AList.delete ip (clients b)\<rparr>)))"
    using i(1) by (simp add: distinct_delete)
  show "length (clients (b\<lparr>clients := AList.delete ip (clients b)\<rparr>)) \<le> MAX_CLIENTS"
    using i(2) length_delete_le [of ip "clients b"] by simp
  show "snd l < next_generation (b\<lparr>clients := AList.delete ip (clients b)\<rparr>)" if "l \<in># M'" for l
    using own [OF that] by simp
  show "generation rec < next_generation (b\<lparr>clients := AList.delete ip (clients b)\<rparr>)
      \<and> unat (in_flight rec) = count M' (ip', generation rec)"
    if "map_of (clients (b\<lparr>clients := AList.delete ip (clients b)\<rparr>)) ip' = Some rec" for ip' rec
    using that i(4,5) others by (auto simp: delete_conv' split: if_splits)
qed

lemma make_room_inv:
  assumes "make_room b ip now = (ok, b')" and inv: "ban_inv (b, M)"
  shows "ban_inv (b', M)" "bb_rule b' = bb_rule b" "next_generation b' = next_generation b"
    "ok \<Longrightarrow> map_of (clients b') ip \<noteq> None \<or> length (clients b') < MAX_CLIENTS"
    "map_of (clients b') ip = map_of (clients b) ip"
    "\<And>ip' rec. map_of (clients b) ip' = Some rec \<Longrightarrow> retained (bb_rule b) now rec
       \<Longrightarrow> map_of (clients b') ip' = Some rec"
proof -
  note i = ban_invD [OF inv]
  have f: "map_of (filter (\<lambda>(_, rec). retained (bb_rule b) now rec) (clients b)) k
      = (case map_of (clients b) k of None \<Rightarrow> None | Some rec \<Rightarrow> if retained (bb_rule b) now rec then Some rec else None)"
    for k using i(1) by (rule map_of_filter_values)
  have "ban_inv (b\<lparr>clients := filter (\<lambda>(_, rec). retained (bb_rule b) now rec) (clients b)\<rparr>, M)"
    using i distinct_filter_keys [OF i(1)] le_trans [OF length_filter_le i(2)]
    by (intro ban_invI) (auto simp: f split: option.splits if_splits)
  then show "ban_inv (b', M)" "bb_rule b' = bb_rule b" "next_generation b' = next_generation b"
    "ok \<Longrightarrow> map_of (clients b') ip \<noteq> None \<or> length (clients b') < MAX_CLIENTS"
    "map_of (clients b') ip = map_of (clients b) ip"
    "\<And>ip' rec. map_of (clients b) ip' = Some rec \<Longrightarrow> retained (bb_rule b) now rec
       \<Longrightarrow> map_of (clients b') ip' = Some rec"
    using assms by (auto simp: make_room_def Let_def f split: if_splits)
qed

lemma entry_record_inv:
  assumes e: "entry_record b ip now = (rec, b')" and inv: "ban_inv (b, M)"
    and room: "map_of (clients b) ip \<noteq> None \<or> length (clients b) < MAX_CLIENTS"
  shows "ban_inv (b', M)" "bb_rule b' = bb_rule b" "map_of (clients b') ip = Some rec"
    "\<And>ip'. ip' \<noteq> ip \<Longrightarrow> map_of (clients b') ip' = map_of (clients b) ip'"
    "map_of (clients b) ip = Some rec \<or> map_of (clients b) ip = None \<and> rec = fresh_record (next_generation b) now"
proof -
  note i = ban_invD [OF inv]
  have fresh: "count M (ip, next_generation b) = 0"
    using i(3) [of "(ip, next_generation b)"] by (auto simp: count_eq_zero_iff)
  have "ban_inv (b', M)" if none: "map_of (clients b) ip = None"
  proof -
    have b': "b' = b\<lparr>clients := AList.update ip (fresh_record (next_generation b) now) (clients b),
        next_generation := next_generation b + 1\<rparr>"
      using e none by (auto simp: entry_record_def Let_def)
    show ?thesis
      unfolding b' using i room none fresh
      by (intro ban_invI)
        (auto simp: distinct_update length_update update_conv' fresh_record_def less_Suc_eq
          split: if_splits)
  qed
  then show "ban_inv (b', M)" "bb_rule b' = bb_rule b" "map_of (clients b') ip = Some rec"
    "\<And>ip'. ip' \<noteq> ip \<Longrightarrow> map_of (clients b') ip' = map_of (clients b) ip'"
    "map_of (clients b) ip = Some rec \<or> map_of (clients b) ip = None \<and> rec = fresh_record (next_generation b) now"
    using e inv by (auto simp: entry_record_def Let_def update_conv' split: option.splits)
qed

text \<open>What a reservation does, once there is room: it touches the client's record and counts itself.\<close>

lemma reserve_cases:
  assumes r: "reserve b ip now = (r, b')" and inv: "ban_inv (b, M)"
  obtains (full) b1 where "make_room b ip now = (False, b1)" "b' = b1" "r = Inl 503"
  | (entry) b1 rec b2 where "make_room b ip now = (True, b1)" "entry_record b1 ip now = (rec, b2)"
      "ban_inv (b2, M)" "map_of (clients b2) ip = Some rec" "bb_rule b2 = bb_rule b"
      "r = Inl 429 \<and> banned (touch rec (bb_rule b) now) (bb_rule b) (max now (cr_updated rec))
         \<and> b' = store_record b2 ip (touch rec (bb_rule b) now)
       \<or> r = Inl 503 \<and> in_flight rec = - 1 \<and> b' = store_record b2 ip (touch rec (bb_rule b) now)
       \<or> r = Inr (ip, generation rec) \<and> in_flight rec \<noteq> - 1
         \<and> \<not> banned (touch rec (bb_rule b) now) (bb_rule b) (max now (cr_updated rec))
         \<and> b' = store_record b2 ip ((touch rec (bb_rule b) now)\<lparr>in_flight := in_flight rec + 1\<rparr>)"
proof (cases "make_room b ip now")
  case (Pair ok b1)
  note mr = make_room_inv [OF Pair inv]
  show ?thesis
  proof (cases ok)
    case False
    then show ?thesis using r Pair full by (simp add: reserve_def)
  next
    case True
    obtain rec b2 where e: "entry_record b1 ip now = (rec, b2)" by fastforce
    note en = entry_record_inv [OF e mr(1) mr(4) [OF True]]
    show ?thesis
      using r Pair True e mr(2) en(1,2,3)
      by (intro entry [of b1 rec b2]) (auto simp: reserve_def Let_def split: if_splits)
  qed
qed

lemma reserve_inv:
  assumes r: "reserve b ip now = (r, b')" and inv: "ban_inv (b, M)"
  shows "ban_inv (b', case r of Inl _ \<Rightarrow> M | Inr l \<Rightarrow> add_mset l M)"
  using r inv
proof (cases rule: reserve_cases)
  case (full b1)
  then show ?thesis using make_room_inv(1) [OF full(1) inv] by simp
next
  case (entry b1 rec b2)
  note i = ban_invD [OF entry(3)]
  have kept: "ban_inv (store_record b2 ip (touch rec (bb_rule b) now), M)"
    using i entry(4) by (intro ban_inv_store [OF entry(3)]) auto
  have "ban_inv (store_record b2 ip ((touch rec (bb_rule b) now)\<lparr>in_flight := in_flight rec + 1\<rparr>),
      add_mset (ip, generation rec) M)" if "in_flight rec \<noteq> - 1"
    using i entry(4) unat_plus_one [OF that] by (intro ban_inv_store [OF entry(3)]) auto
  with kept entry(6) show ?thesis by auto
qed

lemma record_response_inv:
  assumes inv: "ban_inv (b, M)"
  shows "ban_inv (snd (record_response b l status now), M)"
proof (cases "map_of (clients b) (fst l)")
  case (Some rec)
  note i = ban_invD [OF inv]
  have t: "ban_inv (store_record b (fst l) rec', M)"
    if "generation rec' = generation rec" "in_flight rec' = in_flight rec" for rec'
    using i Some that by (intro ban_inv_store [OF inv]) auto
  have fresh: "count M (fst l, next_generation b) = 0"
    using i(3) [of "(fst l, next_generation b)"] by (auto simp: count_eq_zero_iff)
  have "ban_inv ((store_record b (fst l) rec')\<lparr>next_generation := next_generation b + 1\<rparr>, M)"
    if "generation rec' = next_generation b" "in_flight rec' = 0" for rec'
    using i Some that fresh store_record_distinct [OF i(1)]
    by (intro ban_invI) (auto simp: less_Suc_eq split: if_splits)
  then show ?thesis
    using t Some inv
    by (auto simp: record_response_def count_failure_def Let_def split: if_splits)
qed (use inv in \<open>simp add: record_response_def\<close>)

lemma drop_lease_inv:
  assumes inv: "ban_inv (b, M)" and l: "l \<in># M"
  shows "ban_inv (drop_lease b l, M - {#l#})"
    and "\<And>rec. map_of (clients b) (fst l) = Some rec \<Longrightarrow> generation rec = snd l \<Longrightarrow> 0 < unat (in_flight rec)"
proof -
  note i = ban_invD [OF inv]
  show pos: "0 < unat (in_flight rec)" if "map_of (clients b) (fst l) = Some rec" "generation rec = snd l" for rec
    using i(5) [OF that(1)] l that(2) by simp
  have bound: "\<And>k. k \<in># M - {#l#} \<Longrightarrow> snd k < next_generation b" using i(3) by (meson in_diffD)
  have same: "\<And>k. fst k \<noteq> fst l \<Longrightarrow> count (M - {#l#}) k = count M k" by auto
  have "ban_inv (b, M - {#l#})"
    if that': "\<And>rec. map_of (clients b) (fst l) = Some rec \<Longrightarrow> generation rec \<noteq> snd l"
  proof -
    have "count (M - {#l#}) (ip, generation rec) = count M (ip, generation rec)"
      if "map_of (clients b) ip = Some rec" for ip rec
      using that that' [of rec] by (cases "ip = fst l") (auto simp: prod_eq_iff)
    then show ?thesis using i bound by (intro ban_invI) auto
  qed
  moreover have "ban_inv (drop_lease b l, M - {#l#})"
    if some: "map_of (clients b) (fst l) = Some rec" and g: "generation rec = snd l" for rec
  proof -
    have "in_flight rec \<noteq> 0" using pos [OF some g] by auto
    then have "unat (in_flight rec - 1) = unat (in_flight rec) - 1" by (rule unat_minus_one)
    also have "\<dots> = count (M - {#l#}) (fst l, generation rec)" using i(5) [OF some] g by simp
    finally have "ban_inv (store_record b (fst l) (rec\<lparr>in_flight := in_flight rec - 1\<rparr>), M - {#l#})"
      using i some bound by (intro ban_inv_store [OF inv]) auto
    then show ?thesis
      using some g ban_inv_delete [OF inv same bound] by (simp add: drop_lease_def Let_def)
  qed
  ultimately show "ban_inv (drop_lease b l, M - {#l#})"
    by (cases "map_of (clients b) (fst l)") (auto simp: drop_lease_def Let_def)
qed

lemma ban_step_inv: "ban_step act s s' \<Longrightarrow> ban_inv s \<Longrightarrow> ban_inv s'"
proof (induction rule: ban_step.induct)
  case (cleared ip b M)
  then show ?case using ban_invD(3) by (auto simp: clear_client_def intro: ban_inv_delete)
qed (auto dest: reserve_inv intro: record_response_inv drop_lease_inv)

lemma ban_run_inv: "ban_run s acts t \<Longrightarrow> ban_inv s \<Longrightarrow> ban_inv t"
  by (induction rule: ban_run.induct) (auto intro: ban_step_inv)

section \<open>An active ban\<close>

text \<open>
  The record of \<open>ip\<close> carries a ban that started at \<open>t0\<close>, and nothing that touched it so far
  was sampled at or after its deadline.
\<close>

definition ban_active :: "ban_bucket \<Rightarrow> ip_addr \<Rightarrow> instant \<Rightarrow> bool" where
  "ban_active b ip t0 \<longleftrightarrow>
     (\<exists>rec. map_of (clients b) ip = Some rec \<and> banned_since rec = Some t0
        \<and> cr_updated rec < t0 + ban_seconds (bb_rule b) * NANOS)"

definition act_before :: "instant \<Rightarrow> ip_addr \<Rightarrow> ban_act \<Rightarrow> bool" where
  "act_before deadline ip act =
     (case act of
        AReserve _ now \<Rightarrow> now < deadline
      | ARecord _ _ now \<Rightarrow> now < deadline
      | ADrop _ \<Rightarrow> True
      | AClear ip' \<Rightarrow> ip' \<noteq> ip)"

lemma banned_before: "banned_since rec = Some t0 \<Longrightarrow> now < t0 + ban_seconds rule * NANOS
    \<Longrightarrow> 0 < ban_seconds rule \<Longrightarrow> banned rec rule now"
  by (simp add: banned_def)

lemma touch_banned:
  assumes "banned_since rec = Some t0" and "max now (cr_updated rec) < t0 + ban_seconds rule * NANOS"
    and "0 < ban_seconds rule"
  shows "banned_since (touch rec rule now) = Some t0"
    and "banned (touch rec rule now) rule (max now (cr_updated rec))"
proof -
  have "max now (cr_updated rec) - t0 < ban_seconds rule * NANOS" using assms(2,3) by linarith
  then show "banned_since (touch rec rule now) = Some t0"
    and "banned (touch rec rule now) rule (max now (cr_updated rec))"
    using assms(1) by (simp_all add: touch_def Let_def reset_expired_def banned_def)
qed

lemma reserve_banned:
  assumes "ban_active b ip t0" and "now < t0 + ban_seconds (bb_rule b) * NANOS" and "0 < ban_seconds (bb_rule b)"
    and inv: "ban_inv (b, M)" and r: "reserve b ip now = (r, b')"
  shows "r = Inl 429" "ban_active b' ip t0"
proof -
  obtain rec where rec: "map_of (clients b) ip = Some rec" "banned_since rec = Some t0"
    "max now (cr_updated rec) < t0 + ban_seconds (bb_rule b) * NANOS"
    using assms(1,2) by (auto simp: ban_active_def)
  note t = touch_banned [OF rec(2,3) assms(3)]
  have "make_room b ip now = (True, b)" "entry_record b ip now = (rec, b)"
    using rec(1) by (simp_all add: make_room_def entry_record_def)
  then have "r = Inl 429 \<and> b' = store_record b ip (touch rec (bb_rule b) now)"
    using r t(2) by (simp add: reserve_def Let_def)
  then show "r = Inl 429" "ban_active b' ip t0" using t(1) rec(3) by (simp_all add: ban_active_def)
qed

lemma reserve_other_banned:
  assumes act: "ban_active b ip t0" and now: "now < t0 + ban_seconds (bb_rule b) * NANOS"
    and pos: "0 < ban_seconds (bb_rule b)" and inv: "ban_inv (b, M)"
    and r: "reserve b ip' now = (r, b')" and ne: "ip' \<noteq> ip"
  shows "ban_active b' ip t0" "bb_rule b' = bb_rule b"
proof -
  obtain rec where rec: "map_of (clients b) ip = Some rec" "banned_since rec = Some t0"
    "cr_updated rec < t0 + ban_seconds (bb_rule b) * NANOS" using act by (auto simp: ban_active_def)
  have keep: "retained (bb_rule b) now rec" using banned_before [OF rec(2) now pos] by (simp add: retained_def)
  obtain ok b1 where m: "make_room b ip' now = (ok, b1)" by fastforce
  have b1: "map_of (clients b1) ip = Some rec" "bb_rule b1 = bb_rule b"
    using make_room_inv(2,6) [OF m inv] rec(1) keep by auto
  have "map_of (clients b') ip = Some rec \<and> bb_rule b' = bb_rule b"
    using r inv
  proof (cases rule: reserve_cases)
    case (full b1')
    then show ?thesis using m b1 by simp
  next
    case (entry b1' rec' b2)
    then have "map_of (clients b2) ip = Some rec"
      using entry_record_inv(4) [OF entry(2) make_room_inv(1) [OF entry(1) inv]
          make_room_inv(4) [OF entry(1) inv]] m b1(1) ne by auto
    then show ?thesis using entry(5,6) ne by auto
  qed
  then show "ban_active b' ip t0" "bb_rule b' = bb_rule b" using rec by (auto simp: ban_active_def)
qed

lemma record_banned:
  assumes act: "ban_active b ip t0" and now: "now < t0 + ban_seconds (bb_rule b) * NANOS"
    and pos: "0 < ban_seconds (bb_rule b)"
  shows "ban_active (snd (record_response b l status now)) ip t0"
proof -
  obtain rec where rec: "map_of (clients b) ip = Some rec" "banned_since rec = Some t0"
    "max now (cr_updated rec) < t0 + ban_seconds (bb_rule b) * NANOS"
    using act now by (auto simp: ban_active_def)
  note t = touch_banned [OF rec(2,3) pos]
  have [simp]: "clients (b\<lparr>next_generation := g\<rparr>) = clients b" for b :: ban_bucket and g by simp
  show ?thesis
  proof (cases "fst l = ip")
    case True
    then show ?thesis using act rec t by (auto simp: record_response_def Let_def ban_active_def)
  next
    case False
    then show ?thesis using act
      by (auto simp: record_response_def count_failure_def Let_def ban_active_def split: option.split)
  qed
qed

lemma drop_banned: "ban_active b ip t0 \<Longrightarrow> ban_active (drop_lease b l) ip t0"
  by (cases "fst l = ip") (auto simp: ban_active_def drop_lease_def Let_def delete_conv' split: option.split)

lemma bb_rule_keep [simp]:
  "bb_rule (snd (record_response b l status now)) = bb_rule b"
  "bb_rule (drop_lease b l) = bb_rule b"
  "bb_rule (snd (clear_client b ip)) = bb_rule b"
  by (simp_all add: record_response_def count_failure_def drop_lease_def clear_client_def Let_def
      split: option.split)

lemma reserve_rule:
  assumes "reserve b ip now = (r, b')" and "ban_inv (b, M)"
  shows "bb_rule b' = bb_rule b"
  using assms by (cases rule: reserve_cases) (auto dest: make_room_inv(2) [OF _ assms(2)])

lemma ban_step_active:
  assumes "ban_step act s s'" and "ban_inv s" and "ban_active (fst s) ip t0"
    and "act_before (t0 + ban_seconds (bb_rule (fst s)) * NANOS) ip act" and "0 < ban_seconds (bb_rule (fst s))"
  shows "ban_active (fst s') ip t0 \<and> bb_rule (fst s') = bb_rule (fst s)"
  using assms
proof (induction rule: ban_step.induct)
  case (reserve_ok b ip' now l b' M)
  then show ?case
    using reserve_banned(1) [of b ip t0 now M "Inr l" b'] reserve_other_banned [of b ip t0 now M ip' "Inr l" b']
    by (cases "ip' = ip") (auto simp: act_before_def)
next
  case (reserve_err b ip' now e b' M)
  then show ?case
    using reserve_banned(2) [of b ip t0 now M "Inl e" b'] reserve_other_banned [of b ip t0 now M ip' "Inl e" b']
      reserve_rule [of b ip' now "Inl e" b' M]
    by (cases "ip' = ip") (auto simp: act_before_def)
next
  case (cleared ip' b M)
  then show ?case by (auto simp: act_before_def clear_client_def ban_active_def delete_conv')
qed (auto simp: act_before_def record_banned drop_banned)

lemma ban_run_active:
  assumes "ban_run s acts t" and "ban_inv s" and "ban_active (fst s) ip t0"
    and "list_all (act_before (t0 + ban_seconds (bb_rule (fst s)) * NANOS) ip) acts"
    and "0 < ban_seconds (bb_rule (fst s))"
  shows "ban_active (fst t) ip t0 \<and> bb_rule (fst t) = bb_rule (fst s)"
  using assms
proof (induction rule: ban_run.induct)
  case (ban_run_snoc s acts t act u)
  then have "ban_active (fst t) ip t0" "bb_rule (fst t) = bb_rule (fst s)" "ban_inv t"
    using ban_run_inv by auto
  then show ?case using ban_step_active [OF ban_run_snoc.hyps(2)] ban_run_snoc.prems by auto
qed simp

lemma reserve_expired:
  assumes "ban_active b ip t0" and "t0 + ban_seconds (bb_rule b) * NANOS \<le> now"
  shows "fst (reserve b ip now) \<noteq> Inl 429"
proof -
  obtain rec where rec: "map_of (clients b) ip = Some rec" "banned_since rec = Some t0"
    using assms(1) by (auto simp: ban_active_def)
  have "\<not> max now (cr_updated rec) - t0 < ban_seconds (bb_rule b) * NANOS" using assms(2) by linarith
  then have "\<not> banned (touch rec (bb_rule b) now) (bb_rule b) t" for t
    using rec(2) by (simp add: touch_def Let_def reset_expired_def banned_def)
  moreover have "make_room b ip now = (True, b)" "entry_record b ip now = (rec, b)"
    using rec(1) by (simp_all add: make_room_def entry_record_def)
  ultimately show ?thesis by (simp add: reserve_def Let_def)
qed

lemma record_True_active:
  assumes "record_response b l status now = (True, b')" and "0 < ban_seconds (bb_rule b)"
  shows "\<exists>t0\<ge>now. ban_active b' (fst l) t0"
proof -
  obtain rec where "map_of (clients b) (fst l) = Some rec"
    and c: "count_failure b (fst l) (touch rec (bb_rule b) now) = (True, b')"
    using assms(1) by (auto simp: record_response_def Let_def split: option.splits if_splits)
  from c have "ban_active b' (fst l) (max now (cr_updated rec))"
    using assms(2) by (auto simp: count_failure_def Let_def ban_active_def split: if_splits)
  then show ?thesis by (intro exI [of _ "max now (cr_updated rec)"]) simp
qed

section \<open>Reaching the threshold\<close>

text \<open>Responses with the same lease and status, recorded at the given times.\<close>

fun responses :: "ban_bucket \<Rightarrow> lease \<Rightarrow> nat \<Rightarrow> instant list \<Rightarrow> bool list \<times> ban_bucket" where
  "responses b l status [] = ([], b)"
| "responses b l status (t # ts) =
     (case record_response b l status t of
        (hit, b1) \<Rightarrow> (case responses b1 l status ts of (hits, b2) \<Rightarrow> (hit # hits, b2)))"

lemma record_counts:
  assumes rec: "map_of (clients b) (fst l) = Some rec" "generation rec = snd l" "banned_since rec = None"
    and st: "status \<in> set (statuses (bb_rule b))" and upd: "cr_updated rec \<le> t"
    and live: "cr_failures rec = 0 \<or> t - window_started rec < br_window_seconds (bb_rule b) * NANOS"
    and room: "cr_failures rec + 1 < br_failures (bb_rule b)" "br_failures (bb_rule b) \<le> 1000"
  shows "\<exists>rec' b'. record_response b l status t = (False, b') \<and> map_of (clients b') (fst l) = Some rec'
    \<and> generation rec' = snd l \<and> banned_since rec' = None \<and> cr_updated rec' = t \<and> bb_rule b' = bb_rule b
    \<and> cr_failures rec' = cr_failures rec + 1
    \<and> window_started rec' = (if cr_failures rec = 0 then t else window_started rec)"
proof -
  have m: "max t (cr_updated rec) = t" using upd by simp
  have t: "banned_since (touch rec (bb_rule b) t) = None" "cr_failures (touch rec (bb_rule b) t) = cr_failures rec"
    "cr_failures rec \<noteq> 0 \<Longrightarrow> window_started (touch rec (bb_rule b) t) = window_started rec"
    using rec(3) live by (auto simp: touch_def Let_def m reset_expired_def window_live_def banned_def)
  have nb: "\<not> banned (touch rec (bb_rule b) t) (bb_rule b) t" using t(1) by (simp add: banned_def)
  show ?thesis
    using rec st nb t m room
    by (cases "cr_failures rec = 0") (auto simp: record_response_def Let_def count_failure_def min_def)
qed

lemma record_hits:
  assumes rec: "map_of (clients b) (fst l) = Some rec" "generation rec = snd l" "banned_since rec = None"
    and st: "status \<in> set (statuses (bb_rule b))" and upd: "cr_updated rec \<le> t"
    and live: "cr_failures rec = 0 \<or> t - window_started rec < br_window_seconds (bb_rule b) * NANOS"
    and full: "cr_failures rec + 1 = br_failures (bb_rule b)" "br_failures (bb_rule b) \<le> 1000"
  shows "fst (record_response b l status t)"
proof -
  have m: "max t (cr_updated rec) = t" using upd by simp
  have t: "banned_since (touch rec (bb_rule b) t) = None" "cr_failures (touch rec (bb_rule b) t) = cr_failures rec"
    using rec(3) live by (auto simp: touch_def Let_def m reset_expired_def window_live_def banned_def)
  have nb: "\<not> banned (touch rec (bb_rule b) t) (bb_rule b) t" using t(1) by (simp add: banned_def)
  show ?thesis
    using rec st nb t m full
    by (cases "cr_failures rec = 0") (auto simp: record_response_def Let_def count_failure_def min_def)
qed

lemma responses_hit:
  assumes "map_of (clients b) (fst l) = Some rec" "generation rec = snd l" "banned_since rec = None"
    and "status \<in> set (statuses (bb_rule b))" and "br_failures (bb_rule b) \<le> 1000"
    and "sorted (cr_updated rec # ts)" and "ts \<noteq> []"
    and "\<forall>t\<in>set ts. t - (if cr_failures rec = 0 then hd ts else window_started rec)
           < br_window_seconds (bb_rule b) * NANOS"
    and "cr_failures rec + length ts = br_failures (bb_rule b)"
  shows "fst (responses b l status ts) = replicate (length ts - 1) False @ [True]"
  using assms
proof (induction ts arbitrary: b rec)
  case (Cons t ts)
  have live: "cr_failures rec = 0 \<or> t - window_started rec < br_window_seconds (bb_rule b) * NANOS"
    using Cons.prems(8) by (auto split: if_splits)
  show ?case
  proof (cases "ts = []")
    case True
    then have "fst (record_response b l status t)"
      using Cons.prems by (intro record_hits [OF Cons.prems(1-4) _ live]) auto
    then show ?thesis using True by (auto split: prod.split)
  next
    case False
    then have "cr_failures rec + 1 < br_failures (bb_rule b)" using Cons.prems(9) by (cases ts) auto
    then obtain rec' b' where r: "record_response b l status t = (False, b')"
      "map_of (clients b') (fst l) = Some rec'" "generation rec' = snd l" "banned_since rec' = None"
      "cr_updated rec' = t" "bb_rule b' = bb_rule b" "cr_failures rec' = cr_failures rec + 1"
      "window_started rec' = (if cr_failures rec = 0 then t else window_started rec)"
      using record_counts [OF Cons.prems(1-4) _ live _ Cons.prems(5)] Cons.prems(6) by auto
    have "fst (responses b' l status ts) = replicate (length ts - 1) False @ [True]"
      using Cons.IH [OF r(2-4)] Cons.prems r False by (cases "cr_failures rec = 0") auto
    then show ?thesis using r(1) False by (cases ts) (auto split: prod.split)
  qed
qed simp

section \<open>Properties\<close>

text \<open>
  C19. Reservations are counted exactly: in every state a bucket reaches, at most 1024 clients
  are tracked, \<open>in_flight\<close> of a client is the number of outstanding leases of its current
  generation, and therefore the decrement of a dropped lease never wraps below zero.
\<close>

theorem ban_leases_counted:
  assumes "ban_run (new_ban_bucket rule, {#}) acts (b, M)"
  shows "length (clients b) \<le> MAX_CLIENTS
    \<and> (\<forall>ip rec. map_of (clients b) ip = Some rec \<longrightarrow> unat (in_flight rec) = count M (ip, generation rec))
    \<and> (\<forall>l rec. l \<in># M \<and> map_of (clients b) (fst l) = Some rec \<and> generation rec = snd l \<longrightarrow>
         unat (in_flight rec - 1) + 1 = unat (in_flight rec))"
proof -
  have inv: "ban_inv (b, M)" using ban_run_inv [OF assms new_bucket_inv] .
  have "unat (in_flight rec - 1) + 1 = unat (in_flight rec)"
    if "l \<in># M" "map_of (clients b) (fst l) = Some rec" "generation rec = snd l" for l rec
  proof -
    have "0 < unat (in_flight rec)" using drop_lease_inv(2) [OF inv that] .
    moreover from this have "in_flight rec \<noteq> 0" by auto
    ultimately show ?thesis using unat_minus_one [of "in_flight rec"] by simp
  qed
  then show ?thesis using ban_invD(2,5) [OF inv] by blast
qed

definition demo_ban_rule :: ban_rule where
  "demo_ban_rule = \<lparr>br_path = ''/login'', br_hosts = [], br_include_subpaths = False, br_failures = 2,
     br_window_seconds = 60, ban_seconds = 30, statuses = [401]\<rparr>"

lemma demo_reserve:
  "\<exists>b. reserve (new_ban_bucket demo_ban_rule) (V4 7) 5 = (Inr (V4 7, 0), b)"
  by (simp add: reserve_def make_room_def entry_record_def new_ban_bucket_def demo_ban_rule_def touch_def
      reset_expired_def fresh_record_def banned_def Let_def)

theorem ban_leases_counted_witness:
  "\<exists>b. reserve (new_ban_bucket demo_ban_rule) (V4 7) 5 = (Inr (V4 7, 0), b) \<and> length (clients b) \<le> MAX_CLIENTS"
proof -
  obtain b where b: "reserve (new_ban_bucket demo_ban_rule) (V4 7) 5 = (Inr (V4 7, 0), b)"
    using demo_reserve by blast
  have "ban_run (new_ban_bucket demo_ban_rule, {#}) ([] @ [AReserve (V4 7) 5]) (b, {#(V4 7, 0)#})"
    using b by (intro ban_run_snoc [OF ban_run_Nil] reserve_ok) 
  from ban_leases_counted [OF this] show ?thesis using b by blast
qed


text \<open>
  The threshold bans: that many failing responses of one generation inside one window
  report a ban exactly at the last of them.
\<close>

theorem ban_at_threshold:
  assumes "map_of (clients b) ip = Some rec" and "banned_since rec = None" and "cr_failures rec = 0"
    and "status \<in> set (statuses (bb_rule b))" and "br_failures (bb_rule b) \<le> 1000"
    and "sorted (cr_updated rec # ts)" and "length ts = br_failures (bb_rule b)" and "ts \<noteq> []"
    and "\<forall>t\<in>set ts. t - hd ts < br_window_seconds (bb_rule b) * NANOS"
  shows "fst (responses b (ip, generation rec) status ts) = replicate (length ts - 1) False @ [True]"
  using assms by (intro responses_hit) auto

definition demo_banning :: ban_bucket where
  "demo_banning = (new_ban_bucket demo_ban_rule)\<lparr>clients := [(V4 7, (fresh_record 0 5)\<lparr>in_flight := 1\<rparr>)],
     next_generation := 1\<rparr>"

lemmas demo_ban_simps = demo_banning_def new_ban_bucket_def demo_ban_rule_def fresh_record_def

theorem ban_at_threshold_witness:
  "fst (responses demo_banning (V4 7, 0) 401 [6, 9]) = [False, True]"
proof -
  have "map_of (clients demo_banning) (V4 7) = Some ((fresh_record 0 5)\<lparr>in_flight := 1\<rparr>)"
    by (simp add: demo_banning_def)
  from ban_at_threshold [OF this, of 401 "[6, 9]"] show ?thesis by (simp add: demo_ban_simps)
qed


end
