(* ===== verification/MemberAdmission.thy ===== *)
theory MemberAdmission
  imports Prelude
begin

text \<open>
  Activity counters that leases own: \<^verbatim>\<open>src/member_admission.rs\<close> (the admission gate of a backend
  generation), \<^verbatim>\<open>src/admission.rs\<close> (the in-flight count of a route) and the stream counter of
  \<^verbatim>\<open>src/tcp_member.rs\<close>. Every operation is one atomic read-modify-write of a 64-bit word, so a
  concurrent execution is a sequence of these operations.
\<close>

section \<open>The interface of a lease counter\<close>

text \<open>
  Runs of a counter: a state and the number of leases outstanding. A lease is released at most
  once, when it is dropped.
\<close>

inductive lease_run ::
  "('g \<Rightarrow> 'g option) \<Rightarrow> ('g \<Rightarrow> 'g option) \<Rightarrow> 'g \<times> nat \<Rightarrow> 'g \<times> nat \<Rightarrow> bool"
  for try_acquire release where
  lease_start: "lease_run try_acquire release s s"
| lease_acquire: "lease_run try_acquire release s (g, n) \<Longrightarrow> try_acquire g = Some g'
    \<Longrightarrow> lease_run try_acquire release s (g', Suc n)"
| lease_release: "lease_run try_acquire release s (g, Suc n) \<Longrightarrow> release g = Some g'
    \<Longrightarrow> lease_run try_acquire release s (g', n)"

locale lease_counter =
  fixes active :: "'g \<Rightarrow> nat" and try_acquire :: "'g \<Rightarrow> 'g option" and release :: "'g \<Rightarrow> 'g option"
  assumes acquire_active: "try_acquire g = Some g' \<Longrightarrow> active g' = active g + 1"
    and release_active: "0 < active g \<Longrightarrow> \<exists>g'. release g = Some g' \<and> active g' = active g - 1"
begin

lemma lease_run_active:
  "lease_run try_acquire release s t \<Longrightarrow> active (fst s) = snd s \<Longrightarrow> active (fst t) = snd t"
proof (induction rule: lease_run.induct)
  case (lease_release s g n g')
  then show ?case using release_active [of g] by auto
qed (simp_all add: acquire_active)

lemma outstanding_releases: "active g = Suc n \<Longrightarrow> \<exists>g'. release g = Some g' \<and> active g' = n"
  using release_active [of g] by simp

end

text \<open>
  An admission gate is a lease counter that can be closed: retirement is final, keeps the
  count, and a closed gate admits nobody. Only a gate that was never open can be activated.
\<close>

inductive gate_run ::
  "('g \<Rightarrow> 'g option) \<Rightarrow> ('g \<Rightarrow> 'g option) \<Rightarrow> ('g \<Rightarrow> 'g) \<Rightarrow> ('g \<Rightarrow> bool \<times> 'g) \<Rightarrow> 'g \<times> nat \<Rightarrow> 'g \<times> nat \<Rightarrow> bool"
  for try_acquire release retire activate where
  gate_start: "gate_run try_acquire release retire activate s s"
| gate_acquire: "gate_run try_acquire release retire activate s (g, n) \<Longrightarrow> try_acquire g = Some g'
    \<Longrightarrow> gate_run try_acquire release retire activate s (g', Suc n)"
| gate_release: "gate_run try_acquire release retire activate s (g, Suc n) \<Longrightarrow> release g = Some g'
    \<Longrightarrow> gate_run try_acquire release retire activate s (g', n)"
| gate_retire: "gate_run try_acquire release retire activate s (g, n)
    \<Longrightarrow> gate_run try_acquire release retire activate s (retire g, n)"
| gate_activate: "gate_run try_acquire release retire activate s (g, n)
    \<Longrightarrow> gate_run try_acquire release retire activate s (snd (activate g), n)"

locale admission_gate = lease_counter +
  fixes is_open retired :: "'a \<Rightarrow> bool" and retire :: "'a \<Rightarrow> 'a" and activate :: "'a \<Rightarrow> bool \<times> 'a"
  assumes retired_closed: "retired g \<Longrightarrow> \<not> is_open g"
    and closed_refuses: "\<not> is_open g \<Longrightarrow> try_acquire g = None"
    and retire_retired: "retired (retire g)" and retire_active: "active (retire g) = active g"
    and release_retired: "release g = Some g' \<Longrightarrow> retired g' = retired g"
    and activate_retired: "retired g \<Longrightarrow> activate g = (False, g)"
    and activate_active: "active (snd (activate g)) = active g"
begin

lemma gate_run_active:
  "gate_run try_acquire release retire activate s t \<Longrightarrow> active (fst s) = snd s \<Longrightarrow> active (fst t) = snd t"
proof (induction rule: gate_run.induct)
  case (gate_release s g n g')
  then show ?case using release_active [of g] by auto
qed (simp_all add: acquire_active retire_active activate_active)

lemma gate_run_retired:
  "gate_run try_acquire release retire activate s t \<Longrightarrow> retired (fst s) \<Longrightarrow>
   retired (fst t) \<and> snd t \<le> snd s"
proof (induction rule: gate_run.induct)
  case (gate_acquire s g n g')
  then show ?case using closed_refuses [OF retired_closed, of g] by simp
qed (auto simp: retire_retired activate_retired dest: release_retired)

end

section \<open>member\_admission.rs\<close>

definition RETIRED :: u64 where "RETIRED = push_bit 63 1"
definition PENDING :: u64 where "PENDING = push_bit 62 1"
definition COUNT :: u64 where "COUNT = PENDING - 1"

definition adm_prepared :: u64 where "adm_prepared = PENDING"
definition adm_serving :: u64 where "adm_serving = 0"

definition adm_is_open :: "u64 \<Rightarrow> bool" where
  "adm_is_open state \<longleftrightarrow> state AND (PENDING OR RETIRED) = 0"

definition adm_active :: "u64 \<Rightarrow> nat" where
  "adm_active state = unat (state AND COUNT)"

definition adm_activate :: "u64 \<Rightarrow> bool \<times> u64" where
  "adm_activate state = (if state = PENDING then (True, 0) else (False, state))"

definition adm_retire :: "u64 \<Rightarrow> u64" where
  "adm_retire state = state OR RETIRED"

definition adm_acquire :: "u64 \<Rightarrow> u64 option" where
  "adm_acquire state =
     (if state AND (PENDING OR RETIRED) = 0 \<and> state AND COUNT < COUNT then Some (state + 1) else None)"

text \<open>\<^term>\<open>None\<close> is the panic of the \<^verbatim>\<open>expect\<close>.\<close>

definition adm_release :: "u64 \<Rightarrow> u64 option" where
  "adm_release state = (if state AND COUNT \<noteq> 0 then Some (state - 1) else None)"

subsection \<open>The word as a count and two flags\<close>

lemma COUNT_mask: "COUNT = mask 62"
  by (simp add: COUNT_def PENDING_def mask_eq_exp_minus_1 push_bit_eq_mult)

lemma adm_active_mod: "adm_active state = unat state mod 2 ^ 62"
  unfolding adm_active_def COUNT_mask take_bit_eq_mask [symmetric] unsigned_take_bit_eq
  by (simp add: take_bit_eq_mod)

lemma adm_is_open_bits: "adm_is_open state \<longleftrightarrow> \<not> bit state 62 \<and> \<not> bit state 63"
proof -
  have "state AND (PENDING OR RETIRED) = 0 \<longleftrightarrow> (\<forall>n<64. \<not> (bit state n \<and> (n = 62 \<or> n = 63)))"
    by (auto simp: bit_eq_iff [of _ "0 :: u64"] bit_and_iff bit_or_iff PENDING_def RETIRED_def bit_one_at
        simp del: push_bit_of_1)
  then show ?thesis by (auto simp: adm_is_open_def dest: spec [of _ 62] spec [of _ 63])
qed

lemma bit_unat: "bit (w :: u64) n \<longleftrightarrow> odd (unat w div 2 ^ n)"
proof -
  have "bit w n \<longleftrightarrow> bit (unat w) n" by (simp add: bit_unsigned_iff)
  then show ?thesis by (simp add: bit_iff_odd)
qed

lemma adm_is_open_iff: "adm_is_open state \<longleftrightarrow> unat state < 2 ^ 62"
proof -
  have "unat state < 2 ^ 64" using unsigned_less [of state] by simp
  then have "unat state div 2 ^ 62 < 4" "unat state div 2 ^ 63 = unat state div 2 ^ 62 div 2"
    by (simp_all add: div_mult2_eq [symmetric])
  then have "\<not> bit state 62 \<and> \<not> bit state 63 \<longleftrightarrow> unat state div 2 ^ 62 = 0"
    unfolding bit_unat by (auto simp: elim!: evenE)
  then show ?thesis by (simp add: adm_is_open_bits div_eq_0_iff)
qed

lemma unat_COUNT: "unat COUNT = 2 ^ 62 - 1"
  by (simp add: COUNT_def PENDING_def push_bit_eq_mult)

lemma adm_acquire_iff: "adm_acquire state = (if unat state < 2 ^ 62 - 1 then Some (state + 1) else None)"
proof -
  have "state AND COUNT < COUNT \<longleftrightarrow> unat state mod 2 ^ 62 < 2 ^ 62 - 1"
    by (simp add: word_less_nat_alt unat_COUNT adm_active_def [symmetric] adm_active_mod)
  moreover have "state AND (PENDING OR RETIRED) = 0 \<longleftrightarrow> unat state < 2 ^ 62"
    using adm_is_open_iff by (simp add: adm_is_open_def)
  ultimately show ?thesis by (auto simp: adm_acquire_def)
qed

lemma adm_release_iff: "adm_release state = (if adm_active state = 0 then None else Some (state - 1))"
  by (simp add: adm_release_def adm_active_def unat_eq_0)

definition adm_retired :: "u64 \<Rightarrow> bool" where
  "adm_retired state \<longleftrightarrow> bit state 63"

lemma adm_release_parts:
  assumes "adm_active state \<noteq> 0"
  shows "adm_active (state - 1) = adm_active state - 1" "unat (state - 1) div 2 ^ 62 = unat state div 2 ^ 62"
proof -
  have ne: "state \<noteq> 0" using assms by (auto simp: adm_active_mod)
  have "unat (state - 1) = unat state - 1" using ne by (rule unat_minus_one)
  moreover have "unat state = unat state div 2 ^ 62 * 2 ^ 62 + adm_active state"
    by (simp add: adm_active_mod)
  moreover have "adm_active state < 2 ^ 62" by (simp add: adm_active_mod)
  ultimately have e: "unat (state - 1) = unat state div 2 ^ 62 * 2 ^ 62 + (adm_active state - 1)"
    and l: "adm_active state - 1 < 2 ^ 62" using assms by linarith+
  show "adm_active (state - 1) = adm_active state - 1" "unat (state - 1) div 2 ^ 62 = unat state div 2 ^ 62"
    using l unfolding adm_active_mod [of "state - 1"] e by simp_all
qed

lemma bit63: "bit (w :: u64) 63 \<longleftrightarrow> odd (unat w div 2 ^ 62 div 2)"
  by (simp add: bit_unat div_mult2_eq [symmetric])

lemma adm_retire_parts:
  "adm_active (adm_retire state) = adm_active state" "adm_retired (adm_retire state)"
proof -
  have "take_bit 62 (state OR RETIRED) = take_bit 62 state"
    by (rule bit_word_eqI) (auto simp: bit_take_bit_iff bit_or_iff RETIRED_def bit_one_at simp del: push_bit_of_1)
  then show "adm_active (adm_retire state) = adm_active state"
    by (simp add: adm_active_def adm_retire_def COUNT_mask take_bit_eq_mask [symmetric])
  show "adm_retired (adm_retire state)"
    by (simp add: adm_retired_def adm_retire_def bit_or_iff RETIRED_def bit_one_at del: push_bit_of_1)
qed

lemma PENDING_parts: "adm_active PENDING = 0" "\<not> adm_retired PENDING"
  by (simp_all add: adm_active_mod adm_retired_def PENDING_def bit_one_at push_bit_eq_mult)

interpretation gate: admission_gate adm_active adm_acquire adm_release adm_is_open adm_retired adm_retire adm_activate
proof
  show "adm_active g' = adm_active g + 1" if "adm_acquire g = Some g'" for g g'
  proof -
    have "unat g < 2 ^ 62 - 1" "g' = g + 1" using that by (auto simp: adm_acquire_iff split: if_splits)
    moreover from this(1) have "g \<noteq> - 1" using unat_minus_one_w64 by auto
    ultimately show ?thesis using unat_plus_one [of g] by (simp add: adm_active_mod)
  qed
  show "\<exists>g'. adm_release g = Some g' \<and> adm_active g' = adm_active g - 1" if "0 < adm_active g" for g
    using that adm_release_parts(1) by (simp add: adm_release_iff)
  show "\<not> adm_is_open g" if "adm_retired g" for g using that by (simp add: adm_retired_def adm_is_open_bits)
  show "adm_acquire g = None" if "\<not> adm_is_open g" for g
    using that by (simp add: adm_acquire_def adm_is_open_def)
  show "adm_retired g' = adm_retired g" if "adm_release g = Some g'" for g g'
    using that adm_release_parts(2) [of g] by (auto simp: adm_release_iff adm_retired_def bit63 split: if_splits)
  show "adm_activate g = (False, g)" if "adm_retired g" for g
    using that PENDING_parts(2) by (auto simp: adm_activate_def)
  show "adm_active (snd (adm_activate g)) = adm_active g" for g
    using PENDING_parts(1) by (simp add: adm_activate_def adm_active_mod)
qed (rule adm_retire_parts)+

lemma fresh_gates: "adm_active adm_prepared = 0" "adm_active adm_serving = 0"
  by (simp_all only: adm_prepared_def adm_serving_def PENDING_parts) (simp add: adm_active_mod)

text \<open>
  C22. The count of a member gate is exact and its retirement is final. From a fresh gate
  (prepared or serving), after any interleaving of acquisitions, lease drops, activations and
  retirements the gate counts the outstanding leases; and once it has been retired, whatever
  happens next, it stays closed, admits nobody, its outstanding leases can only decrease, and
  dropping any of them never panics.
\<close>

theorem member_gate_exact:
  assumes "s \<in> {adm_prepared, adm_serving}"
    and "gate_run adm_acquire adm_release adm_retire adm_activate (s, 0) (t, n)"
    and "gate_run adm_acquire adm_release adm_retire adm_activate (adm_retire t, n) (u, m)"
  shows "adm_active t = n \<and> adm_active u = m \<and> m \<le> n \<and> \<not> adm_is_open u \<and> adm_acquire u = None \<and>
    (adm_release u = None) = (m = 0)"
proof -
  have t: "adm_active t = n" using gate.gate_run_active [OF assms(2)] assms(1) fresh_gates by auto
  have u: "adm_active u = m" using gate.gate_run_active [OF assms(3)] t by (simp add: adm_retire_parts)
  have r: "adm_retired u" "m \<le> n"
    using gate.gate_run_retired [OF assms(3)] by (simp_all add: adm_retire_parts)
  show ?thesis using t u r gate.retired_closed gate.closed_refuses by (simp add: adm_release_iff)
qed

theorem member_gate_exact_witness:
  "adm_active 2 = 2 \<and> adm_active (adm_retire 2 - 1) = 1 \<and> adm_acquire (adm_retire 2 - 1) = None"
proof -
  have "adm_acquire adm_serving = Some 1" "adm_acquire 1 = Some 2"
    by (simp_all add: adm_acquire_iff adm_serving_def)
  then have a: "gate_run adm_acquire adm_release adm_retire adm_activate (adm_serving, 0) (2, 2)"
    using gate_acquire [OF gate_acquire [OF gate_start]] by (simp add: numeral_2_eq_2)
  have "adm_active (adm_retire 2) = 2" by (simp only: adm_retire_parts) (simp add: adm_active_mod)
  then have b: "gate_run adm_acquire adm_release adm_retire adm_activate (adm_retire 2, 2) (adm_retire 2 - 1, 1)"
    using gate_release [OF gate_start [of _ _ _ _ "(adm_retire 2, Suc 1)"], of adm_release "adm_retire 2 - 1"]
    by (simp add: adm_release_iff numeral_2_eq_2)
  show ?thesis using member_gate_exact [OF _ a b] by simp
qed

end
