(* ===== verification/RouteAdmission.thy ===== *)
theory RouteAdmission
  imports MemberAdmission
begin

text \<open>
  The per-route in-flight counter of \<^verbatim>\<open>src/src/admission.rs\<close>. A lease is an
  \<^verbatim>\<open>Arc\<close> that a request and its streams may clone; the counter is decremented when the
  last clone goes away. A run of the component is the counter with the strong count of every
  lease ever handed out.
\<close>

definition acquire :: "u64 \<Rightarrow> u64 option \<Rightarrow> (string + unit option) \<times> u64" where
  "acquire counter limit = (case limit of
     None \<Rightarrow> (Inr None, counter)
   | Some limit \<Rightarrow>
       if counter < limit then (Inr (Some ()), counter + 1)
       else (Inl ''route capacity exhausted'', counter))"

definition drop_inner :: "u64 \<Rightarrow> u64" where
  "drop_inner counter = counter - 1"

definition try_acquire :: "u64 option \<Rightarrow> u64 \<Rightarrow> u64 option" where
  "try_acquire limit counter = (case acquire counter limit of (Inr (Some u), counter) \<Rightarrow> Some counter | _ \<Rightarrow> None)"

lemma try_acquire_iff:
  "try_acquire limit counter = (case limit of None \<Rightarrow> None
     | Some limit \<Rightarrow> if counter < limit then Some (counter + 1) else None)"
  by (simp add: try_acquire_def acquire_def split: option.splits)

lemma unat_below: "(counter :: u64) < limit \<Longrightarrow> unat (counter + 1) = unat counter + 1"
  using unat_plus_one [of counter] by (cases "counter = - 1") simp_all

interpretation route: lease_counter unat "try_acquire limit" "\<lambda>counter. Some (drop_inner counter)" for limit
proof
  show "unat g' = unat g + 1" if "try_acquire limit g = Some g'" for g g'
    using that by (auto simp: try_acquire_iff unat_below split: option.splits if_splits)
  show "\<exists>g'. Some (drop_inner g) = Some g' \<and> unat g' = unat g - 1" if "0 < unat g" for g
    using that unat_minus_one [of g] by (cases "g = 0") (simp_all add: drop_inner_def)
qed

section \<open>Leases and their clones\<close>

record route_state =
  counter :: u64
  leases :: "nat list"

datatype route_op = Acquire "u64 option" | Clone nat | Drop nat

text \<open>
  \<^verbatim>\<open>Clone\<close> and \<^verbatim>\<open>Drop\<close> name a lease by its index; an owner exists only while its
  strong count is positive, so an operation on a lease without owners is not a step.
\<close>

fun route_step :: "route_op \<Rightarrow> route_state \<Rightarrow> route_state" where
  "route_step (Acquire limit) s = (case acquire (counter s) limit of
     (Inr (Some u), c) \<Rightarrow> s\<lparr>counter := c, leases := leases s @ [1]\<rparr>
   | (_, c) \<Rightarrow> s\<lparr>counter := c\<rparr>)"
| "route_step (Clone i) s =
    (if i < length (leases s) \<and> 0 < leases s ! i then s\<lparr>leases := (leases s)[i := leases s ! i + 1]\<rparr> else s)"
| "route_step (Drop i) s =
    (if i < length (leases s) \<and> 0 < leases s ! i then
       s\<lparr>leases := (leases s)[i := leases s ! i - 1],
         counter := (if leases s ! i = 1 then drop_inner (counter s) else counter s)\<rparr>
     else s)"

definition live :: "nat list \<Rightarrow> nat" where
  "live ls = length (filter (\<lambda>n. 0 < n) ls)"

lemma live_update:
  assumes "i < length ls"
  shows "live (ls[i := n]) + (if 0 < ls ! i then 1 else 0) = live ls + (if 0 < n then 1 else 0)"
  using assms
proof (induction ls arbitrary: i)
  case (Cons a ls)
  then show ?case by (cases i) (auto simp: live_def dest: Cons.IH [unfolded live_def])
qed simp

lemma live_simps [simp]: "live [] = 0" "live (ls @ [n]) = live ls + (if 0 < n then 1 else 0)"
  by (simp_all add: live_def)

lemma route_step_counts:
  assumes "unat (counter s) = live (leases s)"
  shows "unat (counter (route_step op s)) = live (leases (route_step op s))"
proof (cases op)
  case (Acquire limit)
  then show ?thesis using assms by (auto simp: acquire_def unat_below split: option.splits)
next
  case (Clone i)
  then show ?thesis using assms live_update [of i "leases s" "leases s ! i + 1"] by auto
next
  case (Drop i)
  show ?thesis
  proof (cases "i < length (leases s) \<and> 0 < leases s ! i")
    case True
    then have u: "live ((leases s)[i := leases s ! i - 1]) + 1 = live (leases s) + (if leases s ! i = 1 then 0 else 1)"
      using live_update [of i "leases s" "leases s ! i - 1"] by auto
    then have "leases s ! i = 1 \<Longrightarrow> counter s \<noteq> 0" using assms by auto
    then show ?thesis using True Drop assms u unat_minus_one [of "counter s"] by (auto simp: drop_inner_def)
  qed (use Drop assms in auto)
qed

lemma route_step_bound:
  assumes "unat (counter s) = live (leases s)" "counter s \<le> L" "\<And>l. op = Acquire (Some l) \<Longrightarrow> l \<le> L"
  shows "counter (route_step op s) \<le> L"
proof (cases op)
  case (Acquire limit)
  then show ?thesis using assms by (auto simp: acquire_def inc_le split: option.splits)
next
  case (Drop i)
  have "counter s - 1 \<le> L" if "i < length (leases s)" "leases s ! i = 1"
  proof -
    have "0 < live (leases s)" using live_update [of i "leases s" 0] that by simp
    then have "counter s \<noteq> 0" using assms(1) by auto
    then have "unat (counter s - 1) = unat (counter s) - 1" by (rule unat_minus_one)
    then show ?thesis using assms(2) by (simp add: word_le_nat_alt)
  qed
  then show ?thesis using Drop assms(2) by (simp add: drop_inner_def)
qed (use assms in auto)

text \<open>
  The in-flight count of a route. However acquisitions (with whatever limits successive
  configurations set), lease clones and drops interleave, the counter is the number of leases
  that still have an owner, and it never exceeds the largest limit in force; in particular a
  route whose limit is reached refuses until some lease loses its last owner.
\<close>

theorem route_in_flight_bound:
  assumes "\<And>l. Acquire (Some l) \<in> set ops \<Longrightarrow> l \<le> L"
  shows "let s = fold route_step ops \<lparr>counter = 0, leases = []\<rparr> in
    unat (counter s) = live (leases s) \<and> counter s \<le> L \<and>
    fst (acquire (counter s) (Some L)) = (if live (leases s) < unat L then Inr (Some ()) else Inl ''route capacity exhausted'')"
proof -
  have "unat (counter (fold route_step ops s)) = live (leases (fold route_step ops s)) \<and> counter (fold route_step ops s) \<le> L"
    if "unat (counter s) = live (leases s)" "counter s \<le> L" for s
    using assms that
  proof (induction ops arbitrary: s)
    case (Cons op ops)
    have "counter (route_step op s) \<le> L" using Cons.prems by (intro route_step_bound) auto
    then show ?case using Cons.IH [OF _ route_step_counts] Cons.prems by simp
  qed simp
  then show ?thesis by (simp add: Let_def acquire_def word_less_nat_alt)
qed

theorem route_in_flight_bound_witness:
  "let s = fold route_step [Acquire (Some 1), Clone 0, Drop 0, Acquire (Some 1)] \<lparr>counter = 0, leases = []\<rparr> in
    unat (counter s) = 1 \<and> leases s = [1] \<and> fst (acquire (counter s) (Some 1)) = Inl ''route capacity exhausted''"
  using route_in_flight_bound [of "[Acquire (Some 1), Clone 0, Drop 0, Acquire (Some 1)]" 1]
  by (simp add: acquire_def Let_def live_def)

end
