(* ===== verification/PoolMember.thy ===== *)
theory PoolMember
  imports Prelude
begin

text \<open>
  The members of a backend pool (\<^verbatim>\<open>src/src/pool_member.rs\<close>): a legacy address or a named
  member with its weight and desired state, and the validation of a whole pool. A
  \<^verbatim>\<open>u16\<close> weight is a natural number; every weight that is compared with another has been
  checked to be in 1..1000.
\<close>

datatype DesiredState = Serving | Draining | Maintenance

record PoolMember =
  member_id :: string
  member_address :: string
  member_weight :: nat
  member_desired_state :: DesiredState

datatype Backend = Legacy string | Member PoolMember

datatype BackendKind = LegacyKind | NamedKind

fun address :: "Backend \<Rightarrow> string" where
  "address (Legacy a) = a"
| "address (Member m) = member_address m"

fun backend_id :: "Backend \<Rightarrow> string option" where
  "backend_id (Legacy _) = None"
| "backend_id (Member m) = Some (member_id m)"

fun desired_state :: "Backend \<Rightarrow> DesiredState" where
  "desired_state (Legacy _) = Serving"
| "desired_state (Member m) = member_desired_state m"

fun backend_weight :: "Backend \<Rightarrow> nat" where
  "backend_weight (Legacy _) = 1"
| "backend_weight (Member m) = member_weight m"

definition default_weight :: nat where
  "default_weight = 1"

definition deserialize_weight :: "nat \<Rightarrow> string + nat" where
  "deserialize_weight weight =
     (if \<not> (1 \<le> weight \<and> weight \<le> 1000) then Inl ''pool member weight must be 1..1000'' else Inr weight)"

definition is_default_weight :: "nat \<Rightarrow> bool" where
  "is_default_weight weight \<longleftrightarrow> weight = 1"

definition is_serving :: "DesiredState \<Rightarrow> bool" where
  "is_serving state \<longleftrightarrow> state = Serving"

definition member_id_message :: string where
  "member_id_message = ''pool member id must be 1..64 ASCII bytes using A-Z, a-z, 0-9, '' @
     [CHR 0x27] @ ''.'' @ [CHR 0x27] @ '', '' @ [CHR 0x27] @ ''_'' @ [CHR 0x27] @ '' or '' @
     [CHR 0x27] @ ''-'' @ [CHR 0x27] @ '' and start with a letter or digit''"

definition validate_member_id :: "string \<Rightarrow> string + unit" where
  "validate_member_id v =
     ensure (1 \<le> length v \<and> length v \<le> 64 \<and> is_ascii_alphanumeric (hd v) \<and>
         list_all (\<lambda>b. is_ascii_alphanumeric b \<or> b \<in> {CHR ''.'', CHR ''_'', CHR ''-''}) (tl v))
       member_id_message"

definition member_validate :: "PoolMember \<Rightarrow> string + unit" where
  "member_validate m = first_error
     [validate_member_id (member_id m),
      ensure (member_address m \<noteq> [] \<and> str_is_trimmed (member_address m))
        ''pool member address must be nonempty without surrounding whitespace'',
      ensure (1 \<le> member_weight m \<and> member_weight m \<le> 1000) ''pool member weight must be 1..1000'']"

text \<open>The loop over the members of a named pool, with the ids and addresses seen so far.\<close>

definition check_member :: "string set \<times> string set \<Rightarrow> Backend \<Rightarrow> string + (string set \<times> string set)" where
  "check_member seen backend = (case backend of
     Legacy _ \<Rightarrow> Inl ''pool cannot mix string and object backends''
   | Member m \<Rightarrow>
       res_bind (member_validate m) (\<lambda>_.
         if member_id m \<in> fst seen then Inl ''duplicate pool member id''
         else if member_address m \<in> snd seen then Inl ''duplicate pool member address''
         else Inr (insert (member_id m) (fst seen), insert (member_address m) (snd seen))))"

fun is_legacy :: "Backend \<Rightarrow> bool" where
  "is_legacy (Legacy _) = True"
| "is_legacy (Member _) = False"

definition validate_backends :: "Backend list \<Rightarrow> nat list \<Rightarrow> string + BackendKind" where
  "validate_backends backends legacy_weights =
     (if \<not> (1 \<le> length backends \<and> length backends \<le> 128) then Inl ''pool needs 1..128 backends''
      else case hd backends of
        Legacy _ \<Rightarrow>
          res_bind (first_error
            [ensure (list_all is_legacy backends) ''pool cannot mix string and object backends'',
             ensure (legacy_weights = [] \<or> length legacy_weights = length backends)
               ''legacy weights must match backend count'',
             ensure (list_all (\<lambda>w. 1 \<le> w \<and> w \<le> 1000) legacy_weights)
               ''legacy backend weights must be 1..1000''])
            (\<lambda>_. Inr LegacyKind)
      | Member _ \<Rightarrow>
          if legacy_weights \<noteq> [] then Inl ''object backend weights conflict with balance.weights''
          else res_bind (try_fold check_member ({}, {}) backends) (\<lambda>_. Inr NamedKind))"

section \<open>What a validated pool is\<close>

fun the_member :: "Backend \<Rightarrow> PoolMember" where
  "the_member (Member m) = m"
| "the_member (Legacy a) = \<lparr>member_id = [], member_address = a, member_weight = 1, member_desired_state = Serving\<rparr>"

lemma named_member: "\<not> is_legacy b \<Longrightarrow> Member (the_member b) = b" "\<not> is_legacy b \<Longrightarrow> backend_id b = Some (member_id (the_member b))"
  by (cases b; simp)+

lemma named_iff: "(\<exists>ms. bs = map Member ms \<and> P ms) \<longleftrightarrow> list_all (\<lambda>b. \<not> is_legacy b) bs \<and> P (map the_member bs)"
proof
  assume "\<exists>ms. bs = map Member ms \<and> P ms"
  then obtain ms where ms: "bs = map Member ms" "P ms" by blast
  then have "map the_member bs = ms" by (simp add: map_idI)
  then show "list_all (\<lambda>b. \<not> is_legacy b) bs \<and> P (map the_member bs)" using ms by (simp add: list_all_iff)
next
  assume n: "list_all (\<lambda>b. \<not> is_legacy b) bs \<and> P (map the_member bs)"
  then have "bs = map Member (map the_member bs)"
    by (intro nth_equalityI) (simp_all add: list_all_length named_member)
  then show "\<exists>ms. bs = map Member ms \<and> P ms" using n by (intro exI [of _ "map the_member bs"]) simp
qed

lemma check_member_named:
  "check_member seen (Member m) = Inr s \<longleftrightarrow> member_validate m = Inr () \<and> member_id m \<notin> fst seen \<and>
     member_address m \<notin> snd seen \<and> s = (insert (member_id m) (fst seen), insert (member_address m) (snd seen))"
  by (cases "member_validate m") (simp_all add: check_member_def eq_commute [of s])

lemma try_fold_Cons_Inr: "try_fold f s (x # xs) = Inr t \<longleftrightarrow> (\<exists>u. f s x = Inr u \<and> try_fold f u xs = Inr t)"
  by (auto split: sum.splits)

lemma check_members_Inr:
  "(\<exists>s. try_fold check_member seen bs = Inr s) \<longleftrightarrow> list_all (\<lambda>b. \<not> is_legacy b) bs \<and>
     list_all (\<lambda>m. member_validate m = Inr ()) (map the_member bs) \<and>
     distinct (map member_id (map the_member bs)) \<and> distinct (map member_address (map the_member bs)) \<and>
     fst seen \<inter> set (map member_id (map the_member bs)) = {} \<and>
     snd seen \<inter> set (map member_address (map the_member bs)) = {}"
proof (induction bs arbitrary: seen)
  case (Cons b bs)
  show ?case
  proof (cases b)
    case (Member m)
    have "(\<exists>s. try_fold check_member seen (b # bs) = Inr s) \<longleftrightarrow>
      member_validate m = Inr () \<and> member_id m \<notin> fst seen \<and> member_address m \<notin> snd seen \<and>
      (\<exists>s. try_fold check_member (insert (member_id m) (fst seen), insert (member_address m) (snd seen)) bs = Inr s)"
      unfolding Member try_fold_Cons_Inr check_member_named by blast
    then show ?thesis unfolding Cons.IH using Member by auto
  qed (simp add: check_member_def)
qed simp

lemma map_Member_legacy: "list_all is_legacy bs \<longleftrightarrow> (\<exists>as. bs = map Legacy as)"
proof
  show "list_all is_legacy bs \<Longrightarrow> \<exists>as. bs = map Legacy as"
  proof (induction bs)
    case (Cons b bs)
    then obtain a as where "b = Legacy a" "bs = map Legacy as" by (cases b) auto
    then show ?case by (intro exI [of _ "a # as"]) simp
  qed simp
qed (auto simp: list_all_iff)

lemma validate_backends_legacy:
  "hd backends = Legacy a \<Longrightarrow> validate_backends backends ws = Inr kind \<longleftrightarrow>
     1 \<le> length backends \<and> length backends \<le> 128 \<and> kind = LegacyKind \<and> list_all is_legacy backends \<and>
     (ws = [] \<or> length ws = length backends) \<and> list_all (\<lambda>w. 1 \<le> w \<and> w \<le> 1000) ws"
  by (auto simp: validate_backends_def)

lemma validate_backends_named:
  "hd backends = Member m \<Longrightarrow> validate_backends backends ws = Inr kind \<longleftrightarrow>
     1 \<le> length backends \<and> length backends \<le> 128 \<and> kind = NamedKind \<and> ws = [] \<and>
     (\<exists>s. try_fold check_member ({}, {}) backends = Inr s)"
  by (auto simp: validate_backends_def)

text \<open>
  What pool validation accepts. A pool is accepted exactly when it has 1 to 128 backends
  of one kind only: plain addresses, with no legacy weights or one weight in 1..1000 for each;
  or named members, each valid by itself, with pairwise different ids and addresses and no
  legacy weights. The kind returned is the kind of every backend.
\<close>

theorem validate_backends_spec:
  "validate_backends backends ws = Inr kind \<longleftrightarrow>
     1 \<le> length backends \<and> length backends \<le> 128 \<and>
     (case kind of
        LegacyKind \<Rightarrow> (\<exists>as. backends = map Legacy as) \<and> (ws = [] \<or> length ws = length backends) \<and>
          list_all (\<lambda>w. 1 \<le> w \<and> w \<le> 1000) ws
      | NamedKind \<Rightarrow> ws = [] \<and> (\<exists>ms. backends = map Member ms \<and> (\<forall>m\<in>set ms. member_validate m = Inr ()) \<and>
          distinct (map member_id ms) \<and> distinct (map member_address ms)))"
proof (cases "hd backends")
  case (Legacy a)
  then have "\<nexists>ms. backends = map Member ms" if "backends \<noteq> []" using that by (metis Backend.distinct(1) hd_map map_is_Nil_conv)
  then show ?thesis unfolding validate_backends_legacy [OF Legacy] map_Member_legacy
    by (cases "backends = []"; cases kind) auto
next
  case (Member m)
  then have n: "\<nexists>as. backends = map Legacy as" if "backends \<noteq> []" using that by (metis Backend.distinct(1) hd_map map_is_Nil_conv)
  have "(\<exists>s. try_fold check_member ({}, {}) backends = Inr s) \<longleftrightarrow>
    (\<exists>ms. backends = map Member ms \<and> (\<forall>m\<in>set ms. member_validate m = Inr ()) \<and>
      distinct (map member_id ms) \<and> distinct (map member_address ms))"
    unfolding named_iff using check_members_Inr [of "({}, {})" backends] by (simp add: list_all_iff)
  then show ?thesis unfolding validate_backends_named [OF Member] using n
    by (cases "backends = []"; cases kind) (simp_all only: list.size BackendKind.simps, auto)
qed

theorem validate_backends_spec_witness:
  "validate_backends
     [Member \<lparr>member_id = ''a'', member_address = ''10.0.0.1:80'', member_weight = 2, member_desired_state = Serving\<rparr>,
      Member \<lparr>member_id = ''b'', member_address = ''10.0.0.2:80'', member_weight = 1, member_desired_state = Draining\<rparr>] []
     = Inr NamedKind"
  (is "validate_backends [Member ?a, Member ?b] [] = _")
proof -
  have "member_validate ?a = Inr () \<and> member_validate ?b = Inr ()" by code_simp
  then show ?thesis
    using validate_backends_spec [of "[Member ?a, Member ?b]" "[]" NamedKind]
    by (auto intro: exI [of _ "[?a, ?b]"])
qed

lemma validated_ids_distinct:
  assumes "validate_backends backends ws = Inr NamedKind"
  shows "distinct (map backend_id backends)" "None \<notin> set (map backend_id backends)"
proof -
  obtain s where "try_fold check_member ({}, {}) backends = Inr s"
    using assms by (auto simp: validate_backends_def split: if_splits Backend.splits)
  then have n: "list_all (\<lambda>b. \<not> is_legacy b) backends" "distinct (map member_id (map the_member backends))"
    using check_members_Inr [of "({}, {})" backends] by auto
  have "map backend_id backends = map Some (map member_id (map the_member backends))"
    using n(1) by (simp add: list_all_iff named_member)
  then show "distinct (map backend_id backends)" "None \<notin> set (map backend_id backends)"
    using n(2) by (simp_all only: distinct_map [of Some]) auto
qed

end
