(* ===== verification/TcpMember.thy ===== *)
theory TcpMember
  imports PoolMember MemberAdmission
begin

text \<open>
  Established TCP streams per named member (\<^verbatim>\<open>src/src/tcp_member.rs\<close>). An
  \<^verbatim>\<open>Arc<StreamCounter>\<close> is an address into the list of all counters; a configuration reload
  builds a new \<^verbatim>\<open>TcpMemberActivity\<close> that shares the counters of the member ids that stay.
\<close>

definition stream_acquire :: "u64 \<Rightarrow> u64 option" where
  "stream_acquire v = (if v = - 1 then None else Some (v + 1))"

text \<open>\<^verbatim>\<open>StreamLease::drop\<close>: the wrapping \<^verbatim>\<open>fetch_sub\<close>; its debug assertion is that the count was positive.\<close>

definition stream_drop :: "u64 \<Rightarrow> u64" where
  "stream_drop v = v - 1"

interpretation streams: lease_counter unat stream_acquire "\<lambda>v. Some (stream_drop v)"
proof
  show "unat g' = unat g + 1" if "stream_acquire g = Some g'" for g g'
    using that unat_plus_one [of g] by (auto simp: stream_acquire_def split: if_splits)
  show "\<exists>g'. Some (stream_drop g) = Some g' \<and> unat g' = unat g - 1" if "0 < unat g" for g
    using that unat_minus_one [of g] by (cases "g = 0") (simp_all add: stream_drop_def)
qed

type_synonym tcp_activity = "nat option list"

definition node :: "tcp_activity \<Rightarrow> nat \<Rightarrow> nat option" where
  "node nodes index = (if index < length nodes then nodes ! index else None)"

text \<open>The \<^verbatim>\<open>HashMap\<close> of the previous counters by id: a later duplicate replaces an earlier one.\<close>

definition old_counters :: "(Backend list \<times> tcp_activity) option \<Rightarrow> string \<Rightarrow> nat option" where
  "old_counters previous = (case previous of
     None \<Rightarrow> Map.empty
   | Some (backends, activity) \<Rightarrow>
       map_of (rev (List.map_filter
         (\<lambda>(index, backend). case backend_id backend of
            None \<Rightarrow> None
          | Some i \<Rightarrow> map_option (Pair i) (node activity index))
         (enumerate 0 backends))))"

fun collect_nodes :: "(string \<Rightarrow> nat option) \<Rightarrow> Backend list \<Rightarrow> u64 list \<Rightarrow> tcp_activity \<times> u64 list" where
  "collect_nodes old [] heap = ([], heap)"
| "collect_nodes old (backend # backends) heap =
     (case backend_id backend of
        None \<Rightarrow> (case collect_nodes old backends heap of (nodes, heap) \<Rightarrow> (None # nodes, heap))
      | Some i \<Rightarrow>
          (case old i of
             Some a \<Rightarrow> (case collect_nodes old backends heap of (nodes, heap) \<Rightarrow> (Some a # nodes, heap))
           | None \<Rightarrow>
               (case collect_nodes old backends (heap @ [0]) of
                  (nodes, heap') \<Rightarrow> (Some (length heap) # nodes, heap'))))"

definition activity_new :: "Backend list \<Rightarrow> (Backend list \<times> tcp_activity) option \<Rightarrow> u64 list \<Rightarrow> tcp_activity \<times> u64 list" where
  "activity_new backends previous heap = collect_nodes (old_counters previous) backends heap"

section \<open>Continuity of the counters across a reload\<close>

lemma collect_nodes_extends: "collect_nodes old bs heap = (nodes, heap') \<Longrightarrow> \<exists>k. heap' = heap @ replicate k 0"
proof (induction bs arbitrary: heap nodes)
  case (Cons b bs)
  have *: "\<exists>k. heap' = heap @ [0] @ replicate k 0 \<Longrightarrow> ?case"
    by (metis replicate_Suc append_Cons append_Nil)
  show ?case
  proof (cases "backend_id b")
    case (Some i)
    then show ?thesis using Cons * by (cases "old i") (fastforce split: prod.splits)+
  qed (use Cons in \<open>fastforce split: prod.splits\<close>)
qed (auto intro: exI [of _ 0])

lemma collect_nodes_length: "collect_nodes old bs heap = (nodes, heap') \<Longrightarrow> length nodes = length bs"
  by (induction bs arbitrary: heap nodes) (auto split: prod.splits option.splits)

lemma collect_nodes_nth:
  assumes "collect_nodes old bs heap = (nodes, heap')" "i < length bs"
  shows "case backend_id (bs ! i) of
      None \<Rightarrow> nodes ! i = None
    | Some x \<Rightarrow> (case old x of
        Some a \<Rightarrow> nodes ! i = Some a
      | None \<Rightarrow> \<exists>a. nodes ! i = Some a \<and> length heap \<le> a \<and> a < length heap' \<and> heap' ! a = 0)"
  using assms
proof (induction bs arbitrary: heap nodes i)
  case (Cons b bs)
  obtain x nodes1 h where r: "nodes = x # nodes1" "collect_nodes old bs h = (nodes1, heap')"
    and h: "h = heap \<or> (h = heap @ [0] \<and> x = Some (length heap))"
    and x: "x = (case backend_id b of None \<Rightarrow> None | Some k \<Rightarrow> (case old k of Some a \<Rightarrow> Some a | None \<Rightarrow> Some (length heap)))"
      "h = (case backend_id b of None \<Rightarrow> heap | Some k \<Rightarrow> (case old k of Some a \<Rightarrow> heap | None \<Rightarrow> heap @ [0]))"
    using Cons.prems(1) by (auto split: prod.splits option.splits)
  obtain k where k: "heap' = h @ replicate k 0" using collect_nodes_extends [OF r(2)] by blast
  show ?case
  proof (cases i)
    case 0
    then show ?thesis using r x k by (auto simp: nth_append split: option.splits)
  next
    case (Suc j)
    have "length heap \<le> length h" using h by auto
    then show ?thesis using Cons.IH [OF r(2), of j] Cons.prems(2) Suc r(1)
      by (auto split: option.splits)
  qed
qed simp

definition old_entries :: "tcp_activity \<Rightarrow> nat \<Rightarrow> Backend list \<Rightarrow> (string \<times> nat) list" where
  "old_entries activity k bs = List.map_filter (\<lambda>(index, b). case backend_id b of None \<Rightarrow> None
      | Some i \<Rightarrow> map_option (Pair i) (node activity index)) (enumerate k bs)"

lemma old_entries_Cons:
  "map_of (rev (old_entries activity k (b # bs))) x = (case map_of (rev (old_entries activity (Suc k) bs)) x of
     Some a \<Rightarrow> Some a | None \<Rightarrow> if backend_id b = Some x then node activity k else None)"
  by (cases "backend_id b"; cases "node activity k")
    (simp_all add: old_entries_def map_filter_simps map_add_def split: option.splits)

lemma old_entries_lookup:
  assumes "distinct (map backend_id bs)"
  shows "map_of (rev (old_entries activity k bs)) x = Some a
    \<longleftrightarrow> (\<exists>j<length bs. backend_id (bs ! j) = Some x \<and> node activity (k + j) = Some a)"
  using assms
proof (induction bs arbitrary: k a)
  case (Cons b bs)
  let ?m = "map_of (rev (old_entries activity (Suc k) bs)) x"
  have IH: "?m = Some a \<longleftrightarrow> (\<exists>j<length bs. backend_id (bs ! j) = Some x \<and> node activity (Suc k + j) = Some a)" for a
    using Cons.IH [of "Suc k" a] Cons.prems by simp
  have none: "?m = None" if b: "backend_id b = Some x"
  proof (rule ccontr)
    assume "?m \<noteq> None"
    then obtain j where "j < length bs" "backend_id (bs ! j) = Some x" using IH by blast
    then have "backend_id b \<in> set (map backend_id bs)" using b by (metis length_map nth_map nth_mem)
    then show False using Cons.prems by simp
  qed
  have "(\<exists>j<length (b # bs). backend_id ((b # bs) ! j) = Some x \<and> node activity (k + j) = Some a) \<longleftrightarrow>
    backend_id b = Some x \<and> node activity k = Some a \<or> ?m = Some a"
    unfolding IH by (simp add: Ex_less_Suc2)
  then show ?case unfolding old_entries_Cons using none
    by (cases "backend_id b = Some x"; cases ?m) simp_all
qed (simp add: old_entries_def map_filter_simps)

lemma old_counters_entries: "old_counters (Some (bs, activity)) = map_of (rev (old_entries activity 0 bs))"
  by (simp add: old_counters_def old_entries_def)

text \<open>
  A reload keeps the stream counts of the members that stay. For a validated named pool
  and its counters, the activity built for the next pool gives every named member whose id was
  there before the same counter, whatever its address now is, gives every other named member a
  counter of its own that starts at zero, gives plain addresses none, and changes the count of
  no existing counter.
\<close>

theorem activity_continuity:
  assumes "validate_backends old_backends ws = Inr NamedKind"
    and "activity_new backends (Some (old_backends, activity)) heap = (nodes, heap')"
    and "i < length backends"
  shows "take (length heap) heap' = heap \<and>
    (case backend_id (backends ! i) of
       None \<Rightarrow> node nodes i = None
     | Some x \<Rightarrow>
         (\<exists>j<length old_backends. \<exists>a. backend_id (old_backends ! j) = Some x \<and> node activity j = Some a \<and>
            node nodes i = Some a) \<or>
         (\<exists>a. node nodes i = Some a \<and> length heap \<le> a \<and> a < length heap' \<and> heap' ! a = 0 \<and>
            list_all (\<lambda>j. backend_id (old_backends ! j) \<noteq> Some x \<or> node activity j = None) [0..<length old_backends]))"
proof -
  note c = assms(2) [unfolded activity_new_def]
  have ext: "take (length heap) heap' = heap" using collect_nodes_extends [OF c] by auto
  have ni: "node nodes i = nodes ! i" using collect_nodes_length [OF c] assms(3) by (simp add: node_def)
  note L = old_entries_lookup [OF validated_ids_distinct(1) [OF assms(1)], of activity 0, simplified]
  show ?thesis
  proof (cases "backend_id (backends ! i)")
    case None
    then show ?thesis using collect_nodes_nth [OF c assms(3)] ni ext by simp
  next
    case (Some x)
    show ?thesis
    proof (cases "old_counters (Some (old_backends, activity)) x")
      case None
      have "backend_id (old_backends ! j) \<noteq> Some x \<or> node activity j = None" if "j < length old_backends" for j
        using L [of x "the (node activity j)"] None that by (cases "node activity j") (auto simp: old_counters_entries)
      then have "list_all (\<lambda>j. backend_id (old_backends ! j) \<noteq> Some x \<or> node activity j = None) [0..<length old_backends]"
        by (simp add: list_all_iff)
      then show ?thesis using collect_nodes_nth [OF c assms(3)] ni ext Some None by simp
    next
      case s: (Some a)
      then obtain j where "j < length old_backends" "backend_id (old_backends ! j) = Some x" "node activity j = Some a"
        using L [of x a] by (auto simp: old_counters_entries)
      moreover have "node nodes i = Some a" using collect_nodes_nth [OF c assms(3)] ni Some s by simp
      ultimately show ?thesis using Some ext by auto
    qed
  qed
qed

definition demo_member :: "string \<Rightarrow> string \<Rightarrow> Backend" where
  "demo_member i a = Member \<lparr>member_id = i, member_address = a, member_weight = 1, member_desired_state = Serving\<rparr>"

theorem activity_continuity_witness:
  "activity_new [demo_member ''b'' ''h:2'', demo_member ''a'' ''h:9''] (Some ([demo_member ''a'' ''h:1''], [Some 0])) [7]
     = ([Some 1, Some 0], [7, 0]) \<and>
   (\<exists>j<1. \<exists>a. backend_id ([demo_member ''a'' ''h:1''] ! j) = Some ''a'' \<and> node [Some 0] j = Some a \<and>
      node [Some 1, Some 0] 1 = Some a)"
proof -
  have v: "validate_backends [demo_member ''a'' ''h:1''] [] = Inr NamedKind" by code_simp
  have n: "activity_new [demo_member ''b'' ''h:2'', demo_member ''a'' ''h:9''] (Some ([demo_member ''a'' ''h:1''], [Some 0])) [7]
     = ([Some 1, Some 0], [7, 0])"
    by (simp add: activity_new_def old_counters_def node_def demo_member_def map_filter_simps)
  show ?thesis using activity_continuity [OF v n, of 1] n by (auto simp: demo_member_def node_def)
qed

end
