(* ===== verification/Balance.thy ===== *)
theory Balance
  imports Http PoolMember MemberAdmission
begin

text \<open>
  The load balancer of \<^verbatim>\<open>src/src/balance.rs\<close>: weighted selection, the passive and active
  health of a backend, endpoint epochs, and the nodes that successive configurations share. An
  \<^verbatim>\<open>Arc<Node>\<close> is an address into the list of all nodes, which every operation takes and
  returns. Times are milliseconds since the start of the process (\<^verbatim>\<open>now_ms\<close>); the counters of
  observations are natural numbers (a wrap-around would take 2^64 observations), the selection
  cursor and the products compared by the least-connections mode are 64-bit words.
\<close>

section \<open>Configuration\<close>

datatype Mode = RoundRobin | LeastConnections

record HealthPolicy =
  failure_threshold :: nat
  cooldown_ms :: nat

datatype InitialHealthState = Healthy | Checking

definition initially_healthy :: "InitialHealthState \<Rightarrow> bool" where
  "initially_healthy state \<longleftrightarrow> state = Healthy"

record ActiveHealthPolicy =
  ah_path :: string
  ah_host :: "string option"
  interval_ms :: nat
  timeout_ms :: nat
  healthy_statuses :: "nat list"
  unhealthy_statuses :: "nat list"
  healthy_successes :: nat
  unhealthy_http_failures :: nat
  unhealthy_tcp_failures :: nat
  unhealthy_timeouts :: nat
  initial_state :: InitialHealthState

record PassiveHealthPolicy =
  ph_healthy_statuses :: "nat list"
  ph_unhealthy_statuses :: "nat list"
  ph_http_failures :: nat
  ph_tcp_failures :: nat
  ph_timeouts :: nat

record BalanceConfig =
  mode :: Mode
  weights :: "nat list"
  health :: "HealthPolicy option"
  active_health :: "ActiveHealthPolicy option"
  passive_health :: "PassiveHealthPolicy option"

text \<open>
  Two more observations of the \<^verbatim>\<open>http\<close> crate: the error of \<^verbatim>\<open>host.parse::<Authority>()\<close>, and
  whether \<^verbatim>\<open>HeaderValue::from_str\<close> accepts a text.
\<close>

record balance_lib = http_lib +
  authority_error :: "string \<Rightarrow> string"
  header_value_ok :: "string \<Rightarrow> bool"

definition in_range :: "nat \<Rightarrow> nat \<Rightarrow> nat \<Rightarrow> bool" where
  "in_range lo hi v \<longleftrightarrow> lo \<le> v \<and> v \<le> hi"

definition validate_statuses :: "nat list \<Rightarrow> nat list \<Rightarrow> string + unit" where
  "validate_statuses healthy unhealthy = first_error
     [ensure (healthy \<noteq> [] \<and> unhealthy \<noteq> [] \<and> length healthy \<le> 64 \<and> length unhealthy \<le> 64)
        ''health status lists must contain 1..64 codes'',
      check_distinct (\<lambda>code. ensure (in_range 100 599 code) ''health status codes must be unique and between 100 and 599'')
        ''health status codes must be unique and between 100 and 599'' [] (healthy @ unhealthy)]"

definition validate_active_host :: "balance_lib \<Rightarrow> string option \<Rightarrow> string + unit" where
  "validate_active_host L host = (case host of
     None \<Rightarrow> Inr ()
   | Some host \<Rightarrow>
       (case parse_authority_host L host of
          None \<Rightarrow> Inl (authority_error L host)
        | Some parsed \<Rightarrow>
            ensure (host \<noteq> [] \<and> length host \<le> 253 \<and> parsed = host \<and> CHR ''@'' \<notin> set host \<and> header_value_ok L host)
              ''active health host must be a bare, printable HTTP host''))"

definition validate_active :: "balance_lib \<Rightarrow> BalanceConfig \<Rightarrow> ActiveHealthPolicy \<Rightarrow> string + unit" where
  "validate_active L c a = first_error
     [ensure (health c = None) ''active_health conflicts with legacy cooldown health'',
      ensure (take 1 (ah_path a) = ''/'' \<and> length (ah_path a) \<le> 256 \<and>
          list_all (\<lambda>b. is_ascii_graphic b \<and> b \<noteq> CHR ''?'' \<and> b \<noteq> CHR ''#'') (ah_path a))
        ''active health path must be a printable absolute path without query or fragment'',
      validate_active_host L (ah_host a),
      ensure (in_range 100 300000 (interval_ms a) \<and> in_range 100 60000 (timeout_ms a) \<and> timeout_ms a \<le> interval_ms a)
        ''active health interval/timeout is invalid'',
      ensure (in_range 1 100 (healthy_successes a) \<and> in_range 1 100 (unhealthy_http_failures a) \<and>
          in_range 1 100 (unhealthy_tcp_failures a) \<and> in_range 1 100 (unhealthy_timeouts a))
        ''active health thresholds must be 1..100'',
      validate_statuses (healthy_statuses a) (unhealthy_statuses a)]"

definition validate_passive :: "BalanceConfig \<Rightarrow> PassiveHealthPolicy \<Rightarrow> string + unit" where
  "validate_passive c p = first_error
     [ensure (active_health c \<noteq> None \<and> health c = None)
        ''passive_health requires active_health and conflicts with legacy cooldown health'',
      ensure (in_range 1 100 (ph_http_failures p) \<and> in_range 1 100 (ph_tcp_failures p) \<and> in_range 1 100 (ph_timeouts p))
        ''passive health thresholds must be 1..100'',
      validate_statuses (ph_healthy_statuses p) (ph_unhealthy_statuses p)]"

definition validate :: "balance_lib \<Rightarrow> BalanceConfig \<Rightarrow> nat \<Rightarrow> string + unit" where
  "validate L c count = first_error
     [ensure (weights c = [] \<or> length (weights c) = count) ''weights must match backend count'',
      ensure (list_all (in_range 1 1000) (weights c)) ''backend weights must be 1..1000'',
      (case health c of None \<Rightarrow> Inr ()
       | Some h \<Rightarrow> ensure (in_range 1 100 (failure_threshold h) \<and> in_range 10 300000 (cooldown_ms h))
           ''invalid backend health thresholds''),
      (case active_health c of None \<Rightarrow> Inr () | Some a \<Rightarrow> validate_active L c a),
      (case passive_health c of None \<Rightarrow> Inr () | Some p \<Rightarrow> validate_passive c p)]"

section \<open>Nodes\<close>

record ObservationEvidence =
  ev_source :: string
  ev_kind :: string
  ev_status :: "nat option"
  observed_at_unix_ms :: nat
  observed :: instant

record Node =
  gate :: u64 \<comment> \<open>the field \<^verbatim>\<open>active\<close>\<close>
  observation :: "ObservationEvidence option"
  endpoint_epoch :: nat
  failures :: nat
  unavailable_until :: nat
  active_unhealthy :: bool
  initial_check_pending :: bool
  active_probe_seen :: bool
  passive_unhealthy :: bool
  active_successes :: nat
  active_http_failures :: nat
  active_tcp_failures :: nat
  active_timeouts :: nat
  passive_http_failures :: nat
  passive_tcp_failures :: nat
  passive_timeouts :: nat

definition default_node :: Node where
  "default_node = \<lparr>gate = adm_serving, observation = None, endpoint_epoch = 0, failures = 0,
     unavailable_until = 0, active_unhealthy = False, initial_check_pending = False,
     active_probe_seen = False, passive_unhealthy = False, active_successes = 0,
     active_http_failures = 0, active_tcp_failures = 0, active_timeouts = 0,
     passive_http_failures = 0, passive_tcp_failures = 0, passive_timeouts = 0\<rparr>"

text \<open>A reading of the monotonic clock (ns) and of the wall clock (ns since 1970, possibly negative).\<close>

record clock =
  mono :: instant
  wall :: int

definition MAX_MS :: nat where
  "MAX_MS = 2 ^ 64 - 1"

definition record_observation :: "clock \<Rightarrow> string \<Rightarrow> string \<Rightarrow> nat option \<Rightarrow> Node \<Rightarrow> Node" where
  "record_observation t source kind status n = n\<lparr>observation := Some
     \<lparr>ev_source = source, ev_kind = kind, ev_status = status,
      observed_at_unix_ms = min (nat (wall t) div 1000000) MAX_MS, observed = mono t\<rparr>\<rparr>"

record BackendObservation =
  bo_source :: string
  bo_kind :: string
  bo_status :: "nat option"
  bo_observed_at_unix_ms :: nat
  age_ms :: nat

definition last_observation :: "instant \<Rightarrow> Node \<Rightarrow> BackendObservation option" where
  "last_observation now n = map_option (\<lambda>e.
     \<lparr>bo_source = ev_source e, bo_kind = ev_kind e, bo_status = ev_status e,
      bo_observed_at_unix_ms = observed_at_unix_ms e,
      age_ms = min ((now - observed e) div 1000000) MAX_MS\<rparr>) (observation n)"

definition now_ms :: "instant \<Rightarrow> instant \<Rightarrow> nat" where
  "now_ms start now = (now - start) div 1000000 mod 2 ^ 64"

record Balancer =
  config :: BalanceConfig
  nodes :: "nat list"
  cursor :: u64
  total_weight :: nat

type_synonym heap = "Node list"

definition update_node :: "nat \<Rightarrow> (Node \<Rightarrow> Node) \<Rightarrow> heap \<Rightarrow> heap" where
  "update_node a f heap = heap[a := f (heap ! a)]"

section \<open>Leases and passive feedback\<close>

record LeaseInner =
  lease_node :: nat
  lease_epoch :: nat
  lease_health :: "HealthPolicy option"
  lease_passive :: "PassiveHealthPolicy option"

text \<open>\<^verbatim>\<open>LeaseInner::drop\<close>; \<^term>\<open>None\<close> is the panic of \<^verbatim>\<open>release\<close>.\<close>

definition drop_backend_lease :: "LeaseInner \<Rightarrow> heap \<Rightarrow> heap option" where
  "drop_backend_lease l heap = map_option (\<lambda>g. update_node (lease_node l) (\<lambda>n. n\<lparr>gate := g\<rparr>) heap)
     (adm_release (gate (heap ! lease_node l)))"

text \<open>Both branches of the source (with and without the lock) apply the update when the epochs agree.\<close>

definition with_current_epoch :: "LeaseInner \<Rightarrow> (Node \<Rightarrow> Node) \<Rightarrow> heap \<Rightarrow> heap" where
  "with_current_epoch l update heap =
     (if lease_epoch l = 0 then
        (if endpoint_epoch (heap ! lease_node l) = 0 then update_node (lease_node l) update heap else heap)
      else if endpoint_epoch (heap ! lease_node l) = lease_epoch l then update_node (lease_node l) update heap
      else heap)"

definition record_result :: "nat \<Rightarrow> LeaseInner \<Rightarrow> bool \<Rightarrow> heap \<Rightarrow> heap" where
  "record_result now l success heap = (case lease_health l of
     None \<Rightarrow> heap
   | Some h \<Rightarrow> with_current_epoch l (\<lambda>n.
       if success then n\<lparr>failures := 0, unavailable_until := 0\<rparr>
       else if failure_threshold h \<le> failures n + 1
         then n\<lparr>failures := failures n + 1, unavailable_until := now + cooldown_ms h\<rparr>
         else n\<lparr>failures := failures n + 1\<rparr>) heap)"

definition record_http_status :: "clock \<Rightarrow> nat \<Rightarrow> LeaseInner \<Rightarrow> nat \<Rightarrow> heap \<Rightarrow> heap" where
  "record_http_status t now l status heap =
     (let heap = with_current_epoch l (record_observation t ''passive'' ''http_response'' (Some status)) heap
      in case lease_passive l of
           Some p \<Rightarrow> with_current_epoch l (\<lambda>n.
             if status \<in> set (ph_unhealthy_statuses p) then
               n\<lparr>passive_http_failures := passive_http_failures n + 1,
                 passive_unhealthy := passive_unhealthy n \<or> ph_http_failures p \<le> passive_http_failures n + 1\<rparr>
             else n) heap
         | None \<Rightarrow> record_result now l (status < 500) heap)"

definition record_transport_failure :: "clock \<Rightarrow> nat \<Rightarrow> LeaseInner \<Rightarrow> heap \<Rightarrow> heap" where
  "record_transport_failure t now l heap =
     (let heap = with_current_epoch l (record_observation t ''passive'' ''transport_failure'' None) heap
      in case lease_passive l of
           Some p \<Rightarrow> with_current_epoch l (\<lambda>n.
             n\<lparr>passive_tcp_failures := passive_tcp_failures n + 1,
               passive_unhealthy := passive_unhealthy n \<or> ph_tcp_failures p \<le> passive_tcp_failures n + 1\<rparr>) heap
         | None \<Rightarrow> record_result now l False heap)"

definition record_timeout :: "clock \<Rightarrow> nat \<Rightarrow> LeaseInner \<Rightarrow> heap \<Rightarrow> heap" where
  "record_timeout t now l heap =
     (let heap = with_current_epoch l (record_observation t ''passive'' ''timeout'' None) heap
      in case lease_passive l of
           Some p \<Rightarrow> with_current_epoch l (\<lambda>n.
             n\<lparr>passive_timeouts := passive_timeouts n + 1,
               passive_unhealthy := passive_unhealthy n \<or> ph_timeouts p \<le> passive_timeouts n + 1\<rparr>) heap
         | None \<Rightarrow> record_result now l False heap)"

section \<open>Construction and reload\<close>

definition starts_checking :: "BalanceConfig \<Rightarrow> bool" where
  "starts_checking c \<longleftrightarrow> (case active_health c of None \<Rightarrow> False | Some a \<Rightarrow> initial_state a = Checking)"

definition new_balancer :: "BalanceConfig \<Rightarrow> nat \<Rightarrow> heap \<Rightarrow> Balancer \<times> heap" where
  "new_balancer c count heap =
     (\<lparr>config = c, nodes = [length heap..<length heap + count], cursor = 0,
       total_weight = (if weights c = [] then count else sum_list (weights c))\<rparr>,
      heap @ replicate count (default_node\<lparr>active_unhealthy := starts_checking c, initial_check_pending := starts_checking c\<rparr>))"

definition compatible :: "BalanceConfig \<Rightarrow> BalanceConfig \<Rightarrow> bool" where
  "compatible c old \<longleftrightarrow> health c = health old \<and> active_health c = active_health old \<and> passive_health c = passive_health old"

definition get :: "'a list \<Rightarrow> nat \<Rightarrow> 'a option" where
  "get xs i = (if i < length xs then Some (xs ! i) else None)"

definition old_node :: "Balancer \<Rightarrow> nat option \<Rightarrow> nat option" where
  "old_node previous i = Option.bind i (get (nodes previous))"

definition with_reused_nodes :: "BalanceConfig \<Rightarrow> Balancer \<Rightarrow> nat option list \<Rightarrow> heap \<Rightarrow> Balancer \<times> heap" where
  "with_reused_nodes c previous mapping heap =
     (case new_balancer c (length mapping) heap of (next, heap) \<Rightarrow>
        (if compatible c (config previous) then
           next\<lparr>nodes := map2 (\<lambda>a i. case old_node previous i of Some old \<Rightarrow> old | None \<Rightarrow> a) (nodes next) mapping\<rparr>
         else next, heap))"

text \<open>One round of the loop of \<^verbatim>\<open>with_member_states\<close>: the node a member gets, and the gate it closes.\<close>

definition member_node ::
  "Balancer option \<Rightarrow> bool \<Rightarrow> nat option list \<Rightarrow> heap \<Rightarrow> nat \<Rightarrow> DesiredState \<Rightarrow> nat option" where
  "member_node previous reuse mapping heap index state =
     (let wanted_open = (state = Serving);
          reusable = (case previous of
            None \<Rightarrow> None
          | Some old \<Rightarrow> if reuse then old_node old (Option.bind (get mapping index) (\<lambda>i. i)) else None)
      in case reusable of
           None \<Rightarrow> None
         | Some a \<Rightarrow> if adm_is_open (gate (heap ! a)) = wanted_open then Some a else None)"

fun place_members ::
  "(heap \<Rightarrow> nat \<Rightarrow> DesiredState \<Rightarrow> nat option) \<Rightarrow> nat \<Rightarrow> DesiredState list \<Rightarrow> nat list \<Rightarrow> heap \<Rightarrow> nat list \<times> heap" where
  "place_members reusable index [] ns heap = (ns, heap)"
| "place_members reusable index (state # states) ns heap =
     (case reusable heap index state of
        Some a \<Rightarrow> place_members reusable (Suc index) states (ns[index := a]) heap
      | None \<Rightarrow>
          place_members reusable (Suc index) states ns
            (if state \<noteq> Serving then update_node (ns ! index) (\<lambda>n. n\<lparr>gate := adm_retire (gate n)\<rparr>) heap else heap))"

text \<open>\<^term>\<open>None\<close> is the panic of the assertion on the lengths.\<close>

definition with_member_states ::
  "BalanceConfig \<Rightarrow> Balancer option \<Rightarrow> nat option list \<Rightarrow> DesiredState list \<Rightarrow> heap \<Rightarrow> (Balancer \<times> heap) option" where
  "with_member_states c previous mapping states heap =
     (if previous \<noteq> None \<and> length mapping \<noteq> length states then None
      else
        let reuse = (case previous of None \<Rightarrow> False | Some old \<Rightarrow> compatible c (config old));
            (next, heap) = new_balancer c (length states) heap;
            (ns, heap) = place_members (member_node previous reuse mapping) 0 states (nodes next) heap
        in Some (next\<lparr>nodes := ns\<rparr>, heap))"

definition retirements :: "Balancer \<Rightarrow> Balancer option \<Rightarrow> (nat \<times> nat) list" where
  "retirements b successor =
     map (\<lambda>(index, a). (a, index))
       (filter (\<lambda>(_, old). case successor of None \<Rightarrow> True | Some next \<Rightarrow> old \<notin> set (nodes next))
         (enumerate 0 (nodes b)))"

definition retirement_active :: "heap \<Rightarrow> nat \<times> nat \<Rightarrow> nat" where
  "retirement_active heap r = adm_active (gate (heap ! fst r))"

definition retire_node :: "nat \<times> nat \<Rightarrow> heap \<Rightarrow> heap" where
  "retire_node r heap = update_node (fst r) (\<lambda>n. n\<lparr>gate := adm_retire (gate n)\<rparr>) heap"

section \<open>Availability and epochs\<close>

definition admission_open :: "Balancer \<Rightarrow> heap \<Rightarrow> nat \<Rightarrow> bool" where
  "admission_open b heap index = (case get (nodes b) index of None \<Rightarrow> False | Some a \<Rightarrow> adm_is_open (gate (heap ! a)))"

definition available :: "Balancer \<Rightarrow> heap \<Rightarrow> nat \<Rightarrow> nat \<Rightarrow> bool" where
  "available b heap now index \<longleftrightarrow>
     admission_open b heap index \<and>
     (let n = heap ! (nodes b ! index) in
        \<not> initial_check_pending n \<and> \<not> active_unhealthy n \<and> \<not> passive_unhealthy n \<and>
        (health (config b) = None \<or> unavailable_until n \<le> now))"

definition available_for :: "Balancer \<Rightarrow> heap \<Rightarrow> nat \<Rightarrow> nat \<Rightarrow> nat \<Rightarrow> bool" where
  "available_for b heap now index epoch = (case get (nodes b) index of
     None \<Rightarrow> False
   | Some a \<Rightarrow> endpoint_epoch (heap ! a) = epoch \<and> available b heap now index \<and> endpoint_epoch (heap ! a) = epoch)"

definition ensure_epoch_locked :: "BalanceConfig \<Rightarrow> nat \<Rightarrow> Node \<Rightarrow> bool \<times> Node" where
  "ensure_epoch_locked c epoch n =
     (if epoch < endpoint_epoch n then (False, n)
      else if endpoint_epoch n = epoch then (True, n)
      else (True, n\<lparr>failures := 0, unavailable_until := 0, active_unhealthy := starts_checking c,
        initial_check_pending := starts_checking c, active_probe_seen := False, observation := None,
        passive_unhealthy := False, active_successes := 0, active_http_failures := 0,
        active_tcp_failures := 0, active_timeouts := 0, passive_http_failures := 0,
        passive_tcp_failures := 0, passive_timeouts := 0, endpoint_epoch := epoch\<rparr>))"

definition observe_epoch :: "Balancer \<Rightarrow> nat \<Rightarrow> nat \<Rightarrow> heap \<Rightarrow> bool \<times> heap" where
  "observe_epoch b index epoch heap = (case get (nodes b) index of
     None \<Rightarrow> (False, heap)
   | Some a \<Rightarrow>
       if endpoint_epoch (heap ! a) = epoch then (True, heap)
       else if epoch < endpoint_epoch (heap ! a) then (False, heap)
       else (case ensure_epoch_locked (config b) epoch (heap ! a) of (ok, n) \<Rightarrow> (ok, heap[a := n])))"

record BackendState =
  bs_available :: bool
  bs_last_observation :: "BackendObservation option"
  health_mode :: string
  probe_observed :: "bool option"
  bs_initial_check_pending :: "bool option"
  active_requests :: "nat option"

definition backend_state :: "Balancer \<Rightarrow> heap \<Rightarrow> instant \<Rightarrow> nat \<Rightarrow> nat \<Rightarrow> BackendState option" where
  "backend_state b heap t now index = map_option (\<lambda>a. let n = heap ! a in
     \<lparr>bs_available = available b heap now index,
      bs_last_observation = last_observation t n,
      health_mode =
        (if active_health (config b) \<noteq> None then
           (if passive_health (config b) \<noteq> None then ''active_passive'' else ''active'')
         else if health (config b) \<noteq> None then ''cooldown'' else ''unmonitored''),
      probe_observed = map_option (\<lambda>_. active_probe_seen n) (active_health (config b)),
      bs_initial_check_pending = map_option (\<lambda>_. initial_check_pending n) (active_health (config b)),
      active_requests = Some (adm_active (gate n))\<rparr>) (get (nodes b) index)"

definition backend_state_for :: "Balancer \<Rightarrow> heap \<Rightarrow> instant \<Rightarrow> nat \<Rightarrow> nat \<Rightarrow> nat \<Rightarrow> BackendState option" where
  "backend_state_for b heap t now index epoch = (case get (nodes b) index of
     None \<Rightarrow> None
   | Some a \<Rightarrow>
       if endpoint_epoch (heap ! a) \<noteq> epoch then None
       else (case backend_state b heap t now index of
               None \<Rightarrow> None
             | Some state \<Rightarrow> if endpoint_epoch (heap ! a) = epoch then Some state else None))"

section \<open>Selection\<close>

definition weight :: "Balancer \<Rightarrow> nat \<Rightarrow> nat" where
  "weight b index = (case get (weights (config b)) index of Some w \<Rightarrow> w | None \<Rightarrow> 1)"

definition active_of :: "Balancer \<Rightarrow> heap \<Rightarrow> nat \<Rightarrow> nat" where
  "active_of b heap index = adm_active (gate (heap ! (nodes b ! index)))"

text \<open>The comparison of the least-connections loop, on machine words.\<close>

definition less_loaded :: "Balancer \<Rightarrow> heap \<Rightarrow> nat \<Rightarrow> nat \<Rightarrow> bool" where
  "less_loaded b heap index previous \<longleftrightarrow>
     (of_nat (active_of b heap index) * of_nat (weight b previous) :: u64)
       < of_nat (active_of b heap previous) * of_nat (weight b index)"

fun least_loop :: "(nat \<Rightarrow> nat \<Rightarrow> bool) \<Rightarrow> (nat \<Rightarrow> bool) \<Rightarrow> nat list \<Rightarrow> nat option \<Rightarrow> nat option" where
  "least_loop better candidate [] best = best"
| "least_loop better candidate (index # indices) best =
     (if \<not> candidate index then least_loop better candidate indices best
      else if (case best of None \<Rightarrow> True | Some previous \<Rightarrow> better index previous)
        then least_loop better candidate indices (Some index)
        else least_loop better candidate indices best)"

text \<open>The weighted slot; a slot beyond the last weight leaves the initial 0.\<close>

fun weighted_slot :: "nat \<Rightarrow> nat \<Rightarrow> nat list \<Rightarrow> nat" where
  "weighted_slot index slot [] = 0"
| "weighted_slot index slot (w # ws) = (if slot < w then index else weighted_slot (Suc index) (slot - w) ws)"

definition rotation :: "nat \<Rightarrow> nat \<Rightarrow> nat list" where
  "rotation start len = map (\<lambda>offset. (start + offset) mod len) [0..<len]"

text \<open>The outer \<^term>\<open>None\<close> is the panic of a remainder by a zero total weight.\<close>

definition select_where :: "(nat \<Rightarrow> bool) \<Rightarrow> heap \<Rightarrow> nat \<Rightarrow> Balancer \<Rightarrow> (nat option \<times> Balancer) option" where
  "select_where predicate heap now b =
     (if nodes b = [] then Some (None, b)
      else
        let c = cursor b; b = b\<lparr>cursor := c + 1\<rparr>; len = length (nodes b) in
        if mode (config b) = LeastConnections then
          Some (least_loop (less_loaded b heap) (\<lambda>i. predicate i \<and> available b heap now i)
            (rotation (unat c mod len) len) None, b)
        else if total_weight b = 0 then None
        else
          let slot = unat c mod total_weight b;
              selected = (if weights (config b) = [] then slot else weighted_slot 0 slot (weights (config b)))
          in Some (find (\<lambda>i. predicate i \<and> available b heap now i) (rotation selected len), b))"

definition select :: "heap \<Rightarrow> nat \<Rightarrow> Balancer \<Rightarrow> (nat option \<times> Balancer) option" where
  "select heap now b = select_where (\<lambda>_. True) heap now b"

text \<open>The outer \<^term>\<open>None\<close> is the panic of \<^verbatim>\<open>release\<close>.\<close>

definition acquire_for :: "Balancer \<Rightarrow> nat \<Rightarrow> nat \<Rightarrow> nat \<Rightarrow> heap \<Rightarrow> (LeaseInner option \<times> heap) option" where
  "acquire_for b now index epoch heap =
     (if \<not> available_for b heap now index epoch then Some (None, heap)
      else case get (nodes b) index of
        None \<Rightarrow> Some (None, heap)
      | Some a \<Rightarrow>
          (case adm_acquire (gate (heap ! a)) of
             None \<Rightarrow> Some (None, heap)
           | Some g \<Rightarrow>
               let heap = update_node a (\<lambda>n. n\<lparr>gate := g\<rparr>) heap in
               if \<not> available_for b heap now index epoch then
                 map_option (\<lambda>g. (None, update_node a (\<lambda>n. n\<lparr>gate := g\<rparr>) heap)) (adm_release (gate (heap ! a)))
               else Some (Some \<lparr>lease_node = a, lease_epoch = epoch, lease_health = health (config b),
                   lease_passive = passive_health (config b)\<rparr>, heap)))"

definition acquire_backend :: "Balancer \<Rightarrow> nat \<Rightarrow> nat \<Rightarrow> heap \<Rightarrow> (LeaseInner option \<times> heap) option" where
  "acquire_backend b now index heap = acquire_for b now index 0 heap"

section \<open>Active probes\<close>

text \<open>What the three recorders do around their own update of the node.\<close>

definition probe_node :: "Balancer \<Rightarrow> nat \<Rightarrow> nat \<Rightarrow> (ActiveHealthPolicy \<Rightarrow> Node \<Rightarrow> Node) \<Rightarrow> heap \<Rightarrow> heap" where
  "probe_node b index epoch update heap = (case active_health (config b) of
     None \<Rightarrow> heap
   | Some policy \<Rightarrow>
       (case get (nodes b) index of
          None \<Rightarrow> heap
        | Some a \<Rightarrow>
            (case ensure_epoch_locked (config b) epoch (heap ! a) of
               (False, n) \<Rightarrow> heap[a := n]
             | (True, n) \<Rightarrow> heap[a := update policy n])))"

definition active_status_update :: "clock \<Rightarrow> nat \<Rightarrow> ActiveHealthPolicy \<Rightarrow> Node \<Rightarrow> Node" where
  "active_status_update t status policy n =
     (let n = (record_observation t ''active_probe'' ''http_response'' (Some status) n)\<lparr>active_probe_seen := True\<rparr> in
      if status \<in> set (healthy_statuses policy) then
        let n = n\<lparr>active_http_failures := 0, active_tcp_failures := 0, active_timeouts := 0,
                  active_successes := active_successes n + 1\<rparr> in
        if healthy_successes policy \<le> active_successes n then
          n\<lparr>active_unhealthy := False, passive_unhealthy := False, passive_http_failures := 0,
            passive_tcp_failures := 0, passive_timeouts := 0, initial_check_pending := False\<rparr>
        else n
      else if status \<in> set (unhealthy_statuses policy) then
        let n = n\<lparr>active_successes := 0, active_http_failures := active_http_failures n + 1\<rparr> in
        if unhealthy_http_failures policy \<le> active_http_failures n then n\<lparr>active_unhealthy := True\<rparr> else n
      else if initial_state policy = Checking then n\<lparr>active_successes := 0\<rparr>
      else n)"

definition active_transport_update :: "clock \<Rightarrow> ActiveHealthPolicy \<Rightarrow> Node \<Rightarrow> Node" where
  "active_transport_update t policy n =
     (let n = (record_observation t ''active_probe'' ''transport_failure'' None n)\<lparr>active_probe_seen := True,
                active_successes := 0, active_tcp_failures := active_tcp_failures n + 1\<rparr> in
      if unhealthy_tcp_failures policy \<le> active_tcp_failures n then n\<lparr>active_unhealthy := True\<rparr> else n)"

definition active_timeout_update :: "clock \<Rightarrow> ActiveHealthPolicy \<Rightarrow> Node \<Rightarrow> Node" where
  "active_timeout_update t policy n =
     (let n = (record_observation t ''active_probe'' ''timeout'' None n)\<lparr>active_probe_seen := True,
                active_successes := 0, active_timeouts := active_timeouts n + 1\<rparr> in
      if unhealthy_timeouts policy \<le> active_timeouts n then n\<lparr>active_unhealthy := True\<rparr> else n)"

definition record_active_status_for :: "clock \<Rightarrow> Balancer \<Rightarrow> nat \<Rightarrow> nat \<Rightarrow> nat \<Rightarrow> heap \<Rightarrow> heap" where
  "record_active_status_for t b index epoch status = probe_node b index epoch (active_status_update t status)"

definition record_active_transport_failure_for :: "clock \<Rightarrow> Balancer \<Rightarrow> nat \<Rightarrow> nat \<Rightarrow> heap \<Rightarrow> heap" where
  "record_active_transport_failure_for t b index epoch = probe_node b index epoch (active_transport_update t)"

definition record_active_timeout_for :: "clock \<Rightarrow> Balancer \<Rightarrow> nat \<Rightarrow> nat \<Rightarrow> heap \<Rightarrow> heap" where
  "record_active_timeout_for t b index epoch = probe_node b index epoch (active_timeout_update t)"

definition record_active_status :: "clock \<Rightarrow> Balancer \<Rightarrow> nat \<Rightarrow> nat \<Rightarrow> heap \<Rightarrow> heap" where
  "record_active_status t b index status = record_active_status_for t b index 0 status"

definition record_active_transport_failure :: "clock \<Rightarrow> Balancer \<Rightarrow> nat \<Rightarrow> heap \<Rightarrow> heap" where
  "record_active_transport_failure t b index = record_active_transport_failure_for t b index 0"

definition record_active_timeout :: "clock \<Rightarrow> Balancer \<Rightarrow> nat \<Rightarrow> heap \<Rightarrow> heap" where
  "record_active_timeout t b index = record_active_timeout_for t b index 0"

end
