(* ===== verification/BalanceSelection.thy ===== *)
theory BalanceSelection
  imports Balance "HOL-Library.Multiset"
begin

text \<open>
  What selection promises: it is total on a validated balancer, picks an available backend that
  the caller accepts whenever there is one, is exactly fair in proportion to the weights in
  round-robin mode, and picks a backend of least weighted load in least-connections mode.
\<close>

section \<open>Well-formed balancers\<close>

definition balancer_ok :: "Balancer \<Rightarrow> bool" where
  "balancer_ok b \<longleftrightarrow>
     (weights (config b) = [] \<or> length (weights (config b)) = length (nodes b)) \<and>
     list_all (in_range 1 1000) (weights (config b)) \<and>
     total_weight b = (if weights (config b) = [] then length (nodes b) else sum_list (weights (config b)))"

lemma validate_weights:
  "validate L c k = Inr () \<Longrightarrow>
     (weights c = [] \<or> length (weights c) = k) \<and> list_all (in_range 1 1000) (weights c)"
  by (simp add: validate_def)

lemma new_balancer_ok: "validate L c k = Inr () \<Longrightarrow> balancer_ok (fst (new_balancer c k heap))"
  using validate_weights [of L c k] by (auto simp: balancer_ok_def new_balancer_def)

lemma balancer_ok_cursor [simp]: "balancer_ok (b\<lparr>cursor := c\<rparr>) = balancer_ok b"
  by (simp add: balancer_ok_def)

lemma total_weight_pos:
  assumes "balancer_ok b" "nodes b \<noteq> []"
  shows "0 < total_weight b"
proof (cases "weights (config b)")
  case (Cons w ws)
  then show ?thesis using assms by (auto simp: balancer_ok_def in_range_def)
qed (use assms in \<open>simp add: balancer_ok_def\<close>)

lemma weight_pos: "balancer_ok b \<Longrightarrow> 0 < weight b i"
  by (auto simp: weight_def balancer_ok_def get_def list_all_length in_range_def split: option.splits if_splits)

lemma available_cursor [simp]: "available (b\<lparr>cursor := c\<rparr>) = available b"
  by (intro ext) (simp add: available_def admission_open_def)

section \<open>Rotations\<close>

lemma shift_mod_inject:
  fixes x y :: nat
  assumes "x < len" "y < len" "(s + x) mod len = (s + y) mod len"
  shows "x = y"
proof -
  have "x' = y'" if "x' \<le> y'" "y' < len" "(s + y') mod len = (s + x') mod len" for x' y' :: nat
  proof -
    have "len dvd y' - x'" using that mod_eq_dvd_iff_nat [of "s + x'" "s + y'" len] by simp
    then show ?thesis using that by (auto dest: dvd_imp_le)
  qed
  then show ?thesis using assms by (metis nat_le_linear)
qed

lemma rotation_distinct: "0 < len \<Longrightarrow> distinct (rotation s len)"
  unfolding rotation_def distinct_map by (auto intro!: inj_onI dest: shift_mod_inject [rotated 2])

lemma set_rotation: "0 < len \<Longrightarrow> set (rotation s len) = {0..<len}"
proof (rule card_subset_eq)
  assume "0 < len"
  then show "set (rotation s len) \<subseteq> {0..<len}" by (auto simp: rotation_def)
  show "card (set (rotation s len)) = card {0..<len}"
    using distinct_card [OF rotation_distinct [OF \<open>0 < len\<close>]] by (simp add: rotation_def)
qed simp

lemma mset_rotation: "0 < len \<Longrightarrow> mset (rotation s len) = mset [0..<len]"
  using set_rotation [of len s] rotation_distinct [of len s] by (subst set_eq_iff_mset_eq_distinct [symmetric]) simp_all

lemma rotation_first: "0 < len \<Longrightarrow> rotation s len = s mod len # tl (rotation s len)"
  by (simp add: rotation_def upt_rec)

section \<open>Weighted round robin\<close>

lemma weighted_slots:
  "map (\<lambda>slot. weighted_slot k slot ws) [0..<sum_list ws] = concat (map (\<lambda>(i, w). replicate w i) (enumerate k ws))"
proof (induction ws arbitrary: k)
  case (Cons w ws)
  let ?f = "\<lambda>slot. weighted_slot k slot (w # ws)"
  have "[0..<w + sum_list ws] = [0..<w] @ [w..<w + sum_list ws]" by (rule upt_add_eq_append) simp
  then have "[0..<sum_list (w # ws)] = [0..<w] @ map (\<lambda>s. s + w) [0..<sum_list ws]"
    by (simp add: map_add_upt add.commute)
  then have "map ?f [0..<sum_list (w # ws)] = map ?f [0..<w] @ map ?f (map (\<lambda>s. s + w) [0..<sum_list ws])"
    by (simp only: map_append)
  moreover have "map ?f [0..<w] = replicate w k" by (rule nth_equalityI) simp_all
  moreover have "map ?f (map (\<lambda>s. s + w) [0..<sum_list ws]) = map (\<lambda>slot. weighted_slot (Suc k) slot ws) [0..<sum_list ws]"
    by simp
  ultimately show ?case unfolding Cons.IH by (simp only: enumerate_simps list.map prod.case concat.simps)
qed simp

lemma count_weighted:
  "count_list (concat (map (\<lambda>(i, w). replicate w i) (enumerate k ws))) j = (if k \<le> j \<and> j < k + length ws then ws ! (j - k) else 0)"
proof (induction ws arbitrary: k)
  case (Cons w ws)
  have "count_list (replicate w k) j = (if k = j then w else 0)" by (induction w) auto
  then show ?case using Cons.IH [of "Suc k"] by (auto simp: nth_Cons' Suc_le_eq)
qed simp

definition slot_of :: "Balancer \<Rightarrow> nat \<Rightarrow> nat" where
  "slot_of b slot = (if weights (config b) = [] then slot else weighted_slot 0 slot (weights (config b)))"

lemma slot_counts:
  assumes "balancer_ok b" "i < length (nodes b)"
  shows "count_list (map (slot_of b) [0..<total_weight b]) i = weight b i"
proof (cases "weights (config b) = []")
  case True
  have "count_list [0..<n] i = (if i < n then 1 else 0)" for n by (induction n) auto
  moreover have "map (slot_of b) [0..<total_weight b] = [0..<total_weight b]" using True by (simp add: slot_of_def map_idI)
  ultimately show ?thesis using True assms by (simp add: weight_def balancer_ok_def get_def)
next
  case False
  then have "map (slot_of b) [0..<total_weight b] = concat (map (\<lambda>(i, w). replicate w i) (enumerate 0 (weights (config b))))"
    using assms weighted_slots [of 0 "weights (config b)"] by (simp add: slot_of_def [abs_def] balancer_ok_def)
  then show ?thesis using False assms by (simp add: count_weighted weight_def get_def balancer_ok_def)
qed

lemma slot_of_less:
  assumes "balancer_ok b" "slot < total_weight b"
  shows "slot_of b slot < length (nodes b)"
proof (cases "weights (config b) = []")
  case False
  have "slot_of b slot \<in> set (map (slot_of b) [0..<total_weight b])" using assms by auto
  then have "count_list (map (slot_of b) [0..<total_weight b]) (slot_of b slot) \<noteq> 0" by (simp add: count_list_0_iff)
  then show ?thesis using False assms weighted_slots [of 0 "weights (config b)"]
    by (auto simp: slot_of_def [abs_def] balancer_ok_def count_weighted split: if_splits)
qed (use assms in \<open>simp add: slot_of_def balancer_ok_def\<close>)

lemma select_where_rr:
  assumes "balancer_ok b" "nodes b \<noteq> []" "mode (config b) = RoundRobin"
  shows "select_where predicate heap now b =
    Some (find (\<lambda>i. predicate i \<and> available b heap now i)
        (rotation (slot_of b (unat (cursor b) mod total_weight b)) (length (nodes b))),
      b\<lparr>cursor := cursor b + 1\<rparr>)"
  using assms total_weight_pos [OF assms(1,2)] by (simp add: select_where_def slot_of_def Let_def)

lemma less_loaded_cursor: "less_loaded (b\<lparr>cursor := c\<rparr>) = less_loaded b"
  by (intro ext) (simp add: less_loaded_def active_of_def weight_def)

lemma select_where_lc:
  assumes "nodes b \<noteq> []" "mode (config b) = LeastConnections"
  shows "select_where predicate heap now b =
    Some (least_loop (less_loaded b heap) (\<lambda>i. predicate i \<and> available b heap now i)
        (rotation (unat (cursor b) mod length (nodes b)) (length (nodes b))) None,
      b\<lparr>cursor := cursor b + 1\<rparr>)"
  using assms by (simp add: select_where_def Let_def less_loaded_cursor)

section \<open>Least connections\<close>

lemma least_loop_member:
  "least_loop better candidate xs best = r \<Longrightarrow>
     (r = None \<longleftrightarrow> best = None \<and> list_all (\<lambda>i. \<not> candidate i) xs) \<and>
     (\<forall>i. r = Some i \<longrightarrow> best = Some i \<or> i \<in> set xs \<and> candidate i)"
  by (induction xs arbitrary: best) (auto split: if_splits option.splits)

lemma least_loop_minimal:
  assumes trans: "\<And>i j k. leq i j \<Longrightarrow> leq j k \<Longrightarrow> leq i k" and total: "\<And>i j. leq i j \<or> leq j i"
    and better: "\<And>i j. i \<in> A \<Longrightarrow> j \<in> A \<Longrightarrow> better i j \<longleftrightarrow> \<not> leq j i"
  shows "least_loop better candidate xs best = Some m \<Longrightarrow> set xs \<subseteq> A \<Longrightarrow> (\<forall>p. best = Some p \<longrightarrow> p \<in> A) \<Longrightarrow>
    (\<forall>j\<in>set xs. candidate j \<longrightarrow> leq m j) \<and> (\<forall>p. best = Some p \<longrightarrow> leq m p)"
proof (induction xs arbitrary: best)
  case Nil
  then show ?case using total by auto
next
  case (Cons i xs)
  show ?case
  proof (cases "candidate i \<and> (case best of None \<Rightarrow> True | Some p \<Rightarrow> better i p)")
    case True
    then have *: "\<forall>j\<in>set xs. candidate j \<longrightarrow> leq m j" "leq m i"
      using Cons.IH [of "Some i"] Cons.prems by auto
    have "leq i p" if "best = Some p" for p using True that better [of i p] total [of i p] Cons.prems by auto
    then show ?thesis using * trans by auto
  next
    case False
    then have *: "\<forall>j\<in>set xs. candidate j \<longrightarrow> leq m j" "\<forall>p. best = Some p \<longrightarrow> leq m p"
      using Cons.IH [of best] Cons.prems by (auto split: if_splits)
    have "leq m i" if c: "candidate i"
    proof -
      obtain p where p: "best = Some p" "\<not> better i p" using False c by (cases best) auto
      then have "leq p i" using better [of i p] Cons.prems by auto
      then show ?thesis using * p trans by blast
    qed
    then show ?thesis using * by auto
  qed
qed

text \<open>\<open>i\<close> carries no more connections per unit of weight than \<open>j\<close>.\<close>

definition no_more_loaded :: "Balancer \<Rightarrow> heap \<Rightarrow> nat \<Rightarrow> nat \<Rightarrow> bool" where
  "no_more_loaded b heap i j \<longleftrightarrow> active_of b heap i * weight b j \<le> active_of b heap j * weight b i"

lemma no_more_loaded_trans:
  assumes "balancer_ok b" "no_more_loaded b heap i j" "no_more_loaded b heap j k"
  shows "no_more_loaded b heap i k"
proof -
  have "(active_of b heap i * weight b k) * weight b j = (active_of b heap i * weight b j) * weight b k"
    by (simp only: ac_simps)
  also have "\<dots> \<le> (active_of b heap j * weight b i) * weight b k"
    using assms(2) by (intro mult_le_mono1) (simp add: no_more_loaded_def)
  also have "\<dots> = (active_of b heap j * weight b k) * weight b i" by (simp only: ac_simps)
  also have "\<dots> \<le> (active_of b heap k * weight b j) * weight b i"
    using assms(3) by (intro mult_le_mono1) (simp add: no_more_loaded_def)
  also have "\<dots> = (active_of b heap k * weight b i) * weight b j" by (simp only: ac_simps)
  finally show ?thesis using weight_pos [OF assms(1), of j] by (simp add: no_more_loaded_def)
qed

lemma weight_le: "balancer_ok b \<Longrightarrow> weight b i \<le> 1000"
  by (auto simp: weight_def balancer_ok_def get_def list_all_length in_range_def split: option.splits if_splits)

lemma less_loaded_iff:
  assumes "balancer_ok b" "active_of b heap i < 2 ^ 54" "active_of b heap j < 2 ^ 54"
  shows "less_loaded b heap i j \<longleftrightarrow> \<not> no_more_loaded b heap j i"
proof -
  have *: "unat (of_nat (active_of b heap x) * of_nat (weight b y) :: u64) = active_of b heap x * weight b y"
    if "active_of b heap x < 2 ^ 54" for x y
  proof -
    have "active_of b heap x * weight b y \<le> (2 ^ 54) * 1000"
      using that weight_le [OF assms(1), of y] by (intro mult_le_mono) simp_all
    then have "active_of b heap x * weight b y < 2 ^ 64" by simp
    moreover have "(of_nat (active_of b heap x) * of_nat (weight b y) :: u64) = of_nat (active_of b heap x * weight b y)" by simp
    ultimately show ?thesis by (simp only: unat_of_nat) simp
  qed
  show ?thesis using * assms by (auto simp: less_loaded_def no_more_loaded_def word_less_nat_alt)
qed

section \<open>Properties\<close>

fun select_times :: "nat \<Rightarrow> heap \<Rightarrow> nat \<Rightarrow> Balancer \<Rightarrow> (nat option list \<times> Balancer) option" where
  "select_times 0 heap now b = Some ([], b)"
| "select_times (Suc k) heap now b =
     (case select heap now b of
        None \<Rightarrow> None
      | Some (r, b') \<Rightarrow> map_option (\<lambda>(rs, b''). (r # rs, b'')) (select_times k heap now b'))"

lemma select_times_rr:
  assumes "balancer_ok b" "nodes b \<noteq> []" "mode (config b) = RoundRobin"
    and "\<And>i. i < length (nodes b) \<Longrightarrow> available b heap now i"
    and "unat (cursor b) + k \<le> 2 ^ 64"
  shows "\<exists>b'. select_times k heap now b =
    Some (map (\<lambda>j. Some (slot_of b ((unat (cursor b) + j) mod total_weight b))) [0..<k], b')"
  using assms
proof (induction k arbitrary: b)
  case (Suc k)
  let ?s = "slot_of b (unat (cursor b) mod total_weight b)"
  have len: "0 < length (nodes b)" using Suc.prems by simp
  have s: "?s < length (nodes b)"
    using Suc.prems total_weight_pos [of b] by (intro slot_of_less) simp_all
  have "find (\<lambda>i. True \<and> available b heap now i) (rotation ?s (length (nodes b))) = Some ?s"
    using Suc.prems(4) [of ?s] s by (subst rotation_first [OF len]) simp
  then have sel: "select heap now b = Some (Some ?s, b\<lparr>cursor := cursor b + 1\<rparr>)"
    using Suc.prems by (simp add: select_def select_where_rr)
  have "cursor b \<noteq> - 1 \<or> k = 0" using Suc.prems(5) by (auto simp: unat_minus_one_w64)
  then have c: "k = 0 \<or> unat (cursor b + 1) = unat (cursor b) + 1" using unat_plus_one [of "cursor b"] by auto
  obtain b' where b': "select_times k heap now (b\<lparr>cursor := cursor b + 1\<rparr>) =
    Some (map (\<lambda>j. Some (slot_of b ((unat (cursor b + 1) + j) mod total_weight b))) [0..<k], b')"
    using Suc.IH [of "b\<lparr>cursor := cursor b + 1\<rparr>"] Suc.prems c by (force simp: slot_of_def)
  have "[0..<Suc k] = 0 # map Suc [0..<k]" by (simp add: upt_conv_Cons map_Suc_upt del: upt_Suc)
  then show ?case using sel b' c by auto
qed simp

lemma count_list_mset: "mset xs = mset ys \<Longrightarrow> count_list xs y = count_list ys y"
proof -
  have "count (mset zs) y = count_list zs y" for zs by (induction zs) auto
  then show "mset xs = mset ys \<Longrightarrow> count_list xs y = count_list ys y" by metis
qed

lemma find_cases: "case find P xs of None \<Rightarrow> \<forall>x\<in>set xs. \<not> P x | Some x \<Rightarrow> x \<in> set xs \<and> P x"
  by (induction xs) (auto split: option.splits)

text \<open>
  C15. Weighted round robin is exactly fair. On a validated pool whose members are all available,
  any \<open>total_weight\<close> consecutive selections pick every member exactly as often as its weight
  (once each without weights), wherever the cursor stands, as long as the 64-bit cursor does
  not wrap in between.
\<close>

theorem round_robin_fair:
  assumes "balancer_ok b" "nodes b \<noteq> []" "mode (config b) = RoundRobin"
    and "\<And>i. i < length (nodes b) \<Longrightarrow> available b heap now i"
    and "unat (cursor b) + total_weight b \<le> 2 ^ 64" and "i < length (nodes b)"
  shows "\<exists>rs b'. select_times (total_weight b) heap now b = Some (rs, b') \<and> count_list rs (Some i) = weight b i"
proof -
  let ?T = "total_weight b"
  let ?rs = "map (\<lambda>j. Some (slot_of b ((unat (cursor b) + j) mod ?T))) [0..<?T]"
  have T: "0 < ?T" using total_weight_pos assms by simp
  have rs: "?rs = map (Some \<circ> slot_of b) (rotation (unat (cursor b)) ?T)" by (simp add: rotation_def)
  have "mset ?rs = mset (map (Some \<circ> slot_of b) [0..<?T])"
    unfolding rs mset_map mset_rotation [OF T] by simp
  then have "count_list ?rs (Some i) = count_list (map Some (map (slot_of b) [0..<?T])) (Some i)"
    by (subst count_list_mset) simp_all
  also have "\<dots> = count_list (map (slot_of b) [0..<?T]) i" by (rule count_list_map_conv) (simp add: inj_on_def)
  also have "\<dots> = weight b i" using slot_counts assms by simp
  finally show ?thesis using select_times_rr [OF assms(1-5)] by blast
qed

text \<open>
  C21. Selection is total, sound and complete. On a validated balancer selection never panics; the
  backend it returns exists, is accepted by the caller's predicate and is available; it returns
  none only when no backend is both accepted and available; and in least-connections mode (with
  fewer than 2^54 connections on any member, so that no product overflows) no accepted and
  available backend has fewer connections per unit of weight.
\<close>

theorem select_where_correct:
  assumes "balancer_ok b"
  shows "\<exists>r b'. select_where predicate heap now b = Some (r, b') \<and>
    (case r of
       None \<Rightarrow> \<forall>i < length (nodes b). \<not> (predicate i \<and> available b heap now i)
     | Some i \<Rightarrow> i < length (nodes b) \<and> predicate i \<and> available b heap now i \<and>
         (mode (config b) = LeastConnections \<longrightarrow> (\<forall>j < length (nodes b). active_of b heap j < 2 ^ 54) \<longrightarrow>
           (\<forall>j < length (nodes b). predicate j \<and> available b heap now j \<longrightarrow> no_more_loaded b heap i j)))"
proof (cases "nodes b = []")
  case False
  let ?len = "length (nodes b)"
  let ?P = "\<lambda>i. predicate i \<and> available b heap now i"
  have len: "0 < ?len" using False by simp
  show ?thesis
  proof (cases "mode (config b)")
    case RoundRobin
    let ?r = "rotation (slot_of b (unat (cursor b) mod total_weight b)) ?len"
    have "case find ?P ?r of None \<Rightarrow> \<forall>i < ?len. \<not> ?P i | Some i \<Rightarrow> i < ?len \<and> ?P i"
      using find_cases [where P = ?P and xs = ?r] unfolding set_rotation [OF len] by (auto split: option.splits)
    then show ?thesis using select_where_rr [OF assms False RoundRobin] RoundRobin by (auto split: option.splits)
  next
    case LeastConnections
    let ?r = "rotation (unat (cursor b) mod ?len) ?len"
    let ?m = "least_loop (less_loaded b heap) ?P ?r None"
    have m: "case ?m of None \<Rightarrow> \<forall>i < ?len. \<not> ?P i | Some i \<Rightarrow> i < ?len \<and> ?P i"
      using least_loop_member [of "less_loaded b heap" ?P ?r None ?m] set_rotation [OF len]
      by (cases ?m) (auto simp: list_all_iff)
    have l: "\<forall>j < ?len. ?P j \<longrightarrow> no_more_loaded b heap i j"
      if i: "?m = Some i" "\<forall>j < ?len. active_of b heap j < 2 ^ 54" for i
    proof -
      have "(\<forall>j\<in>set ?r. ?P j \<longrightarrow> no_more_loaded b heap i j) \<and> (\<forall>p. None = Some p \<longrightarrow> no_more_loaded b heap i p)"
      proof (rule least_loop_minimal [where A = "{0..<?len}", OF no_more_loaded_trans [OF assms] _ _ i(1)])
        show "no_more_loaded b heap i j \<or> no_more_loaded b heap j i" for i j by (auto simp: no_more_loaded_def)
        show "i \<in> {0..<?len} \<Longrightarrow> j \<in> {0..<?len} \<Longrightarrow> less_loaded b heap i j \<longleftrightarrow> \<not> no_more_loaded b heap j i" for i j
          using i(2) by (intro less_loaded_iff [OF assms]) auto
      qed (use set_rotation [OF len] in auto)
      then show ?thesis using set_rotation [OF len] by auto
    qed
    show ?thesis using select_where_lc [OF False LeastConnections, of predicate heap now] m l by (auto split: option.splits)
  qed
qed (simp add: select_where_def)

text \<open>A pool of two members with weights 2 and 1, built by the constructor.\<close>

definition demo_config :: "Mode \<Rightarrow> BalanceConfig" where
  "demo_config m = \<lparr>mode = m, weights = [2, 1], health = None, active_health = None, passive_health = None\<rparr>"

definition demo_pool :: "Mode \<Rightarrow> Balancer" where
  "demo_pool m = fst (new_balancer (demo_config m) 2 [])"

definition demo_heap :: "Mode \<Rightarrow> heap" where
  "demo_heap m = snd (new_balancer (demo_config m) 2 [])"

lemma demo_pool_simps [simp]:
  "balancer_ok (demo_pool m)" "nodes (demo_pool m) = [0, 1]" "mode (config (demo_pool m)) = m"
  "cursor (demo_pool m) = 0" "total_weight (demo_pool m) = 3" "weight (demo_pool m) 0 = 2" "weight (demo_pool m) 1 = 1"
  by (simp_all add: demo_pool_def new_balancer_def demo_config_def balancer_ok_def in_range_def weight_def get_def upt_rec)

lemma demo_available: "i < 2 \<Longrightarrow> available (demo_pool m) (demo_heap m) 0 i"
  by (auto simp: less_2_cases_iff available_def admission_open_def get_def demo_heap_def new_balancer_def demo_config_def
      default_node_def starts_checking_def adm_is_open_iff adm_serving_def demo_pool_def upt_rec)

theorem round_robin_fair_witness:
  "\<exists>rs b'. select_times 3 (demo_heap RoundRobin) 0 (demo_pool RoundRobin) = Some (rs, b') \<and> count_list rs (Some 0) = 2"
  using round_robin_fair [of "demo_pool RoundRobin" "demo_heap RoundRobin" 0 0] demo_available by simp

theorem select_where_correct_witness:
  "\<exists>r b'. select_where (\<lambda>i. i = 1) (demo_heap LeastConnections) 0 (demo_pool LeastConnections) = Some (r, b') \<and> r = Some 1"
proof -
  obtain r b' where r: "select_where (\<lambda>i. i = 1) (demo_heap LeastConnections) 0 (demo_pool LeastConnections) = Some (r, b')"
    "case r of None \<Rightarrow> \<forall>i < 2. \<not> (i = 1 \<and> available (demo_pool LeastConnections) (demo_heap LeastConnections) 0 i) | Some i \<Rightarrow> i = 1"
    using select_where_correct [of "demo_pool LeastConnections" "\<lambda>i. i = 1" "demo_heap LeastConnections" 0]
    by (auto split: option.splits)
  have "available (demo_pool LeastConnections) (demo_heap LeastConnections) 0 1" by (rule demo_available) simp
  then show ?thesis using r by (cases r) (auto dest: spec [of _ 1])
qed

end
