(* ===== verification/BalanceHealth.thy ===== *)
theory BalanceHealth
  imports BalanceSelection "HOL-Library.Sublist"
begin

text \<open>
  The health of a backend across endpoint epochs, probes and configuration reloads: feedback of
  an old endpoint never touches the state of a newer one, a backend that starts in the checking
  state is admitted after the required run of healthy probes and not before, and a reload gives
  every member a gate that is open exactly when the member is to serve.
\<close>

section \<open>Epochs\<close>

lemma ensure_epoch_locked_epoch:
  "endpoint_epoch (snd (ensure_epoch_locked c e n)) = max e (endpoint_epoch n)"
  "fst (ensure_epoch_locked c e n) \<longleftrightarrow> endpoint_epoch n \<le> e"
  by (auto simp: ensure_epoch_locked_def)

lemma update_epochs:
  "endpoint_epoch (record_observation t s k st n) = endpoint_epoch n"
  "endpoint_epoch (active_status_update t status p n) = endpoint_epoch n"
  "endpoint_epoch (active_transport_update t p n) = endpoint_epoch n"
  "endpoint_epoch (active_timeout_update t p n) = endpoint_epoch n"
  by (simp_all add: record_observation_def active_status_update_def active_transport_update_def
      active_timeout_update_def Let_def)

definition epochs_grow :: "heap \<Rightarrow> heap \<Rightarrow> bool" where
  "epochs_grow h h' \<longleftrightarrow> length h' = length h \<and> (\<forall>a < length h. endpoint_epoch (h ! a) \<le> endpoint_epoch (h' ! a))"

lemma epochs_grow_refl [simp]: "epochs_grow h h"
  by (simp add: epochs_grow_def)

lemma epochs_grow_trans: "epochs_grow h h' \<Longrightarrow> epochs_grow h' h'' \<Longrightarrow> epochs_grow h h''"
  unfolding epochs_grow_def by (metis order_trans)

lemma epochs_grow_update: "endpoint_epoch (h ! a) \<le> endpoint_epoch n \<Longrightarrow> epochs_grow h (h[a := n])"
  by (cases "a < length h") (auto simp: epochs_grow_def nth_list_update)

lemma epochs_grow_update_node:
  "(\<And>n. endpoint_epoch n \<le> endpoint_epoch (f n)) \<Longrightarrow> epochs_grow h (update_node a f h)"
  by (simp add: update_node_def epochs_grow_update)

lemma epochs_grow_with_current_epoch:
  "(\<And>n. endpoint_epoch (f n) = endpoint_epoch n) \<Longrightarrow> epochs_grow h (with_current_epoch l f h)"
  by (simp add: with_current_epoch_def epochs_grow_update_node)

lemma epochs_grow_record_result: "epochs_grow h (record_result now l ok h)"
  by (auto simp: record_result_def intro!: epochs_grow_with_current_epoch split: option.splits)

lemma epochs_grow_feedback:
  "epochs_grow h (record_http_status t now l status h)"
  "epochs_grow h (record_transport_failure t now l h)"
  "epochs_grow h (record_timeout t now l h)"
  by (auto simp: record_http_status_def record_transport_failure_def record_timeout_def Let_def update_epochs
      split: option.splits
      intro!: epochs_grow_trans [OF epochs_grow_with_current_epoch epochs_grow_with_current_epoch]
        epochs_grow_trans [OF epochs_grow_with_current_epoch epochs_grow_record_result])

lemma epochs_grow_probe:
  assumes "\<And>p n. endpoint_epoch (f p n) = endpoint_epoch n"
  shows "epochs_grow h (probe_node b index e f h)"
proof -
  have "epochs_grow h (case ensure_epoch_locked (config b) e (h ! a) of (False, n) \<Rightarrow> h[a := n] | (True, n) \<Rightarrow> h[a := f p n])" for a p
    using ensure_epoch_locked_epoch(1) [of "config b" e "h ! a"] assms
    by (auto intro!: epochs_grow_update split: prod.splits bool.splits)
  then show ?thesis by (simp add: probe_node_def split: option.splits)
qed

lemma epochs_grow_observe: "epochs_grow h (snd (observe_epoch b index e h))"
  using ensure_epoch_locked_epoch(1) [of "config b" e "h ! (nodes b ! index)"]
  by (auto simp: observe_epoch_def get_def intro!: epochs_grow_update split: prod.splits option.splits)

lemma epochs_grow_acquire: "acquire_for b now index e h = Some (r, h') \<Longrightarrow> epochs_grow h h'"
proof -
  have u: "epochs_grow g (update_node a (\<lambda>n. n\<lparr>gate := x\<rparr>) g)" for g a x
    by (simp add: epochs_grow_update_node)
  have "epochs_grow h (update_node a (\<lambda>n. n\<lparr>gate := x\<rparr>) (update_node a (\<lambda>n. n\<lparr>gate := y\<rparr>) h))" for a x y
    by (rule epochs_grow_trans [OF u u])
  then show "acquire_for b now index e h = Some (r, h') \<Longrightarrow> epochs_grow h h'"
    using u by (auto simp: acquire_for_def Let_def split: if_splits option.splits)
qed

lemma epochs_grow_drop: "drop_backend_lease l h = Some h' \<Longrightarrow> epochs_grow h h'"
  by (auto simp: drop_backend_lease_def intro!: epochs_grow_update_node)

text \<open>Everything that can happen to the nodes of a balancer while it serves.\<close>

inductive health_step :: "Balancer \<Rightarrow> heap \<Rightarrow> heap \<Rightarrow> bool" for b where
  step_observe: "health_step b h (snd (observe_epoch b i e h))"
| step_status: "health_step b h (record_active_status_for t b i e status h)"
| step_transport: "health_step b h (record_active_transport_failure_for t b i e h)"
| step_timeout: "health_step b h (record_active_timeout_for t b i e h)"
| step_feedback_status: "health_step b h (record_http_status t now l status h)"
| step_feedback_transport: "health_step b h (record_transport_failure t now l h)"
| step_feedback_timeout: "health_step b h (record_timeout t now l h)"
| step_acquire: "acquire_for b now i e h = Some (r, h') \<Longrightarrow> health_step b h h'"
| step_drop: "drop_backend_lease l h = Some h' \<Longrightarrow> health_step b h h'"

lemma health_step_epochs: "health_step b h h' \<Longrightarrow> epochs_grow h h'"
  by (induction rule: health_step.induct)
    (auto simp: record_active_status_for_def record_active_transport_failure_for_def
      record_active_timeout_for_def update_epochs
      intro: epochs_grow_observe epochs_grow_probe epochs_grow_feedback epochs_grow_acquire epochs_grow_drop)

lemma health_steps_epochs: "(health_step b)\<^sup>*\<^sup>* h h' \<Longrightarrow> epochs_grow h h'"
  by (induction rule: rtranclp_induct) (auto intro: epochs_grow_trans health_step_epochs)

lemma stale_lease: "lease_epoch l < endpoint_epoch (h ! lease_node l) \<Longrightarrow> with_current_epoch l f h = h"
  by (simp add: with_current_epoch_def)

text \<open>
  C18. Feedback of an old endpoint is fenced off. Epochs of a node never go back, whatever the
  order of resolutions, probes, request feedback, acquisitions and drops; and once a node has
  moved to a newer epoch than a lease was granted in, every kind of feedback through that lease
  leaves all nodes exactly as they are, forever.
\<close>

theorem stale_feedback_ignored:
  assumes "(health_step b)\<^sup>*\<^sup>* h h'" "lease_node l < length h" "lease_epoch l < endpoint_epoch (h ! lease_node l)"
  shows "record_http_status t now l status h' = h' \<and> record_transport_failure t now l h' = h' \<and>
    record_timeout t now l h' = h' \<and> endpoint_epoch (h ! lease_node l) \<le> endpoint_epoch (h' ! lease_node l)"
proof -
  have "endpoint_epoch (h ! lease_node l) \<le> endpoint_epoch (h' ! lease_node l)"
    using health_steps_epochs [OF assms(1)] assms(2) by (simp add: epochs_grow_def)
  moreover from this have "lease_epoch l < endpoint_epoch (h' ! lease_node l)" using assms(3) by simp
  ultimately show ?thesis
    by (simp add: record_http_status_def record_transport_failure_def record_timeout_def record_result_def
        stale_lease split: option.splits)
qed

section \<open>The initial check\<close>

datatype probe = Status nat | TransportFailure | Timeout

fun record_probe :: "Balancer \<Rightarrow> nat \<Rightarrow> nat \<Rightarrow> clock \<times> probe \<Rightarrow> heap \<Rightarrow> heap" where
  "record_probe b i e (t, Status status) h = record_active_status_for t b i e status h"
| "record_probe b i e (t, TransportFailure) h = record_active_transport_failure_for t b i e h"
| "record_probe b i e (t, Timeout) h = record_active_timeout_for t b i e h"

fun probe_update :: "ActiveHealthPolicy \<Rightarrow> clock \<times> probe \<Rightarrow> Node \<Rightarrow> Node" where
  "probe_update policy (t, Status status) n = active_status_update t status policy n"
| "probe_update policy (t, TransportFailure) n = active_transport_update t policy n"
| "probe_update policy (t, Timeout) n = active_timeout_update t policy n"

fun healthy_probe :: "ActiveHealthPolicy \<Rightarrow> clock \<times> probe \<Rightarrow> bool" where
  "healthy_probe policy (t, Status status) = (status \<in> set (healthy_statuses policy))"
| "healthy_probe policy _ = False"

lemma probe_update_epoch [simp]: "endpoint_epoch (probe_update policy p n) = endpoint_epoch n"
  by (cases p; cases "snd p") (auto simp: update_epochs)

lemma record_probes_node:
  assumes "active_health (config b) = Some policy" "get (nodes b) i = Some a" "a < length h" "endpoint_epoch (h ! a) = e"
  shows "fold (record_probe b i e) ps h = h[a := fold (probe_update policy) ps (h ! a)]"
  using assms
proof (induction ps arbitrary: h)
  case (Cons p ps)
  have "record_probe b i e p h = h[a := probe_update policy p (h ! a)]"
    using Cons.prems by (cases p; cases "snd p")
      (auto simp: record_active_status_for_def record_active_transport_failure_for_def
        record_active_timeout_for_def probe_node_def ensure_epoch_locked_def)
  then show ?case using Cons.IH [of "h[a := probe_update policy p (h ! a)]"] Cons.prems by simp
qed simp

lemma probe_update_successes:
  assumes "initial_state policy = Checking"
  shows "active_successes (probe_update policy p n) = (if healthy_probe policy p then active_successes n + 1 else 0)"
  using assms by (cases p; cases "snd p")
    (auto simp: active_status_update_def active_transport_update_def active_timeout_update_def
      record_observation_def Let_def)

lemma probe_update_pending:
  "initial_check_pending (probe_update policy p n) \<longleftrightarrow> initial_check_pending n \<and>
     \<not> (healthy_probe policy p \<and> healthy_successes policy \<le> active_successes n + 1)"
  by (cases p; cases "snd p")
    (auto simp: active_status_update_def active_transport_update_def active_timeout_update_def
      record_observation_def Let_def)

lemma successes_streak:
  assumes "initial_state policy = Checking" "active_successes n = 0"
  shows "active_successes (fold (probe_update policy) ps n) = length (takeWhile (healthy_probe policy) (rev ps))"
  using assms by (induction ps rule: rev_induct) (simp_all add: probe_update_successes)

lemma prefix_run:
  "(\<exists>mid. prefix mid xs \<and> length mid = k \<and> list_all P mid) \<longleftrightarrow> k \<le> length (takeWhile P xs)"
proof
  assume "\<exists>mid. prefix mid xs \<and> length mid = k \<and> list_all P mid"
  then obtain mid zs where "xs = mid @ zs" "length mid = k" "list_all P mid" by (auto simp: prefix_def)
  then show "k \<le> length (takeWhile P xs)" by (simp add: takeWhile_append2 list_all_iff)
next
  assume k: "k \<le> length (takeWhile P xs)"
  have "prefix (take k (takeWhile P xs)) xs" by (metis prefix_order.trans take_is_prefix takeWhile_is_prefix)
  moreover have "list_all P (take k (takeWhile P xs))" by (auto simp: list_all_iff dest: in_set_takeD set_takeWhileD)
  ultimately show "\<exists>mid. prefix mid xs \<and> length mid = k \<and> list_all P mid"
    using k by (intro exI [of _ "take k (takeWhile P xs)"]) simp
qed

lemma pending_run:
  assumes "initial_state policy = Checking" "active_successes n = 0" "initial_check_pending n" "1 \<le> healthy_successes policy"
  shows "initial_check_pending (fold (probe_update policy) ps n) \<longleftrightarrow>
    \<not> (\<exists>mid. sublist mid (rev ps) \<and> length mid = healthy_successes policy \<and> list_all (healthy_probe policy) mid)"
proof (induction ps rule: rev_induct)
  case Nil
  then show ?case using assms by auto
next
  case (snoc p ps)
  have "(\<exists>mid. sublist mid (p # rev ps) \<and> length mid = healthy_successes policy \<and> list_all (healthy_probe policy) mid) \<longleftrightarrow>
    healthy_successes policy \<le> length (takeWhile (healthy_probe policy) (p # rev ps)) \<or>
    (\<exists>mid. sublist mid (rev ps) \<and> length mid = healthy_successes policy \<and> list_all (healthy_probe policy) mid)"
    unfolding prefix_run [symmetric] sublist_Cons_right by blast
  then show ?case using snoc assms by (auto simp: probe_update_pending successes_streak)
qed

text \<open>
  The initial check. A backend that starts in the checking state leaves it exactly when
  \<open>healthy_successes\<close> consecutive active probes of its endpoint have been healthy (any other
  status, a transport failure or a timeout breaks the run), and until then it is never
  available.
\<close>

theorem initial_check:
  assumes "active_health (config b) = Some policy" "initial_state policy = Checking" "1 \<le> healthy_successes policy"
    and "get (nodes b) i = Some a" "a < length h" "endpoint_epoch (h ! a) = e"
    and "active_successes (h ! a) = 0" "initial_check_pending (h ! a)"
  shows "let h' = fold (record_probe b i e) ps h in
    (initial_check_pending (h' ! a) \<longleftrightarrow>
       \<not> (\<exists>run. sublist run ps \<and> length run = healthy_successes policy \<and> list_all (healthy_probe policy) run)) \<and>
    (initial_check_pending (h' ! a) \<longrightarrow> \<not> available b h' now i)"
proof -
  let ?h = "fold (record_probe b i e) ps h"
  have n: "?h ! a = fold (probe_update policy) ps (h ! a)"
    using record_probes_node [OF assms(1,4,5,6)] assms(5) by simp
  have "(\<exists>run. sublist run ps \<and> length run = k \<and> list_all P run) \<longleftrightarrow>
    (\<exists>mid. sublist mid (rev ps) \<and> length mid = k \<and> list_all P mid)" for k and P :: "clock \<times> probe \<Rightarrow> bool"
    by (metis length_rev list.pred_set rev_rev_ident set_rev sublist_rev)
  moreover have "\<not> available b ?h now i" if "initial_check_pending (?h ! a)"
    using that assms(4) by (auto simp: available_def get_def Let_def split: if_splits)
  ultimately show ?thesis using pending_run [OF assms(2,7,8,3)] n by (simp add: Let_def)
qed

text \<open>Witnesses: a one-member pool with an active check, first probes, then a new endpoint.\<close>

definition demo_active_policy :: ActiveHealthPolicy where
  "demo_active_policy = \<lparr>ah_path = ''/up'', ah_host = None, interval_ms = 1000, timeout_ms = 500, healthy_statuses = [200],
     unhealthy_statuses = [503], healthy_successes = 2, unhealthy_http_failures = 2, unhealthy_tcp_failures = 2,
     unhealthy_timeouts = 2, initial_state = Checking\<rparr>"

definition demo_checked :: Balancer where
  "demo_checked = fst (new_balancer
     \<lparr>mode = RoundRobin, weights = [], health = None, active_health = Some demo_active_policy, passive_health = None\<rparr> 1 [])"

definition demo_nodes :: heap where
  "demo_nodes = [default_node\<lparr>active_unhealthy := True, initial_check_pending := True\<rparr>]"

definition demo_clock :: clock where
  "demo_clock = \<lparr>mono = 0, wall = 0\<rparr>"

lemma demo_checked_simps [simp]:
  "active_health (config demo_checked) = Some demo_active_policy" "get (nodes demo_checked) 0 = Some 0"
  "initial_state demo_active_policy = Checking" "healthy_successes demo_active_policy = 2" "healthy_statuses demo_active_policy = [200]"
  by (simp_all add: demo_checked_def new_balancer_def demo_active_policy_def get_def)

theorem stale_feedback_ignored_witness:
  "let h = snd (observe_epoch demo_checked 0 7 demo_nodes);
       l = \<lparr>lease_node = 0, lease_epoch = 3, lease_health = None, lease_passive = None\<rparr>;
       h' = record_active_status_for demo_clock demo_checked 0 7 200 h
   in record_http_status demo_clock 0 l 503 h' = h'"
proof -
  let ?h = "snd (observe_epoch demo_checked 0 7 demo_nodes)"
  have "length ?h = 1" "endpoint_epoch (?h ! 0) = 7"
    by (simp_all add: observe_epoch_def demo_nodes_def default_node_def ensure_epoch_locked_def)
  moreover have "(health_step demo_checked)\<^sup>*\<^sup>* ?h (record_active_status_for demo_clock demo_checked 0 7 200 ?h)"
    by (intro r_into_rtranclp step_status)
  ultimately show ?thesis
    using stale_feedback_ignored [of demo_checked ?h "record_active_status_for demo_clock demo_checked 0 7 200 ?h" "\<lparr>lease_node = 0, lease_epoch = 3, lease_health = None, lease_passive = None\<rparr>"]
    by (simp add: Let_def)
qed

theorem initial_check_witness:
  "let ps = [(demo_clock, Status 200), (demo_clock, Timeout), (demo_clock, Status 200), (demo_clock, Status 200)] in
   \<not> initial_check_pending (fold (record_probe demo_checked 0 0) ps demo_nodes ! 0)"
proof -
  let ?ps = "[(demo_clock, Status 200), (demo_clock, Timeout), (demo_clock, Status 200), (demo_clock, Status 200)]"
  let ?run = "[(demo_clock, Status 200), (demo_clock, Status 200)]"
  have "sublist ?run ?ps" by (simp add: sublist_Cons_right)
  then have "\<exists>run. sublist run ?ps \<and> length run = 2 \<and> list_all (healthy_probe demo_active_policy) run"
    by (intro exI [of _ ?run]) simp
  then show ?thesis
    using initial_check [of demo_checked demo_active_policy 0 0 demo_nodes 0 ?ps 0]
    by (simp add: Let_def demo_nodes_def default_node_def)
qed

section \<open>Reload\<close>

text \<open>\<open>base\<close> is the first address of the new generation; member \<open>i\<close> has an old node or node \<open>base + i\<close>.\<close>

definition placed :: "nat \<Rightarrow> nat \<Rightarrow> DesiredState list \<Rightarrow> nat list \<Rightarrow> heap \<Rightarrow> bool" where
  "placed base k states ns heap \<longleftrightarrow>
     length ns = length states \<and> length heap = base + length states \<and>
     (\<forall>i < length states. ns ! i < base \<or> ns ! i = base + i) \<and>
     (\<forall>i < k. adm_is_open (gate (heap ! (ns ! i))) = (states ! i = Serving)) \<and>
     (\<forall>i. k \<le> i \<and> i < length states \<longrightarrow> ns ! i = base + i \<and> adm_is_open (gate (heap ! (base + i))))"

lemma retire_closes: "\<not> adm_is_open (adm_retire g)"
  using gate.retired_closed gate.retire_retired by blast

lemma placed_reuse:
  assumes "placed base k states ns heap" "k < length states" "a < base"
    and "adm_is_open (gate (heap ! a)) = (states ! k = Serving)"
  shows "placed base (Suc k) states (ns[k := a]) heap"
  using assms by (auto simp: placed_def nth_list_update less_Suc_eq)

lemma placed_close:
  assumes "placed base k states ns heap" "k < length states" "states ! k \<noteq> Serving"
  shows "placed base (Suc k) states ns (update_node (ns ! k) (\<lambda>n. n\<lparr>gate := adm_retire (gate n)\<rparr>) heap)"
proof -
  have k: "ns ! k = base + k" "length heap = base + length states" using assms by (auto simp: placed_def)
  have ne: "ns ! i \<noteq> base + k" if "i < k" for i
    using assms(1,2) that by (auto simp: placed_def dest: spec [of _ i])
  have other: "heap[base + k := n] ! (ns ! i) = heap ! (ns ! i)" if "i < k" for i n
    using ne [OF that] by simp
  show ?thesis using assms k other
    by (auto simp: placed_def update_node_def less_Suc_eq retire_closes)
qed

lemma placed_keep:
  assumes "placed base k states ns heap" "k < length states" "states ! k = Serving"
  shows "placed base (Suc k) states ns heap"
  using assms by (auto simp: placed_def less_Suc_eq)

lemma place_members_placed:
  assumes "\<And>h i st a. take base h = old \<Longrightarrow> R h i st = Some a \<Longrightarrow> a < base \<and> adm_is_open (gate (h ! a)) = (st = Serving)"
    and "place_members R k (drop k states) ns heap = (ns', heap')" "placed base k states ns heap" "take base heap = old"
    and "k \<le> length states"
  shows "placed base (length states) states ns' heap' \<and> take base heap' = old"
  using assms(2-)
proof (induction "length states - k" arbitrary: k ns heap)
  case 0
  then show ?case by simp
next
  case (Suc m)
  then have k: "k < length states" "drop k states = states ! k # drop (Suc k) states"
    by (simp_all add: Cons_nth_drop_Suc)
  let ?h = "update_node (ns ! k) (\<lambda>n. n\<lparr>gate := adm_retire (gate n)\<rparr>) heap"
  have "take base ?h = old" using Suc.prems(2,3) k by (simp add: placed_def update_node_def)
  then show ?case
    using Suc.hyps(1) [of "Suc k"] Suc.hyps(2) Suc.prems k assms(1) [OF Suc.prems(3), of k "states ! k"]
      placed_reuse [OF Suc.prems(2)] placed_close [OF Suc.prems(2)] placed_keep [OF Suc.prems(2)]
    by (auto split: option.splits if_splits)
qed

lemma member_node_law:
  assumes "\<forall>old. previous = Some old \<longrightarrow> (\<forall>a\<in>set (nodes old). a < base)"
    and "member_node previous reuse mapping h i st = Some a"
  shows "a < base \<and> adm_is_open (gate (h ! a)) = (st = Serving)"
  using assms
  by (auto simp: member_node_def Let_def old_node_def get_def split: option.splits if_splits Option.bind_splits)

lemma retire_nodes_gate:
  "a < length heap \<Longrightarrow> gate (fold retire_node rs heap ! a) =
     (if a \<in> fst ` set rs then adm_retire (gate (heap ! a)) else gate (heap ! a))"
proof (induction rs arbitrary: heap)
  case (Cons r rs)
  have idem: "adm_retire (adm_retire g) = adm_retire g" for g by (simp add: adm_retire_def or.assoc)
  have "gate (retire_node r heap ! a) = (if a = fst r then adm_retire (gate (heap ! a)) else gate (heap ! a))"
    "length (retire_node r heap) = length heap"
    using Cons.prems by (simp_all add: retire_node_def update_node_def nth_list_update)
  then show ?case using Cons.IH [of "retire_node r heap"] Cons.prems idem by auto
qed simp

lemma retirements_nodes: "fst ` set (retirements b successor) =
  {a \<in> set (nodes b). case successor of None \<Rightarrow> True | Some next \<Rightarrow> a \<notin> set (nodes next)}"
proof -
  let ?P = "\<lambda>a. case successor of None \<Rightarrow> True | Some next \<Rightarrow> a \<notin> set (nodes next)"
  have "fst ` set (retirements b successor) = snd ` {x \<in> set (enumerate 0 (nodes b)). ?P (snd x)}"
    by (simp add: retirements_def image_image case_prod_beta)
  also have "\<dots> = {a \<in> snd ` set (enumerate 0 (nodes b)). ?P a}" by blast
  also have "snd ` set (enumerate 0 (nodes b)) = set (nodes b)" by (metis list.set_map map_snd_enumerate)
  finally show ?thesis .
qed

text \<open>
  C14. A reload is exact and does not disturb the published generation. Building the next
  balancer from the desired states of its members never changes a node that was there before;
  in the result a member is admitted exactly when its desired state is serving; and when the old
  nodes that the new generation does not share are then retired, every one of them is closed
  while the admission of every member of the new generation is as before.
\<close>

theorem reload_exact:
  assumes "with_member_states c (Some old) mapping states heap = Some (b, heap')"
    and "\<forall>a\<in>set (nodes old). a < length heap"
  shows "length (nodes b) = length states \<and> take (length heap) heap' = heap \<and>
    (\<forall>i < length states. admission_open b heap' i = (states ! i = Serving)) \<and>
    (let heap'' = fold retire_node (retirements old (Some b)) heap' in
       (\<forall>i < length states. admission_open b heap'' i = (states ! i = Serving)) \<and>
       (\<forall>a\<in>set (nodes old) - set (nodes b). \<not> adm_is_open (gate (heap'' ! a))))"
proof -
  let ?base = "length heap"
  let ?R = "member_node (Some old) (compatible c (config old)) mapping"
  let ?h = "snd (new_balancer c (length states) heap)"
  obtain ns where p: "place_members ?R 0 states [?base..<?base + length states] ?h = (ns, heap')" "nodes b = ns"
    using assms(1) by (auto simp: with_member_states_def Let_def new_balancer_def split: if_splits prod.splits)
  have "placed ?base 0 states [?base..<?base + length states] ?h"
    by (simp add: placed_def new_balancer_def nth_append default_node_def adm_is_open_iff adm_serving_def)
  moreover have "take ?base ?h = heap" by (simp add: new_balancer_def)
  moreover have law: "a < ?base \<and> adm_is_open (gate (h ! a)) = (st = Serving)" if "?R h i st = Some a" for h i st a
    using assms(2) that by (intro member_node_law) auto
  ultimately have P: "placed ?base (length states) states ns heap'" "take ?base heap' = heap"
    using place_members_placed [where k = 0 and states = states, OF law] p(1) by simp_all
  have valid: "a < length heap'" if "a \<in> set (nodes old) \<union> set ns" for a
    using that P(1) assms(2) by (fastforce simp: placed_def in_set_conv_nth)
  have opens: "admission_open b heap' i = (states ! i = Serving)" "ns ! i \<in> set ns" "length ns = length states"
    if "i < length states" for i
    using P(1) that p(2) by (auto simp: placed_def admission_open_def get_def)
  let ?h2 = "fold retire_node (retirements old (Some b)) heap'"
  have "gate (?h2 ! (ns ! i)) = gate (heap' ! (ns ! i))" if "i < length states" for i
    using retire_nodes_gate [of "ns ! i" heap' "retirements old (Some b)"] opens(2) [OF that] valid p(2)
    by (simp add: retirements_nodes)
  then have "admission_open b ?h2 i = admission_open b heap' i" if "i < length states" for i
    using that p(2) opens(3) [OF that] by (simp add: admission_open_def get_def)
  moreover have "\<not> adm_is_open (gate (?h2 ! a))" if "a \<in> set (nodes old) - set (nodes b)" for a
    using that retire_nodes_gate [of a heap' "retirements old (Some b)"] valid [of a]
    by (simp add: retirements_nodes retire_closes)
  moreover have "length (nodes b) = length states" using P(1) p(2) by (simp add: placed_def)
  ultimately show ?thesis using P(2) opens(1) by (simp add: Let_def)
qed

theorem reload_exact_witness:
  "\<exists>b heap'. with_member_states (demo_config RoundRobin) (Some (demo_pool RoundRobin)) [Some 0, Some 1] [Serving, Draining]
       (demo_heap RoundRobin) = Some (b, heap') \<and> admission_open b heap' 0 \<and> \<not> admission_open b heap' 1"
proof -
  obtain b heap' where r: "with_member_states (demo_config RoundRobin) (Some (demo_pool RoundRobin)) [Some 0, Some 1]
    [Serving, Draining] (demo_heap RoundRobin) = Some (b, heap')"
    by (cases "with_member_states (demo_config RoundRobin) (Some (demo_pool RoundRobin)) [Some 0, Some 1]
        [Serving, Draining] (demo_heap RoundRobin)")
      (auto simp: with_member_states_def Let_def split: prod.splits simp del: place_members.simps)
  have "\<forall>a\<in>set (nodes (demo_pool RoundRobin)). a < length (demo_heap RoundRobin)"
    by (simp add: demo_heap_def new_balancer_def)
  from reload_exact [OF r this] r show ?thesis by (auto simp: less_Suc_eq)
qed

end
