(* ===== verification/RetiredMembers.thy ===== *)
theory RetiredMembers
  imports Balance
begin

text \<open>
  The registry of retired member generations (\<^verbatim>\<open>src/src/retired_members.rs\<close>). A counter is
  the gate of an HTTP balancer node or the gate of a TCP member; the world holds both. A
  reservation is the number of its slots. The registry's mutex is not modelled: every operation
  is one step. A poisoned lock needs a panic under the lock, and the run theorem below shows
  that none happens.
\<close>

record world =
  w_nodes :: heap
  w_gates :: "u64 list"

datatype Counter = Http nat | Tcp nat

fun counter_gate :: "world \<Rightarrow> Counter \<Rightarrow> u64" where
  "counter_gate w (Http a) = gate (w_nodes w ! a)"
| "counter_gate w (Tcp a) = w_gates w ! a"

fun set_gate :: "Counter \<Rightarrow> u64 \<Rightarrow> world \<Rightarrow> world" where
  "set_gate (Http a) g w = w\<lparr>w_nodes := update_node a (\<lambda>n. n\<lparr>gate := g\<rparr>) (w_nodes w)\<rparr>"
| "set_gate (Tcp a) g w = w\<lparr>w_gates := (w_gates w)[a := g]\<rparr>"

definition counter_retire :: "Counter \<Rightarrow> world \<Rightarrow> world" where
  "counter_retire c w = set_gate c (adm_retire (counter_gate w c)) w"

definition counter_active :: "world \<Rightarrow> Counter \<Rightarrow> nat" where
  "counter_active w c = adm_active (counter_gate w c)"

record Record =
  protocol :: string
  route_id :: string
  rec_member_id :: "string option"
  rec_address :: string
  rec_counter :: Counter

record Entry =
  retirement_id :: nat
  rec_of :: Record

record Observation =
  ob_retirement_id :: nat
  ob_protocol :: string
  ob_route_id :: string
  ob_member_id :: "string option"
  ob_address :: string
  active_admissions :: nat

record Registry =
  records :: "Entry list"
  pending :: nat
  next_id :: nat
  capacity :: nat

definition CAPACITY :: nat where
  "CAPACITY = 4096"

definition default_registry :: Registry where
  "default_registry = \<lparr>records = [], pending = 0, next_id = 1, capacity = CAPACITY\<rparr>"

definition entry_active :: "world \<Rightarrow> Entry \<Rightarrow> bool" where
  "entry_active w e \<longleftrightarrow> 0 < counter_active w (rec_counter (rec_of e))"

text \<open>\<open>alloc\<close> is whether \<^verbatim>\<open>try_reserve\<close> obtains the memory.\<close>

definition reserve_slots :: "bool \<Rightarrow> world \<Rightarrow> nat \<Rightarrow> Registry \<Rightarrow> (string + nat) \<times> Registry" where
  "reserve_slots alloc w count r =
     (if count = 0 then (Inr 0, r)
      else
        let r = r\<lparr>records := filter (entry_active w) (records r)\<rparr>;
            occupied = length (records r) + pending r
        in if \<not> count \<le> capacity r - occupied then (Inl ''retired member registry capacity exceeded'', r)
           else if \<not> next_id r + (pending r + count) < 2 ^ 64 then
             (Inl ''retired member registry identifier exhausted'', r)
           else if \<not> alloc then (Inl ''retired member registry allocation failed'', r)
           else (Inr count, r\<lparr>pending := pending r + count\<rparr>))"

definition snapshot :: "world \<Rightarrow> Registry \<Rightarrow> Observation list \<times> Registry" where
  "snapshot w r =
     (let r = r\<lparr>records := filter (entry_active w) (records r)\<rparr>
      in (List.map_filter (\<lambda>e.
            let n = counter_active w (rec_counter (rec_of e)) in
            if 0 < n then Some
              \<lparr>ob_retirement_id = retirement_id e, ob_protocol = protocol (rec_of e),
               ob_route_id = route_id (rec_of e), ob_member_id = rec_member_id (rec_of e),
               ob_address = rec_address (rec_of e), active_admissions = n\<rparr>
            else None) (records r), r))"

text \<open>One round of the commit loop; \<^term>\<open>None\<close> is the overflow of the identifier.\<close>

definition commit_record :: "Record \<Rightarrow> Registry \<times> world \<Rightarrow> (Registry \<times> world) option" where
  "commit_record rec s =
     (let (r, w) = s; w = counter_retire (rec_counter rec) w in
      if \<not> next_id r + 1 < 2 ^ 64 then None
      else Some (r\<lparr>next_id := next_id r + 1,
                   records := (if 0 < counter_active w (rec_counter rec)
                     then records r @ [\<lparr>retirement_id = next_id r, rec_of = rec\<rparr>] else records r)\<rparr>, w))"

fun commit_records :: "Record list \<Rightarrow> Registry \<times> world \<Rightarrow> (Registry \<times> world) option" where
  "commit_records [] s = Some s"
| "commit_records (rec # recs) s = Option.bind (commit_record rec s) (commit_records recs)"

text \<open>\<^term>\<open>None\<close> is the failed assertion or the underflow of \<open>pending\<close>.\<close>

definition commit :: "nat \<Rightarrow> Record list \<Rightarrow> Registry \<times> world \<Rightarrow> (Registry \<times> world) option" where
  "commit slots recs s =
     (if \<not> length recs \<le> slots then None
      else if pending (fst s) < slots then None
      else commit_records recs ((fst s)\<lparr>pending := pending (fst s) - slots\<rparr>, snd s))"

definition drop_reservation :: "nat \<Rightarrow> Registry \<Rightarrow> Registry option" where
  "drop_reservation slots r =
     (if slots \<noteq> 0 then (if pending r < slots then None else Some (r\<lparr>pending := pending r - slots\<rparr>)) else Some r)"

section \<open>Runs\<close>

definition valid_counter :: "world \<Rightarrow> Counter \<Rightarrow> bool" where
  "valid_counter w c = (case c of Http a \<Rightarrow> a < length (w_nodes w) | Tcp a \<Rightarrow> a < length (w_gates w))"

text \<open>What traffic does to a gate: acquisitions, releases, activations and other retirements.\<close>

inductive gate_env :: "world \<Rightarrow> world \<Rightarrow> bool" where
  env_acquire: "adm_acquire (counter_gate w c) = Some g \<Longrightarrow> gate_env w (set_gate c g w)"
| env_release: "adm_release (counter_gate w c) = Some g \<Longrightarrow> gate_env w (set_gate c g w)"
| env_activate: "gate_env w (set_gate c (snd (adm_activate (counter_gate w c))) w)"
| env_retire: "gate_env w (counter_retire c w)"

type_synonym reg_state = "Registry \<times> world \<times> nat list"

text \<open>A state has the registry, the world and the slots of the outstanding reservations.\<close>

inductive reg_step :: "reg_state \<Rightarrow> reg_state \<Rightarrow> bool" where
  reserve_ok: "reserve_slots alloc w count r = (Inr slots, r') \<Longrightarrow> reg_step (r, w, rs) (r', w, slots # rs)"
| reserve_err: "reserve_slots alloc w count r = (Inl e, r') \<Longrightarrow> reg_step (r, w, rs) (r', w, rs)"
| committed: "slots \<in> set rs \<Longrightarrow> list_all (\<lambda>rec. valid_counter w (rec_counter rec)) recs \<Longrightarrow>
    commit slots recs (r, w) = Some (r', w') \<Longrightarrow> reg_step (r, w, rs) (r', w', remove1 slots rs)"
| dropped: "slots \<in> set rs \<Longrightarrow> drop_reservation slots r = Some r' \<Longrightarrow> reg_step (r, w, rs) (r', w, remove1 slots rs)"
| snapshotted: "reg_step (r, w, rs) (snd (snapshot w r), w, rs)"
| traffic: "gate_env w w' \<Longrightarrow> reg_step (r, w, rs) (r, w', rs)"

definition entries_ok :: "world \<Rightarrow> Registry \<Rightarrow> bool" where
  "entries_ok w r \<longleftrightarrow> distinct (map retirement_id (records r)) \<and>
     (\<forall>e\<in>set (records r). retirement_id e < next_id r \<and> valid_counter w (rec_counter (rec_of e)) \<and>
        adm_retired (counter_gate w (rec_counter (rec_of e))))"

definition reg_inv :: "reg_state \<Rightarrow> bool" where
  "reg_inv s = (case s of (r, w, rs) \<Rightarrow>
     pending r = sum_list rs \<and> length (records r) + pending r \<le> capacity r \<and>
     next_id r + pending r < 2 ^ 64 \<and> entries_ok w r)"

lemma valid_set_gate [simp]: "valid_counter (set_gate c g w) = valid_counter w"
  by (cases c) (auto simp: valid_counter_def update_node_def split: Counter.splits)

lemma gate_set_gate:
  "valid_counter w c' \<Longrightarrow> counter_gate (set_gate c g w) c' = (if c = c' then g else counter_gate w c')"
  by (cases c; cases c') (auto simp: valid_counter_def update_node_def nth_list_update)

lemma gate_env_retired:
  assumes "gate_env w w'"
  shows "valid_counter w' = valid_counter w"
    and "valid_counter w c \<Longrightarrow> adm_retired (counter_gate w c) \<Longrightarrow> adm_retired (counter_gate w' c)"
  using assms
proof (induction rule: gate_env.induct)
  case (env_acquire w c' g)
  {
    case 1
    then show ?case by simp
  next
    case 2
    then show ?case using env_acquire gate.retired_closed gate.closed_refuses
      by (cases "c' = c") (auto simp: gate_set_gate)
  }
next
  case (env_release w c' g)
  {
    case 1
    then show ?case by simp
  next
    case 2
    then show ?case using gate.release_retired [OF env_release] by (cases "c' = c") (auto simp: gate_set_gate)
  }
next
  case (env_activate w c')
  {
    case 1
    then show ?case by simp
  next
    case 2
    then show ?case by (cases "c' = c") (auto simp: gate_set_gate gate.activate_retired)
  }
next
  case (env_retire w c')
  {
    case 1
    then show ?case by (simp add: counter_retire_def)
  next
    case 2
    then show ?case by (simp add: counter_retire_def gate_set_gate gate.retire_retired)
  }
qed

lemma entries_ok_env: "gate_env w w' \<Longrightarrow> entries_ok w r \<Longrightarrow> entries_ok w' r"
  using gate_env_retired by (auto simp: entries_ok_def)

lemma entries_ok_filter: "entries_ok w r \<Longrightarrow> entries_ok w (r\<lparr>records := filter P (records r)\<rparr>)"
  by (auto simp: entries_ok_def distinct_map_filter)

lemma entries_ok_pending [simp]: "entries_ok w (r\<lparr>pending := p\<rparr>) = entries_ok w r"
  by (simp add: entries_ok_def)

lemma commit_record_ok:
  assumes "entries_ok w r" "valid_counter w (rec_counter rec)" "next_id r + 1 < 2 ^ 64"
  obtains r' w' where "commit_record rec (r, w) = Some (r', w')" "entries_ok w' r'" "next_id r' = next_id r + 1"
    "length (records r') \<le> length (records r) + 1" "pending r' = pending r" "capacity r' = capacity r"
    "w' = counter_retire (rec_counter rec) w"
    "set (records r') = set (records r) \<union> (if 0 < counter_active w' (rec_counter rec) then {\<lparr>retirement_id = next_id r, rec_of = rec\<rparr>} else {})"
proof -
  let ?w = "counter_retire (rec_counter rec) w"
  let ?r = "r\<lparr>next_id := next_id r + 1,
                   records := (if 0 < counter_active ?w (rec_counter rec)
                     then records r @ [\<lparr>retirement_id = next_id r, rec_of = rec\<rparr>] else records r)\<rparr>"
  have e: "entries_ok ?w r" by (rule entries_ok_env [OF env_retire assms(1)])
  have "valid_counter ?w (rec_counter rec)" "adm_retired (counter_gate ?w (rec_counter rec))"
    using assms(2) by (simp_all add: counter_retire_def gate_set_gate gate.retire_retired)
  then have "entries_ok ?w ?r" using e by (fastforce simp: entries_ok_def)
  moreover have "commit_record rec (r, w) = Some (?r, ?w)" using assms(3) by (simp add: commit_record_def Let_def)
  ultimately show thesis by (intro that [of ?r ?w]) simp_all
qed

text \<open>Only retirements happened between two worlds.\<close>

definition retires_only :: "world \<Rightarrow> world \<Rightarrow> bool" where
  "retires_only w w' \<longleftrightarrow> valid_counter w' = valid_counter w \<and>
     (\<forall>c. valid_counter w c \<longrightarrow> counter_active w' c = counter_active w c \<and>
        (adm_retired (counter_gate w c) \<longrightarrow> adm_retired (counter_gate w' c)))"

lemma retires_only_refl: "retires_only w w"
  by (simp add: retires_only_def)

lemma retires_only_trans: "retires_only w w1 \<Longrightarrow> retires_only w1 w' \<Longrightarrow> retires_only w w'"
  by (simp add: retires_only_def)

lemma counter_retire_only: "retires_only w (counter_retire c w)"
  by (auto simp: retires_only_def counter_retire_def counter_active_def gate_set_gate gate.retire_active gate.retire_retired)

lemma counter_retired: "valid_counter w c \<Longrightarrow> adm_retired (counter_gate (counter_retire c w) c)"
  by (simp add: counter_retire_def gate_set_gate gate.retire_retired)

definition recorded :: "world \<Rightarrow> Registry \<Rightarrow> Record \<Rightarrow> bool" where
  "recorded w r rec \<longleftrightarrow> adm_retired (counter_gate w (rec_counter rec)) \<and>
     (counter_active w (rec_counter rec) = 0 \<or> rec \<in> rec_of ` set (records r))"

lemma commit_records_ok:
  assumes "entries_ok w r" "list_all (\<lambda>rec. valid_counter w (rec_counter rec)) recs" "next_id r + length recs < 2 ^ 64"
  shows "\<exists>r' w'. commit_records recs (r, w) = Some (r', w') \<and> entries_ok w' r' \<and> next_id r' = next_id r + length recs \<and>
    length (records r') \<le> length (records r) + length recs \<and> pending r' = pending r \<and> capacity r' = capacity r \<and>
    retires_only w w' \<and> set (records r) \<subseteq> set (records r') \<and> list_all (recorded w' r') recs"
  using assms
proof (induction recs arbitrary: r w)
  case (Cons rec recs)
  have val: "valid_counter w (rec_counter rec)" using Cons.prems by simp
  obtain r1 w1 where s: "commit_record rec (r, w) = Some (r1, w1)" "entries_ok w1 r1" "next_id r1 = next_id r + 1"
    "length (records r1) \<le> length (records r) + 1" "pending r1 = pending r" "capacity r1 = capacity r"
    "w1 = counter_retire (rec_counter rec) w"
    "set (records r1) = set (records r) \<union> (if 0 < counter_active w1 (rec_counter rec) then {\<lparr>retirement_id = next_id r, rec_of = rec\<rparr>} else {})"
    using commit_record_ok [of w r rec] Cons.prems by auto
  have env: "retires_only w w1" unfolding s(7) by (rule counter_retire_only)
  have v: "list_all (\<lambda>rec. valid_counter w1 (rec_counter rec)) recs"
    using Cons.prems(2) env by (simp add: retires_only_def)
  obtain r' w' where t: "commit_records recs (r1, w1) = Some (r', w')" "entries_ok w' r'" "next_id r' = next_id r1 + length recs"
    "length (records r') \<le> length (records r1) + length recs" "pending r' = pending r1" "capacity r' = capacity r1"
    "retires_only w1 w'" "set (records r1) \<subseteq> set (records r')" "list_all (recorded w' r') recs"
    using Cons.IH [OF s(2) v] s(3) Cons.prems(3) by auto
  have "adm_retired (counter_gate w1 (rec_counter rec))" "valid_counter w1 (rec_counter rec)"
    using counter_retired [OF val] env val unfolding s(7) by (simp_all add: retires_only_def)
  then have "adm_retired (counter_gate w' (rec_counter rec))"
    "counter_active w' (rec_counter rec) = counter_active w1 (rec_counter rec)"
    using t(7) by (auto simp: retires_only_def)
  moreover have "rec \<in> rec_of ` set (records r')" if "0 < counter_active w1 (rec_counter rec)"
    using that s(8) t(8) by (force intro: image_eqI [of _ _ "\<lparr>retirement_id = next_id r, rec_of = rec\<rparr>"])
  ultimately have "recorded w' r' rec" by (auto simp: recorded_def)
  moreover have "set (records r) \<subseteq> set (records r')" using s(8) t(8) by auto
  ultimately show ?case using s t retires_only_trans [OF env t(7)] by simp
qed (simp add: retires_only_refl)

lemma sum_list_remove1: "(x :: nat) \<in> set xs \<Longrightarrow> sum_list (remove1 x xs) + x = sum_list xs"
  by (induction xs) auto

lemma commit_ok:
  assumes "reg_inv (r, w, rs)" "slots \<in> set rs" "length recs \<le> slots"
    and "list_all (\<lambda>rec. valid_counter w (rec_counter rec)) recs"
  obtains r' w' where "commit slots recs (r, w) = Some (r', w')" "reg_inv (r', w', remove1 slots rs)"
    "list_all (recorded w' r') recs" "set (records r) \<subseteq> set (records r')" "capacity r' = capacity r"
proof -
  have inv: "pending r = sum_list rs" "length (records r) + pending r \<le> capacity r" "next_id r + pending r < 2 ^ 64" "entries_ok w r"
    using assms(1) by (simp_all add: reg_inv_def)
  have sum: "sum_list (remove1 slots rs) + slots = pending r" using sum_list_remove1 [OF assms(2)] inv(1) by simp
  obtain r' w' where t: "commit_records recs (r\<lparr>pending := pending r - slots\<rparr>, w) = Some (r', w')" "entries_ok w' r'"
    "next_id r' = next_id r + length recs" "length (records r') \<le> length (records r) + length recs"
    "pending r' = pending r - slots" "capacity r' = capacity r"
    "set (records r) \<subseteq> set (records r')" "list_all (recorded w' r') recs"
    using commit_records_ok [of w "r\<lparr>pending := pending r - slots\<rparr>" recs] inv assms(3,4) sum by auto
  show thesis
  proof (rule that [of r' w'])
    show "commit slots recs (r, w) = Some (r', w')" using t(1) sum assms(3) by (simp add: commit_def)
    show "reg_inv (r', w', remove1 slots rs)" using t(2-6) inv sum assms(3) unfolding reg_inv_def by simp linarith
  qed (use t in simp_all)
qed

lemma filter_inv:
  assumes "reg_inv (r, w, rs)"
  shows "reg_inv (r\<lparr>records := filter P (records r)\<rparr>, w, rs)"
proof -
  have "length (records r) + pending r \<le> capacity r" using assms by (simp add: reg_inv_def)
  then have "length (filter P (records r)) + pending r \<le> capacity r"
    by (rule order_trans [OF add_right_mono [OF length_filter_le]])
  then show ?thesis using assms by (simp add: reg_inv_def entries_ok_filter)
qed

lemma reserve_slots_inv:
  assumes "reserve_slots alloc w count r = (res, r')" "reg_inv (r, w, rs)"
  shows "case res of Inr slots \<Rightarrow> slots = count \<and> reg_inv (r', w, slots # rs) | Inl e \<Rightarrow> reg_inv (r', w, rs)"
proof (cases "count = 0")
  case True
  then show ?thesis using assms by (auto simp: reserve_slots_def reg_inv_def)
next
  case False
  let ?r = "r\<lparr>records := filter (entry_active w) (records r)\<rparr>"
  have i: "reg_inv (?r, w, rs)" by (rule filter_inv [OF assms(2)])
  then have "reg_inv (?r\<lparr>pending := pending r + count\<rparr>, w, count # rs)"
    if "count \<le> capacity r - (length (records ?r) + pending r)" "next_id r + (pending r + count) < 2 ^ 64"
    using that by (auto simp: reg_inv_def)
  then show ?thesis using assms(1) False i by (auto simp: reserve_slots_def Let_def split: if_splits)
qed

lemma drop_inv:
  assumes "reg_inv (r, w, rs)" "slots \<in> set rs"
  shows "\<exists>r'. drop_reservation slots r = Some r' \<and> reg_inv (r', w, remove1 slots rs) \<and> capacity r' = capacity r"
proof -
  have "sum_list (remove1 slots rs) + slots = pending r" "pending r = sum_list rs"
    using sum_list_remove1 [OF assms(2)] assms(1) by (simp_all add: reg_inv_def)
  then show ?thesis using assms(1) by (auto simp: drop_reservation_def reg_inv_def)
qed

lemma commit_length: "commit slots recs s = Some s' \<Longrightarrow> length recs \<le> slots"
  by (auto simp: commit_def split: if_splits)

lemma reg_step_inv: "reg_step s s' \<Longrightarrow> reg_inv s \<Longrightarrow> reg_inv s' \<and> capacity (fst s') = capacity (fst s)"
proof (induction rule: reg_step.induct)
  case (reserve_ok alloc w count r slots r' rs)
  then show ?case using reserve_slots_inv [OF reserve_ok.hyps, of rs]
    by (auto simp: reserve_slots_def Let_def split: if_splits)
next
  case (reserve_err alloc w count r e r' rs)
  then show ?case using reserve_slots_inv [OF reserve_err.hyps, of rs]
    by (auto simp: reserve_slots_def Let_def split: if_splits)
next
  case (committed slots rs w recs r r' w')
  obtain r1 w1 where "commit slots recs (r, w) = Some (r1, w1)" "reg_inv (r1, w1, remove1 slots rs)" "capacity r1 = capacity r"
    by (rule commit_ok [OF committed.prems committed.hyps(1) commit_length [OF committed.hyps(3)] committed.hyps(2)])
  then show ?case using committed.hyps(3) by simp
next
  case (dropped slots rs r r' w)
  then show ?case using drop_inv [OF dropped.prems dropped.hyps(1)] by auto
next
  case (snapshotted r w rs)
  then show ?case by (simp add: snapshot_def Let_def filter_inv)
next
  case (traffic w w' r rs)
  then show ?case using entries_ok_env by (auto simp: reg_inv_def)
qed

lemma reg_steps_inv: "reg_step\<^sup>*\<^sup>* s s' \<Longrightarrow> reg_inv s \<Longrightarrow> reg_inv s' \<and> capacity (fst s') = capacity (fst s)"
  by (induction rule: rtranclp_induct) (auto dest: reg_step_inv)

lemma reg_inv_default: "reg_inv (default_registry, w, [])"
  by (simp add: reg_inv_def default_registry_def entries_ok_def)

text \<open>
  C13. The registry of retired members. After any interleaving of reservations, commits, abandoned
  reservations, snapshots and traffic on the gates, recorded and reserved entries together stay
  within the capacity, retirement ids are distinct, and no entry has an open gate. A commit of at
  most as many records as were reserved never panics, whatever happened since the reservation;
  it closes the gate of every record and keeps an entry for each one that still has leases,
  and for every entry there was. Dropping a reservation never panics.
\<close>

theorem registry_safe:
  assumes "reg_step\<^sup>*\<^sup>* (default_registry, w0, []) (r, w, rs)" and "slots \<in> set rs"
    and "length recs \<le> slots" and "list_all (\<lambda>rec. valid_counter w (rec_counter rec)) recs"
  shows "length (records r) + pending r \<le> CAPACITY \<and> distinct (map retirement_id (records r)) \<and>
    list_all (\<lambda>e. \<not> adm_is_open (counter_gate w (rec_counter (rec_of e)))) (records r) \<and>
    (\<exists>r' w'. commit slots recs (r, w) = Some (r', w') \<and> set (records r) \<subseteq> set (records r') \<and>
       list_all (\<lambda>rec. \<not> adm_is_open (counter_gate w' (rec_counter rec)) \<and>
         (counter_active w' (rec_counter rec) = 0 \<or> rec \<in> rec_of ` set (records r'))) recs) \<and>
    (\<exists>r'. drop_reservation slots r = Some r')"
proof -
  have inv: "reg_inv (r, w, rs)" "capacity r = CAPACITY"
    using reg_steps_inv [OF assms(1) reg_inv_default] by (simp_all add: default_registry_def)
  obtain r' w' where c: "commit slots recs (r, w) = Some (r', w')" "list_all (recorded w' r') recs"
    "set (records r) \<subseteq> set (records r')"
    using commit_ok [OF inv(1) assms(2-4)] by metis
  have "list_all (\<lambda>rec. \<not> adm_is_open (counter_gate w' (rec_counter rec)) \<and>
         (counter_active w' (rec_counter rec) = 0 \<or> rec \<in> rec_of ` set (records r'))) recs"
    using c(2) gate.retired_closed by (auto simp: list_all_iff recorded_def)
  moreover have "list_all (\<lambda>e. \<not> adm_is_open (counter_gate w (rec_counter (rec_of e)))) (records r)"
    using inv(1) gate.retired_closed by (auto simp: list_all_iff reg_inv_def entries_ok_def)
  ultimately show ?thesis using inv c drop_inv [OF inv(1) assms(2)] by (auto simp: reg_inv_def entries_ok_def)
qed

theorem registry_safe_witness:
  "let w = \<lparr>w_nodes = [], w_gates = [1]\<rparr>;
       rec = \<lparr>protocol = ''tcp'', route_id = ''r'', rec_member_id = None, rec_address = ''h:1'', rec_counter = Tcp 0\<rparr>
   in reserve_slots True w 1 default_registry = (Inr 1, default_registry\<lparr>pending := 1\<rparr>) \<and>
     (\<exists>r' w'. commit 1 [rec] (default_registry\<lparr>pending := 1\<rparr>, w) = Some (r', w') \<and>
        \<not> adm_is_open (counter_gate w' (Tcp 0)))"
proof -
  let ?w = "\<lparr>w_nodes = [], w_gates = [1]\<rparr>"
  let ?rec = "\<lparr>protocol = ''tcp'', route_id = ''r'', rec_member_id = None, rec_address = ''h:1'', rec_counter = Tcp 0\<rparr>"
  have r: "reserve_slots True ?w 1 default_registry = (Inr 1, default_registry\<lparr>pending := 1\<rparr>)"
    by (simp add: reserve_slots_def Let_def default_registry_def CAPACITY_def)
  have s: "reg_step\<^sup>*\<^sup>* (default_registry, ?w, []) (default_registry\<lparr>pending := 1\<rparr>, ?w, [1])"
    using reserve_ok [OF r, of "[]"] by (rule r_into_rtranclp)
  show ?thesis using registry_safe [OF s, of 1 "[?rec]"] r by (auto simp: Let_def valid_counter_def)
qed

end
