(* ===== verification/ResourceGuard.thy ===== *)
theory ResourceGuard
  imports PathBlocks
begin

text \<open>
  Host and path namespaces of protected resources (\<^verbatim>\<open>src/src/resource_guard.rs\<close>) and what
  \<^verbatim>\<open>src/src/config.rs\<close> computes from them. Of an \<^verbatim>\<open>HttpRoute\<close> the record has the fields these
  functions read; a policy of which they read only the presence is a truth value. The
  \<^verbatim>\<open>regex\<close> crate is a parameter: the type of a compiled expression and its \<^verbatim>\<open>is_match\<close>.
\<close>

datatype PathMatch = Prefix | Exact | SegmentPrefix

datatype PathCase = Sensitive | Insensitive

record http_route =
  listener_ids :: "string list"
  route_host :: "string option"
  route_hosts :: "string list"
  host_regex_text :: "string option"
  path_prefix :: "string option"
  path_match :: PathMatch
  path_case :: "PathCase option"
  route_enabled :: bool
  priority :: int
  has_auth :: bool
  has_basic_auth :: bool
  has_jwt_auth :: bool
  is_protected :: bool
  has_response_transform :: bool
  policy_resource_id :: "string option"

record 'rx http_runtime =
  route :: http_route
  host_regex :: "'rx option"

text \<open>The listener evidence attached to a request: a workload listener, or the id of a public one.\<close>

record listener_evidence =
  workload_evidence :: bool
  public_listener :: "string option"

definition listener_matches :: "http_route \<Rightarrow> listener_evidence \<Rightarrow> bool" where
  "listener_matches r e =
     (if workload_evidence e then listener_ids r = []
      else
        let i = (case public_listener e of Some i \<Rightarrow> i | None \<Rightarrow> ''default'')
        in if listener_ids r = [] then i = ''default'' else i \<in> set (listener_ids r))"

definition host_matches :: "('rx \<Rightarrow> string \<Rightarrow> bool) \<Rightarrow> http_route \<Rightarrow> 'rx option \<Rightarrow> string option \<Rightarrow> bool" where
  "host_matches is_match r regex actual =
     (if (case route_host r of None \<Rightarrow> False
          | Some pattern \<Rightarrow> \<not> (case actual of None \<Rightarrow> False | Some host \<Rightarrow> host_matches_pattern pattern host)) then False
      else if route_hosts r \<noteq> [] \<and>
          \<not> (case actual of None \<Rightarrow> False
              | Some host \<Rightarrow> list_ex (\<lambda>pattern. host_matches_pattern pattern host) (route_hosts r)) then False
      else \<not> (case regex of None \<Rightarrow> False
          | Some rx \<Rightarrow> \<not> (case actual of None \<Rightarrow> False
              | Some host \<Rightarrow> length host \<le> 253 \<and> is_ascii host \<and> is_match rx host)))"

definition is_path_scoped_protection :: "http_route \<Rightarrow> bool" where
  "is_path_scoped_protection r \<longleftrightarrow>
     path_prefix r \<noteq> None \<and> (has_auth r \<or> has_basic_auth r \<or> has_jwt_auth r \<or> is_protected r)"

definition path_case_insensitive :: "http_route \<Rightarrow> bool" where
  "path_case_insensitive r = (case path_case r of
     Some Insensitive \<Rightarrow> True | Some Sensitive \<Rightarrow> False | None \<Rightarrow> is_path_scoped_protection r)"

definition same :: "bool \<Rightarrow> string \<Rightarrow> string \<Rightarrow> bool" where
  "same ci left right = (if ci then eq_ignore_ascii_case left right else left = right)"

definition starts :: "bool \<Rightarrow> string \<Rightarrow> string \<Rightarrow> bool" where
  "starts ci path operand \<longleftrightarrow> length operand \<le> length path \<and> same ci (take (length operand) path) operand"

definition path_matches :: "http_route \<Rightarrow> string \<Rightarrow> bool" where
  "path_matches r path = (case path_prefix r of
     None \<Rightarrow> True
   | Some operand \<Rightarrow>
       let ci = path_case_insensitive r in
       (case path_match r of
          Prefix \<Rightarrow> starts ci path operand
        | Exact \<Rightarrow> same ci path operand
        | SegmentPrefix \<Rightarrow>
            let base = trim_end_matches (CHR ''/'') operand in
            base = [] \<or> (starts ci path base \<and> (length path = length base \<or> path ! length base = CHR ''/''))))"

type_synonym scope = "PathMatch \<times> string \<times> bool"

datatype Atom = ExactAtom string | PrefixAtom string

fun atoms :: "scope \<Rightarrow> Atom list" where
  "atoms (Prefix, operand, _) = [PrefixAtom operand]"
| "atoms (Exact, operand, _) = [ExactAtom operand]"
| "atoms (SegmentPrefix, operand, _) =
     (let base = trim_end_matches (CHR ''/'') operand in
      if base = [] then [PrefixAtom []] else [ExactAtom base, PrefixAtom (base @ ''/'')])"

fun atoms_meet :: "bool \<Rightarrow> Atom \<Rightarrow> Atom \<Rightarrow> bool" where
  "atoms_meet ci (ExactAtom x) (ExactAtom y) = same ci x y"
| "atoms_meet ci (ExactAtom x) (PrefixAtom y) = (length y \<le> length x \<and> same ci (take (length y) x) y)"
| "atoms_meet ci (PrefixAtom y) (ExactAtom x) = (length y \<le> length x \<and> same ci (take (length y) x) y)"
| "atoms_meet ci (PrefixAtom x) (PrefixAtom y) =
     (let n = min (length x) (length y) in same ci (take n x) (take n y))"

definition scopes_intersect :: "scope \<Rightarrow> scope \<Rightarrow> bool" where
  "scopes_intersect a b =
     (let ci = snd (snd a) \<or> snd (snd b)
      in list_ex (\<lambda>left. list_ex (\<lambda>right. atoms_meet ci left right) (atoms b)) (atoms a))"

definition route_scope :: "http_route \<Rightarrow> scope" where
  "route_scope r = (case path_prefix r of
     Some operand \<Rightarrow> (path_match r, operand, path_case_insensitive r)
   | None \<Rightarrow> (Prefix, [], False))"

definition selected_before :: "nat \<times> http_route \<Rightarrow> nat \<times> http_route \<Rightarrow> bool" where
  "selected_before first second \<longleftrightarrow>
     priority (snd first) > priority (snd second) \<or>
     (priority (snd first) = priority (snd second) \<and> fst first < fst second)"

definition effective_public_listeners :: "http_route \<Rightarrow> string set" where
  "effective_public_listeners r = (if listener_ids r = [] then {''default''} else set (listener_ids r))"

definition resource_hosts_preserved :: "http_route \<Rightarrow> http_route \<Rightarrow> bool" where
  "resource_hosts_preserved old new =
     (let unrestricted = (\<lambda>r. route_host r = None \<and> route_hosts r = [] \<and> host_regex_text r = None);
          listed = (\<lambda>r. (case route_host r of Some h \<Rightarrow> [h] | None \<Rightarrow> []) @ route_hosts r)
      in if unrestricted new then True
         else if unrestricted old then False
         else if host_regex_text old \<noteq> None \<or> host_regex_text new \<noteq> None
           then host_regex_text old = host_regex_text new
         else list_all (\<lambda>pattern. list_ex (eq_ignore_ascii_case pattern) (listed new)) (listed old))"

datatype HostKey = IpKey ip_addr | NameKey string

definition host_keys :: "http_route \<Rightarrow> HostKey list option" where
  "host_keys r =
     (if host_regex_text r \<noteq> None then None
      else
        let all = route_hosts r @ (case route_host r of Some h \<Rightarrow> [h] | None \<Rightarrow> [])
        in if all = [] \<or> list_ex (\<lambda>h. CHR ''*'' \<in> set h \<or> CHR ''?'' \<in> set h) all then None
           else Some (map (\<lambda>h. case parse_ip h of
                 Some ip \<Rightarrow> IpKey ip
               | None \<Rightarrow> NameKey (map to_lower (trim_end_matches (CHR ''.'') h))) all))"

definition hosts_may_overlap :: "http_route \<Rightarrow> http_route \<Rightarrow> bool" where
  "hosts_may_overlap left right = (case (host_keys left, host_keys right) of
     (Some a, Some b) \<Rightarrow> list_ex (\<lambda>h. h \<in> set b) a
   | _ \<Rightarrow> True)"

definition scope_host :: "('rx \<Rightarrow> string \<Rightarrow> bool) \<Rightarrow> 'rx http_runtime \<Rightarrow> string option \<Rightarrow> bool" where
  "scope_host is_match runtime host \<longleftrightarrow>
     host_matches is_match (route runtime) (host_regex runtime) host \<or>
     (case host of None \<Rightarrow> False
      | Some h \<Rightarrow> host_matches is_match (route runtime) (host_regex runtime) (Some (trim_end_matches (CHR ''.'') h)))"

fun same_host :: "string option \<Rightarrow> string option \<Rightarrow> bool" where
  "same_host (Some left) (Some right) = eq_ignore_ascii_case left right"
| "same_host None None = True"
| "same_host _ _ = False"

text \<open>The loop over the guards; \<^term>\<open>None\<close> is the panic of \<^verbatim>\<open>expect("compiled guard")\<close>.\<close>

fun find_resource :: "('rx http_runtime \<Rightarrow> bool) \<Rightarrow> 'rx http_runtime list \<Rightarrow> string option \<Rightarrow> (nat + string option) option" where
  "find_resource selects [] resource = Some (Inr resource)"
| "find_resource selects (runtime # guards) resource =
     (if selects runtime then
        (case policy_resource_id (route runtime) of
           None \<Rightarrow> None
         | Some i \<Rightarrow>
             if (case resource of None \<Rightarrow> False | Some old \<Rightarrow> old \<noteq> i) then Some (Inl 403)
             else find_resource selects guards (Some i))
      else find_resource selects guards resource)"

definition check ::
  "http_lib \<Rightarrow> ('rx \<Rightarrow> string \<Rightarrow> bool) \<Rightarrow> 'rx http_runtime list \<Rightarrow> 'rx http_runtime list \<Rightarrow> listener_evidence \<Rightarrow>
   request \<Rightarrow> string option \<Rightarrow> (nat + (string option \<times> string option)) option" where
  "check L is_match guards authentication_guards evidence request forwarded_host =
     (if guards = [] \<and> authentication_guards = [] then Some (Inr (None, None))
      else
        let raw = request_host L request;
            forwarded = Option.bind forwarded_host (authority_host L);
            absolute = map_option snd (uri_authority request);
            candidates = [raw, forwarded, absolute];
            scoped = (\<lambda>runtime. listener_matches (route runtime) evidence \<and> list_ex (scope_host is_match runtime) candidates)
        in if \<not> list_ex scoped (guards @ authentication_guards) then Some (Inr (None, None))
           else
             let host_boundary = list_ex scoped (guards @ filter (\<lambda>runtime. route_host (route runtime) \<noteq> None \<or>
                   route_hosts (route runtime) \<noteq> [] \<or> host_regex runtime \<noteq> None) authentication_guards)
             in if (host_boundary \<and> \<not> same_host raw forwarded) \<or>
                   (case absolute of None \<Rightarrow> False | Some host \<Rightarrow> \<not> same_host raw (Some host)) \<or>
                   (case raw of None \<Rightarrow> False | Some host \<Rightarrow> suffix ''.'' host)
                then Some (Inl 400)
                else (case canonical_path (uri_path request) of
                  Inl _ \<Rightarrow> Some (Inl 400)
                | Inr path \<Rightarrow>
                    let selects = (\<lambda>runtime. listener_matches (route runtime) evidence \<and>
                          scope_host is_match runtime raw \<and> path_matches (route runtime) path)
                    in if list_ex (\<lambda>runtime. \<not> route_enabled (route runtime) \<and> has_response_transform (route runtime) \<and>
                          selects runtime) authentication_guards then Some (Inl 404)
                       else (case find_resource selects guards None of
                          None \<Rightarrow> None
                        | Some (Inl e) \<Rightarrow> Some (Inl e)
                        | Some (Inr resource) \<Rightarrow> Some (Inr (resource, Some path)))))"

section \<open>Scopes as sets of paths\<close>

definition in_scope :: "scope \<Rightarrow> string \<Rightarrow> bool" where
  "in_scope s path = (case s of (m, operand, ci) \<Rightarrow> (case m of
     Prefix \<Rightarrow> starts ci path operand
   | Exact \<Rightarrow> same ci path operand
   | SegmentPrefix \<Rightarrow>
       let base = trim_end_matches (CHR ''/'') operand in
       base = [] \<or> (starts ci path base \<and> (length path = length base \<or> path ! length base = CHR ''/''))))"

lemma path_matches_scope: "path_matches r path \<longleftrightarrow> in_scope (route_scope r) path"
  by (simp add: path_matches_def in_scope_def route_scope_def starts_def same_def Let_def split: option.splits)

fun in_atom :: "bool \<Rightarrow> Atom \<Rightarrow> string \<Rightarrow> bool" where
  "in_atom ci (ExactAtom x) path = same ci path x"
| "in_atom ci (PrefixAtom x) path = starts ci path x"

lemma same_refl [simp]: "same ci x x"
  by (simp add: same_def)

lemma same_length: "same ci x y \<Longrightarrow> length x = length y"
  by (auto simp: same_def eq_ignore_ascii_case_def dest: map_eq_imp_length_eq split: if_splits)

lemma same_sym: "same ci x y \<Longrightarrow> same ci y x"
  by (simp add: same_def eq_ignore_ascii_case_def split: if_splits)

lemma same_trans: "same c x y \<Longrightarrow> same d y z \<Longrightarrow> same (c \<or> d) x z"
  by (auto simp: same_def eq_ignore_ascii_case_def split: if_splits)

lemma same_take: "same ci x y \<Longrightarrow> same ci (take n x) (take n y)"
  by (auto simp: same_def eq_ignore_ascii_case_def take_map [symmetric] split: if_splits)

lemma same_append: "same ci x y \<Longrightarrow> same ci (x @ z) (y @ z)"
  by (simp add: same_def eq_ignore_ascii_case_def split: if_splits)

lemma to_lower_slash: "to_lower c = CHR ''/'' \<longleftrightarrow> c = CHR ''/''"
  by (rule to_lower_fixed) (simp_all add: is_ascii_lower_def is_ascii_upper_def)

lemma same_snoc_slash: "same ci x (y @ ''/'') \<longleftrightarrow> (\<exists>x'. x = x' @ ''/'' \<and> same ci x' y)"
proof (cases x rule: rev_cases)
  case (snoc x' c)
  have "to_lower c = to_lower (CHR ''/'') \<longleftrightarrow> c = CHR ''/''" for c
    using to_lower_slash [of c] to_lower_slash [of "CHR ''/''"] by simp
  then show ?thesis using snoc by (auto simp: same_def eq_ignore_ascii_case_def)
qed (auto simp: same_def eq_ignore_ascii_case_def)

lemma starts_slash:
  "starts ci path (base @ ''/'') \<longleftrightarrow> starts ci path base \<and> length base < length path \<and> path ! length base = CHR ''/''"
proof (cases "length base < length path")
  case True
  then have "take (Suc (length base)) path = take (length base) path @ [path ! length base]"
    by (rule take_Suc_conv_app_nth)
  then show ?thesis using True by (auto simp: starts_def same_snoc_slash)
qed (simp add: starts_def)

lemma in_scope_atoms: "in_scope s path \<longleftrightarrow> list_ex (\<lambda>a. in_atom (snd (snd s)) a path) (atoms s)"
proof -
  obtain m operand ci where s: "s = (m, operand, ci)" by (cases s)
  have "starts ci path base \<and> (length path = length base \<or> path ! length base = CHR ''/'') \<longleftrightarrow>
    same ci path base \<or> starts ci path (base @ ''/'')" for base
  proof (cases "length path = length base")
    case True
    then show ?thesis by (simp add: starts_def)
  next
    case False
    then show ?thesis unfolding starts_slash using same_length [of ci path base] by (auto simp: starts_def)
  qed
  then show ?thesis unfolding s by (cases m) (simp_all add: in_scope_def Let_def starts_def)
qed

lemma atoms_meet_exact_prefix:
  "length y \<le> length x \<and> same (c \<or> d) (take (length y) x) y \<longleftrightarrow> (\<exists>path. same c path x \<and> starts d path y)"
proof
  assume m: "length y \<le> length x \<and> same (c \<or> d) (take (length y) x) y"
  show "\<exists>path. same c path x \<and> starts d path y"
  proof (cases c)
    case True
    then have "same c (y @ drop (length y) x) (take (length y) x @ drop (length y) x)"
      using m by (intro same_append [OF same_sym]) simp
    then show ?thesis by (intro exI [of _ "y @ drop (length y) x"]) (simp add: starts_def)
  next
    case False
    then show ?thesis using m by (intro exI [of _ x]) (simp add: starts_def)
  qed
next
  assume "\<exists>path. same c path x \<and> starts d path y"
  then obtain path where p: "same c path x" "length y \<le> length path" "same d (take (length y) path) y"
    by (auto simp: starts_def)
  then show "length y \<le> length x \<and> same (c \<or> d) (take (length y) x) y"
    using same_trans [OF same_sym [OF same_take [OF p(1)]] p(3)] same_length [OF p(1)] by simp
qed

lemma atoms_meet_prefix_le:
  assumes "length x \<le> length y"
  shows "same (c \<or> d) x (take (length x) y) \<longleftrightarrow> (\<exists>path. starts c path x \<and> starts d path y)"
proof
  assume m: "same (c \<or> d) x (take (length x) y)"
  show "\<exists>path. starts c path x \<and> starts d path y"
  proof (cases c)
    case True
    then show ?thesis using m assms by (intro exI [of _ y]) (simp add: starts_def same_sym)
  next
    case False
    then have "same d (x @ drop (length x) y) (take (length x) y @ drop (length x) y)"
      using m by (intro same_append) simp
    then show ?thesis using assms by (intro exI [of _ "x @ drop (length x) y"]) (simp add: starts_def)
  qed
next
  assume "\<exists>path. starts c path x \<and> starts d path y"
  then obtain path where p: "same c (take (length x) path) x" "same d (take (length y) path) y" "length x \<le> length path"
    by (auto simp: starts_def)
  have "same d (take (length x) path) (take (length x) y)"
    using same_take [OF p(2), of "length x"] assms by (simp add: min_def)
  then show "same (c \<or> d) x (take (length x) y)" using same_trans [OF same_sym [OF p(1)]] by simp
qed

lemma atoms_meet_iff: "atoms_meet (c \<or> d) a b \<longleftrightarrow> (\<exists>path. in_atom c a path \<and> in_atom d b path)"
proof (cases a; cases b)
  fix x y assume ab: "a = ExactAtom x" "b = ExactAtom y"
  have "same (c \<or> d) x y \<Longrightarrow> \<exists>path. same c path x \<and> same d path y"
    by (cases c) (auto intro: same_sym same_refl)
  moreover have "same c path x \<Longrightarrow> same d path y \<Longrightarrow> same (c \<or> d) x y" for path by (rule same_trans [OF same_sym])
  ultimately show ?thesis using ab by auto
next
  fix x y assume "a = ExactAtom x" "b = PrefixAtom y"
  then show ?thesis using atoms_meet_exact_prefix [of y x c d] by simp
next
  fix x y assume "a = PrefixAtom x" "b = ExactAtom y"
  then show ?thesis using atoms_meet_exact_prefix [of x y d c] by (auto simp: disj_commute)
next
  fix x y assume ab: "a = PrefixAtom x" "b = PrefixAtom y"
  have comm: "same ci (take (length y) x) y = same ci y (take (length y) x)" for ci
    using same_sym [of ci "take (length y) x" y] same_sym [of ci y "take (length y) x"] by blast
  show ?thesis
  proof (cases "length x \<le> length y")
    case True
    then show ?thesis using ab atoms_meet_prefix_le [of x y c d] by (simp add: Let_def)
  next
    case False
    then have "atoms_meet (c \<or> d) a b \<longleftrightarrow> same (d \<or> c) y (take (length y) x)"
      using ab comm by (simp add: Let_def disj_commute)
    then show ?thesis using ab False atoms_meet_prefix_le [of y x d c] by auto
  qed
qed

text \<open>
  C16. Scope intersection is exact. Two path scopes are reported as intersecting exactly when
  some path is selected by both of them, each under its own mode and its own case handling; so
  two routes whose scopes are reported disjoint can never both select one path.
\<close>

theorem scopes_intersect_exact:
  "(scopes_intersect a b \<longleftrightarrow> (\<exists>path. in_scope a path \<and> in_scope b path)) \<and>
   (scopes_intersect (route_scope r) (route_scope r') \<longleftrightarrow> (\<exists>path. path_matches r path \<and> path_matches r' path))"
proof -
  have "scopes_intersect a b \<longleftrightarrow> (\<exists>path. in_scope a path \<and> in_scope b path)" for a b
    unfolding scopes_intersect_def Let_def atoms_meet_iff in_scope_atoms list_ex_iff by blast
  then show ?thesis by (simp add: path_matches_scope)
qed

section \<open>The check of a request\<close>

lemma find_resource_Inr:
  "find_resource selects guards resource = Some (Inr res) \<Longrightarrow>
     (\<forall>old. resource = Some old \<longrightarrow> res = Some old) \<and>
     (\<forall>g\<in>set guards. selects g \<longrightarrow> res \<noteq> None \<and> res = policy_resource_id (route g)) \<and>
     (resource = None \<and> (\<forall>g\<in>set guards. \<not> selects g) \<longrightarrow> res = None)"
  by (induction guards arbitrary: resource) (auto split: if_splits option.splits)

lemma find_resource_total:
  "\<forall>g\<in>set guards. policy_resource_id (route g) \<noteq> None \<Longrightarrow> find_resource selects guards resource \<noteq> None"
  by (induction guards arbitrary: resource) (auto split: option.splits)

text \<open>
  C17. A protected namespace cannot be slipped past. With compiled guards the check never panics;
  whenever it lets a request through, every guard whose listener, host and path select the
  request (the path in its canonical form) owns it: the resource reported is that guard's, so
  two guards with different resources never both select, and the canonical path is handed on.
\<close>

theorem guard_owns_request:
  assumes "\<forall>g\<in>set guards. policy_resource_id (route g) \<noteq> None"
    and "g \<in> set guards" "listener_matches (route g) evidence" "scope_host is_match g (request_host L request)"
    and "canonical_path (uri_path request) = Inr path" "path_matches (route g) path"
  shows "\<exists>result. check L is_match guards auths evidence request forwarded = Some result \<and>
    (case result of
       Inl status \<Rightarrow> status \<in> {400, 403, 404}
     | Inr (resource, canonical) \<Rightarrow> resource = policy_resource_id (route g) \<and> canonical = Some path)"
proof -
  let ?raw = "request_host L request"
  let ?forwarded = "Option.bind forwarded (authority_host L)"
  let ?absolute = "map_option snd (uri_authority request)"
  let ?selects = "\<lambda>g. listener_matches (route g) evidence \<and> scope_host is_match g ?raw \<and> path_matches (route g) path"
  have scoped: "list_ex (\<lambda>g. listener_matches (route g) evidence \<and> list_ex (scope_host is_match g) [?raw, ?forwarded, ?absolute])
      (guards @ auths)" "guards \<noteq> []"
    using assms(2-4) by (auto simp: list_ex_iff)
  obtain res where res: "find_resource ?selects guards None = Some res"
    using find_resource_total [OF assms(1), of ?selects None] by blast
  have e: "e = 403" if "find_resource sel gs r = Some (Inl e)" for sel :: "'a http_runtime \<Rightarrow> bool" and gs r e
    using that by (induction gs arbitrary: r) (auto split: if_splits option.splits)
  have "case res of Inl status \<Rightarrow> status = 403 | Inr resource \<Rightarrow> resource = policy_resource_id (route g)"
    using res find_resource_Inr [of ?selects guards None] assms(2-6) e by (cases res) auto
  then show ?thesis
    using scoped res assms(5) unfolding check_def Let_def by (auto split: sum.splits)
qed

definition demo_guard :: "unit http_runtime" where
  "demo_guard = \<lparr>route = \<lparr>listener_ids = [], route_host = Some ''app.example.com'', route_hosts = [], host_regex_text = None,
     path_prefix = Some ''/admin'', path_match = SegmentPrefix, path_case = Some Insensitive, route_enabled = True,
     priority = 0, has_auth = False, has_basic_auth = False, has_jwt_auth = False, is_protected = False,
     has_response_transform = False, policy_resource_id = Some ''admin''\<rparr>, host_regex = None\<rparr>"

definition demo_evidence :: listener_evidence where
  "demo_evidence = \<lparr>workload_evidence = False, public_listener = None\<rparr>"

theorem guard_owns_request_witness:
  "\<exists>result. check plain_http (\<lambda>_ _. False) [demo_guard] [] demo_evidence (demo_request ''/ADMIN/%78'') (Some ''app.example.com'') = Some result \<and>
    (case result of
       Inl status \<Rightarrow> status \<in> {400, 403, 404}
     | Inr (resource, canonical) \<Rightarrow> resource = Some ''admin'' \<and> canonical = Some ''/ADMIN/x'')"
proof -
  have p: "canonical_path (uri_path (demo_request ''/ADMIN/%78'')) = Inr ''/ADMIN/x''" by code_simp
  have h: "scope_host (\<lambda>_ _. False) demo_guard (request_host plain_http (demo_request ''/ADMIN/%78''))" by code_simp
  have m: "listener_matches (route demo_guard) demo_evidence" "path_matches (route demo_guard) ''/ADMIN/x''"
    "policy_resource_id (route demo_guard) = Some ''admin''" by code_simp+
  have g: "\<forall>g\<in>set [demo_guard]. policy_resource_id (route g) \<noteq> None" using m(3) by simp
  show ?thesis using guard_owns_request [OF g _ m(1) h p m(2), of "[]" "Some ''app.example.com''"]
    unfolding m(3) by simp
qed

end
