(* ===== verification/ClientHello.thy ===== *)
theory ClientHello
  imports HostMatch
begin

text \<open>
  The TLS ClientHello reader of \<^verbatim>\<open>src/src/client_hello.rs\<close>, which finds the server name of a
  TCP connection before it is routed. The reader is the bytes that have yet to arrive; reading
  beyond them is the error \<open>eof\<close> of the socket. \<open>alloc\<close> is whether an allocation of the given
  size succeeds. The record loop makes at most 256 rounds, so it is a recursion on the number
  of records left; the two length-prefixed lists shrink in every round.
\<close>

section \<open>Host names\<close>

definition canonical_hostname :: "string \<Rightarrow> string + string" where
  "canonical_hostname host = res_bind (first_error
     ([ensure (host \<noteq> [] \<and> length host \<le> 253) ''invalid SNI hostname length'',
       ensure (is_ascii host) ''SNI hostname must be ASCII'',
       ensure (\<not> suffix ''.'' host) ''SNI hostname must not have a trailing dot'',
       ensure (parse_ip_addr host = None) ''SNI hostname must not be an IP address''] @
      [try_all (\<lambda>label. first_error
         [ensure (label \<noteq> [] \<and> length label \<le> 63) ''invalid SNI label length'',
          ensure (list_all (\<lambda>b. is_ascii_alphanumeric b \<or> b = CHR ''-'') label \<and>
              \<not> prefix ''-'' label \<and> \<not> suffix ''-'' label) ''invalid SNI hostname''])
        (split_on (CHR ''.'') host)]))
     (\<lambda>_. Inr (map to_lower host))"

definition canonical_pattern :: "string \<Rightarrow> string + string" where
  "canonical_pattern pattern = res_bind (validate_pattern pattern) (\<lambda>_.
     if is_glob pattern then
       res_bind (canonical_hostname (map (\<lambda>c. if c = CHR ''*'' \<or> c = CHR ''?'' then CHR ''a'' else c) pattern))
         (\<lambda>_. Inr (map to_lower pattern))
     else canonical_hostname pattern)"

definition pattern_matches :: "string \<Rightarrow> string \<Rightarrow> bool" where
  "pattern_matches pattern server_name = host_matches_pattern pattern server_name"

record SniMatch =
  sni_hosts :: "string list"
  host_regexes :: "string list"
  max_client_hello_bytes :: nat
  hello_timeout_ms :: nat

definition check_sni_host :: "nat \<times> string set \<Rightarrow> string \<Rightarrow> string + (nat \<times> string set)" where
  "check_sni_host s host = res_bind (canonical_pattern host) (\<lambda>canonical.
     if fst s + length host \<ge> 2 ^ 64 then Inl ''SNI host configuration size overflow''
     else if \<not> fst s + length host \<le> 8192 then Inl ''SNI host configuration exceeds 8192 bytes''
     else if canonical \<in> snd s then Inl ''duplicate SNI host''
     else Inr (fst s + length host, insert canonical (snd s)))"

definition check_sni_regex :: "nat \<times> string set \<Rightarrow> string \<Rightarrow> string + (nat \<times> string set)" where
  "check_sni_regex s pattern =
     (if \<not> (pattern \<noteq> [] \<and> length pattern \<le> 1024) then Inl ''SNI regex must contain 1..1024 bytes''
      else if \<not> fst s + length pattern \<le> 8192 then Inl ''SNI host configuration exceeds 8192 bytes''
      else if ''regex:'' @ pattern \<in> snd s then Inl ''duplicate SNI host regex''
      else Inr (fst s + length pattern, insert (''regex:'' @ pattern) (snd s)))"

definition sni_validate :: "SniMatch \<Rightarrow> string + unit" where
  "sni_validate m =
     res_bind (first_error
       [ensure (1 \<le> length (sni_hosts m) + length (host_regexes m) \<and> length (sni_hosts m) + length (host_regexes m) \<le> 128)
          ''SNI hosts and host_regexes must contain 1..128 patterns'',
        ensure (1 \<le> max_client_hello_bytes m \<and> max_client_hello_bytes m \<le> 1024 * 1024)
          ''SNI max_client_hello_bytes must be 1..1048576'',
        ensure (1 \<le> hello_timeout_ms m \<and> hello_timeout_ms m \<le> 30000)
          ''SNI hello_timeout_ms must be 1..30000''])
     (\<lambda>_. res_bind (try_fold check_sni_host (0, {}) (sni_hosts m)) (\<lambda>s.
        res_bind (try_fold check_sni_regex s (host_regexes m)) (\<lambda>_. Inr ())))"

section \<open>Parsing the message\<close>

text \<open>A \<^verbatim>\<open>Cursor\<close> is the bytes it has not taken yet.\<close>

definition cursor_take :: "string \<Rightarrow> nat \<Rightarrow> string \<Rightarrow> string + (string \<times> string)" where
  "cursor_take field amount rest =
     (if length rest < amount then Inl (''truncated '' @ field) else Inr (take amount rest, drop amount rest))"

definition cursor_u8 :: "string \<Rightarrow> string \<Rightarrow> string + (nat \<times> string)" where
  "cursor_u8 field rest = res_bind (cursor_take field 1 rest) (\<lambda>(v, rest). Inr (byte (v ! 0), rest))"

definition cursor_u16 :: "string \<Rightarrow> string \<Rightarrow> string + (nat \<times> string)" where
  "cursor_u16 field rest =
     res_bind (cursor_take field 2 rest) (\<lambda>(v, rest). Inr (byte (v ! 0) * 256 + byte (v ! 1), rest))"

lemma cursor_take_rest: "cursor_take field n rest = Inr (v, rest') \<Longrightarrow> rest = v @ rest' \<and> length v = n"
  by (auto simp: cursor_take_def split: if_splits)

lemma cursor_u8_rest: "cursor_u8 field rest = Inr (n, rest') \<Longrightarrow> length rest = Suc (length rest')"
  by (auto simp: cursor_u8_def dest: cursor_take_rest)

lemma cursor_u16_rest: "cursor_u16 field rest = Inr (n, rest') \<Longrightarrow> length rest = Suc (Suc (length rest'))"
  by (auto simp: cursor_u16_def dest: cursor_take_rest)

text \<open>One round of the name list: the type, the name and the rest.\<close>

definition next_name :: "nat set \<Rightarrow> string \<Rightarrow> string + (nat \<times> string \<times> string)" where
  "next_name seen rest = res_bind (cursor_u8 ''SNI name type'' rest) (\<lambda>(name_type, rest).
     if name_type \<in> seen then Inl ''duplicate SNI name type''
     else res_bind (cursor_u16 ''SNI name length'' rest) (\<lambda>(name_len, rest).
       res_bind (cursor_take ''SNI name'' name_len rest) (\<lambda>(name, rest).
         if name = [] then Inl ''empty SNI name'' else Inr (name_type, name, rest))))"

definition server_hostname :: "string \<Rightarrow> string + string" where
  "server_hostname name =
     (if utf8_decode name = None then Inl ''SNI hostname is not ASCII''
      else if \<not> is_ascii name then Inl ''SNI hostname is not ASCII''
      else canonical_hostname name)"

lemma next_name_shorter: "next_name seen rest = Inr (t, name, rest') \<Longrightarrow> length rest' < length rest"
  by (auto simp: next_name_def split: if_splits dest!: cursor_u8_rest cursor_u16_rest cursor_take_rest)

function names_loop :: "nat set \<Rightarrow> string option \<Rightarrow> string \<Rightarrow> string + string option" where
  "names_loop seen host rest =
     (if rest = [] then Inr host
      else case next_name seen rest of
        Inl e \<Rightarrow> Inl e
      | Inr (name_type, name, rest) \<Rightarrow>
          if name_type = 0 then
            (case server_hostname name of
               Inl e \<Rightarrow> Inl e
             | Inr h \<Rightarrow> names_loop (insert name_type seen) (Some h) rest)
          else names_loop (insert name_type seen) host rest)"
  by pat_completeness auto
termination
  by (relation "measure (\<lambda>(seen, host, rest). length rest)") (auto dest: next_name_shorter)

definition parse_server_name :: "string \<Rightarrow> string + string" where
  "parse_server_name v = res_bind (cursor_u16 ''SNI name list length'' v) (\<lambda>(list_len, rest).
     if list_len \<noteq> length rest then Inl ''invalid SNI name list length''
     else if \<not> 0 < list_len then Inl ''empty SNI name list''
     else res_bind (names_loop {} None rest) (\<lambda>host. ok_or ''SNI does not contain a hostname'' host))"

definition next_extension :: "nat set \<Rightarrow> string \<Rightarrow> string + (nat \<times> string \<times> string)" where
  "next_extension seen rest = res_bind (cursor_u16 ''ClientHello extension type'' rest) (\<lambda>(extension_type, rest).
     if extension_type \<in> seen then Inl ''duplicate ClientHello extension''
     else res_bind (cursor_u16 ''ClientHello extension length'' rest) (\<lambda>(len, rest).
       res_bind (cursor_take ''ClientHello extension body'' len rest) (\<lambda>(v, rest). Inr (extension_type, v, rest))))"

lemma next_extension_shorter: "next_extension seen rest = Inr (t, v, rest') \<Longrightarrow> length rest' < length rest"
  by (auto simp: next_extension_def split: if_splits dest!: cursor_u16_rest cursor_take_rest)

function extensions_loop :: "nat set \<Rightarrow> string option \<Rightarrow> string \<Rightarrow> string + string option" where
  "extensions_loop seen server_name rest =
     (if rest = [] then Inr server_name
      else case next_extension seen rest of
        Inl e \<Rightarrow> Inl e
      | Inr (extension_type, v, rest) \<Rightarrow>
          if extension_type = 0 then
            (if server_name \<noteq> None then Inl ''duplicate SNI extension''
             else case parse_server_name v of
               Inl e \<Rightarrow> Inl e
             | Inr h \<Rightarrow> extensions_loop (insert extension_type seen) (Some h) rest)
          else extensions_loop (insert extension_type seen) server_name rest)"
  by pat_completeness auto
termination
  by (relation "measure (\<lambda>(seen, server_name, rest). length rest)") (auto dest: next_extension_shorter)

declare names_loop.simps [simp del] extensions_loop.simps [simp del]

lemma loops_Nil [simp]: "names_loop seen host [] = Inr host" "extensions_loop seen host [] = Inr host"
  by (simp_all add: names_loop.simps extensions_loop.simps)

definition parse_client_hello :: "string \<Rightarrow> string + string" where
  "parse_client_hello body =
     res_bind (cursor_take ''ClientHello legacy version'' 2 body) (\<lambda>(_, rest).
     res_bind (cursor_take ''ClientHello random'' 32 rest) (\<lambda>(_, rest).
     res_bind (cursor_u8 ''ClientHello session id length'' rest) (\<lambda>(session_len, rest).
     if \<not> session_len \<le> 32 then Inl ''invalid ClientHello session id length'' else
     res_bind (cursor_take ''ClientHello session id'' session_len rest) (\<lambda>(_, rest).
     res_bind (cursor_u16 ''ClientHello cipher suites length'' rest) (\<lambda>(cipher_len, rest).
     if \<not> (2 \<le> cipher_len \<and> cipher_len mod 2 = 0) then Inl ''invalid ClientHello cipher suites'' else
     res_bind (cursor_take ''ClientHello cipher suites'' cipher_len rest) (\<lambda>(_, rest).
     res_bind (cursor_u8 ''ClientHello compression methods length'' rest) (\<lambda>(compression_len, rest).
     if \<not> 0 < compression_len then Inl ''invalid ClientHello compression methods'' else
     res_bind (cursor_take ''ClientHello compression methods'' compression_len rest) (\<lambda>(_, rest).
     res_bind (cursor_u16 ''ClientHello extensions length'' rest) (\<lambda>(extensions_len, rest).
     if extensions_len \<noteq> length rest then Inl ''invalid ClientHello extensions length'' else
     res_bind (cursor_take ''ClientHello extensions'' extensions_len rest) (\<lambda>(extensions, _).
     res_bind (extensions_loop {} None extensions) (\<lambda>server_name.
     ok_or ''ClientHello does not contain SNI'' server_name)))))))))))"

section \<open>Reading the records\<close>

record ClientHello =
  server_name :: string
  consumed :: string

abbreviation (input) MAX_RECORD_BYTES :: nat where "MAX_RECORD_BYTES \<equiv> 16384"
abbreviation (input) MAX_HANDSHAKE_RECORDS :: nat where "MAX_HANDSHAKE_RECORDS \<equiv> 256"

text \<open>The output with the bytes read, and what is left of the input.\<close>

definition hello_read_bounded :: "(nat \<Rightarrow> bool) \<Rightarrow> nat \<Rightarrow> nat \<Rightarrow> string \<Rightarrow> string \<Rightarrow> string + (string \<times> string)" where
  "hello_read_bounded alloc max_bytes amount output input =
     (if length output + amount \<ge> 2 ^ 64 then Inl ''ClientHello size overflow''
      else if \<not> length output + amount \<le> max_bytes then Inl ''ClientHello exceeds configured byte limit''
      else if \<not> alloc amount then Inl ''allocate ClientHello record buffer''
      else if length input < amount then Inl ''read TLS ClientHello''
      else Inr (output @ take amount input, drop amount input))"

definition check_header :: "string \<Rightarrow> string + nat" where
  "check_header header =
     (if byte (header ! 0) \<noteq> 22 then Inl ''TLS record before ClientHello is not a handshake''
      else if \<not> (byte (header ! 1) = 3 \<and> byte (header ! 2) \<le> 4) then Inl ''invalid TLS record version''
      else
        let record_len = byte (header ! 3) * 256 + byte (header ! 4) in
        if \<not> (1 \<le> record_len \<and> record_len \<le> MAX_RECORD_BYTES) then Inl ''invalid TLS handshake record length''
        else Inr record_len)"

definition expect_handshake :: "nat \<Rightarrow> string \<Rightarrow> nat option \<Rightarrow> string + nat option" where
  "expect_handshake max_bytes handshake expected =
     (if 4 \<le> length handshake \<and> expected = None then
        (if byte (handshake ! 0) \<noteq> 1 then Inl ''first TLS handshake is not ClientHello''
         else
           let total_len = byte (handshake ! 1) * 65536 + byte (handshake ! 2) * 256 + byte (handshake ! 3) + 4 in
           if \<not> total_len \<le> max_bytes then Inl ''ClientHello exceeds configured byte limit'' else Inr (Some total_len))
      else Inr expected)"

text \<open>One record: its bytes appended to what was consumed and to the handshake.\<close>

definition read_record ::
  "(nat \<Rightarrow> bool) \<Rightarrow> nat \<Rightarrow> string \<Rightarrow> string \<Rightarrow> string \<Rightarrow> string + (string \<times> string \<times> string)" where
  "read_record alloc max_bytes taken handshake input =
     res_bind (hello_read_bounded alloc max_bytes 5 taken input) (\<lambda>(taken1, input1).
     res_bind (check_header (drop (length taken) taken1)) (\<lambda>record_len.
     res_bind (hello_read_bounded alloc max_bytes record_len taken1 input1) (\<lambda>(taken2, input2).
     if \<not> alloc record_len then Inl ''allocate ClientHello parser buffer''
     else Inr (taken2, handshake @ drop (length taken1) taken2, input2))))"

fun read_records ::
  "(nat \<Rightarrow> bool) \<Rightarrow> nat \<Rightarrow> nat \<Rightarrow> string \<Rightarrow> string \<Rightarrow> nat option \<Rightarrow> string \<Rightarrow> string + (ClientHello \<times> string)" where
  "read_records alloc max_bytes 0 taken handshake expected input = Inl ''ClientHello exceeds 256 TLS records''"
| "read_records alloc max_bytes (Suc left) taken handshake expected input =
     res_bind (read_record alloc max_bytes taken handshake input) (\<lambda>(taken, handshake, input).
     res_bind (expect_handshake max_bytes handshake expected) (\<lambda>expected.
     case expected of
       Some total_len \<Rightarrow>
         if total_len \<le> length handshake then
           res_bind (parse_client_hello (drop 4 (take total_len handshake))) (\<lambda>name.
             Inr (\<lparr>server_name = name, consumed = taken\<rparr>, input))
         else read_records alloc max_bytes left taken handshake (Some total_len) input
     | None \<Rightarrow> read_records alloc max_bytes left taken handshake None input))"

definition read_client_hello :: "(nat \<Rightarrow> bool) \<Rightarrow> nat \<Rightarrow> string \<Rightarrow> string + (ClientHello \<times> string)" where
  "read_client_hello alloc max_bytes input =
     (if \<not> 0 < max_bytes then Inl ''ClientHello byte limit must be positive''
      else read_records alloc max_bytes MAX_HANDSHAKE_RECORDS [] [] None input)"

section \<open>What is consumed\<close>

lemma hello_read_bounded_Inr:
  "hello_read_bounded alloc m n out input = Inr (out', input') \<longleftrightarrow>
     length out + n < 2 ^ 64 \<and> length out + n \<le> m \<and> alloc n \<and> n \<le> length input \<and>
     out' = out @ take n input \<and> input' = drop n input"
  by (auto simp: hello_read_bounded_def)

lemma take_take_drop: "take a xs @ take b (drop a xs) @ drop (b + a) xs = xs"
  by (metis append_take_drop_id drop_drop)

lemma read_record_Inr:
  assumes "read_record alloc m c h input = Inr (c', h', input')"
  obtains header payload where "input = header @ payload @ input'" "length header = 5"
    "check_header header = Inr (length payload)" "payload \<noteq> []" "c' = c @ header @ payload" "h' = h @ payload" "length c' \<le> m"
proof -
  obtain c1 input1 n where r: "hello_read_bounded alloc m 5 c input = Inr (c1, input1)" "check_header (drop (length c) c1) = Inr n"
    "hello_read_bounded alloc m n c1 input1 = Inr (c', input')" "h' = h @ drop (length c1) c'"
    using assms by (auto simp: read_record_def split: if_splits)
  have "1 \<le> n" using r(2) by (auto simp: check_header_def Let_def split: if_splits)
  then show thesis using r take_take_drop [of 5 input n]
    by (intro that [of "take 5 input" "take n input1"]) (auto simp: hello_read_bounded_Inr)
qed

definition canonical_name :: "string \<Rightarrow> bool" where
  "canonical_name h \<longleftrightarrow> (\<exists>name. canonical_hostname name = Inr h)"

lemma names_loop_canonical:
  "names_loop seen host rest = Inr (Some h) \<Longrightarrow> (\<forall>x. host = Some x \<longrightarrow> canonical_name x) \<Longrightarrow> canonical_name h"
proof (induction seen host rest rule: names_loop.induct)
  case (1 seen host rest)
  show ?case
  proof (cases "rest = []")
    case True
    then show ?thesis using "1.prems" by simp
  next
    case False
    then obtain t name rest' where n: "next_name seen rest = Inr (t, name, rest')"
      using "1.prems"(1) by (subst (asm) names_loop.simps) (auto split: sum.splits)
    show ?thesis
    proof (cases "t = 0")
      case True
      then obtain x where x: "server_hostname name = Inr x" "names_loop (insert t seen) (Some x) rest' = Inr (Some h)"
        using "1.prems"(1) False n by (subst (asm) names_loop.simps) (auto split: sum.splits)
      then have "canonical_name x" by (auto simp: server_hostname_def canonical_name_def split: if_splits)
      then show ?thesis using "1.IH"(1) [OF False n refl refl True x(1) x(2)] by simp
    next
      case t: False
      then have "names_loop (insert t seen) host rest' = Inr (Some h)"
        using "1.prems"(1) False n by (subst (asm) names_loop.simps) (auto split: sum.splits)
      then show ?thesis using "1.IH"(2) [OF False n refl refl t] "1.prems"(2) by simp
    qed
  qed
qed

lemma parse_server_name_canonical: "parse_server_name v = Inr h \<Longrightarrow> canonical_name h"
  by (auto simp: parse_server_name_def split: if_splits dest: names_loop_canonical)

lemma extensions_loop_canonical:
  "extensions_loop seen host rest = Inr (Some h) \<Longrightarrow> (\<forall>x. host = Some x \<longrightarrow> canonical_name x) \<Longrightarrow> canonical_name h"
proof (induction seen host rest rule: extensions_loop.induct)
  case (1 seen host rest)
  show ?case
  proof (cases "rest = []")
    case True
    then show ?thesis using "1.prems" by simp
  next
    case False
    then obtain t v rest' where n: "next_extension seen rest = Inr (t, v, rest')"
      using "1.prems"(1) by (subst (asm) extensions_loop.simps) (auto split: sum.splits)
    show ?thesis
    proof (cases "t = 0")
      case True
      then obtain x where x: "host = None" "parse_server_name v = Inr x" "extensions_loop (insert t seen) (Some x) rest' = Inr (Some h)"
        using "1.prems"(1) False n by (subst (asm) extensions_loop.simps) (auto split: sum.splits if_splits)
      then show ?thesis using "1.IH"(1) [OF False n refl refl True _ x(2)] parse_server_name_canonical by simp
    next
      case t: False
      then have "extensions_loop (insert t seen) host rest' = Inr (Some h)"
        using "1.prems"(1) False n by (subst (asm) extensions_loop.simps) (auto split: sum.splits)
      then show ?thesis using "1.IH"(2) [OF False n refl refl t] "1.prems"(2) by simp
    qed
  qed
qed

lemma parse_client_hello_canonical: "parse_client_hello body = Inr h \<Longrightarrow> canonical_name h"
  by (auto simp: parse_client_hello_def split: if_splits dest: extensions_loop_canonical)

lemma read_records_sound:
  "read_records alloc m left c h expected input = Inr (hello, rest) \<Longrightarrow>
     consumed hello @ rest = c @ input \<and> length (consumed hello) \<le> m \<and> canonical_name (server_name hello)"
proof (induction left arbitrary: c h expected input)
  case (Suc left)
  obtain c' h' input' expected' where r: "read_record alloc m c h input = Inr (c', h', input')"
    "expect_handshake m h' expected = Inr expected'"
    "(case expected' of
       Some n \<Rightarrow>
         if n \<le> length h' then
           res_bind (parse_client_hello (drop 4 (take n h'))) (\<lambda>name. Inr (\<lparr>server_name = name, consumed = c'\<rparr>, input'))
         else read_records alloc m left c' h' (Some n) input'
     | None \<Rightarrow> read_records alloc m left c' h' None input') = Inr (hello, rest)"
    using Suc.prems by auto
  obtain header payload where p: "input = header @ payload @ input'" "c' = c @ header @ payload" "length c' \<le> m"
    using read_record_Inr [OF r(1)] by metis
  have fin: "consumed hello @ rest = c' @ input' \<and> length (consumed hello) \<le> m \<and> canonical_name (server_name hello)"
  proof (cases expected')
    case None
    then show ?thesis using r(3) Suc.IH by simp
  next
    case (Some n)
    show ?thesis
    proof (cases "n \<le> length h'")
      case True
      then show ?thesis using r(3) Some p(3) parse_client_hello_canonical by auto
    next
      case False
      then show ?thesis using r(3) Some Suc.IH by simp
    qed
  qed
  then show ?case using p by simp
qed simp

lemma canonical_name_lower:
  assumes "canonical_name h"
  shows "h \<noteq> [] \<and> length h \<le> 253 \<and> map to_lower h = h \<and>
    list_all (\<lambda>b. is_ascii_alphanumeric b \<or> b = CHR ''-'' \<or> b = CHR ''.'') h"
proof -
  obtain name where n: "canonical_hostname name = Inr h" using assms by (auto simp: canonical_name_def)
  have h: "h = map to_lower name" "name \<noteq> []" "length name \<le> 253" using n by (auto simp: canonical_hostname_def)
  have labels: "\<forall>label\<in>set (split_on (CHR ''.'') name). list_all (\<lambda>b. is_ascii_alphanumeric b \<or> b = CHR ''-'') label"
    using n by (auto simp: canonical_hostname_def try_all_Inr)
  have "is_ascii_alphanumeric b \<or> b = CHR ''-'' \<or> b = CHR ''.''" if "b \<in> set name" for b
    using set_split_on_join [OF that, of "CHR ''.''"] labels by (auto simp: list_all_iff)
  moreover have "is_ascii_alphanumeric b \<Longrightarrow> is_ascii_alphanumeric (to_lower b)" for b
    by (auto simp: is_ascii_alphanumeric_def is_ascii_digit_def is_ascii_upper_def is_ascii_lower_def byte_to_lower)
  moreover have "to_lower (CHR ''-'') = CHR ''-''" "to_lower (CHR ''.'') = CHR ''.''"
    by (simp_all add: to_lower_def is_ascii_upper_def)
  ultimately show ?thesis using h by (auto simp: list_all_iff comp_def)
qed

text \<open>
  Inspecting the ClientHello loses nothing. When the reader accepts a connection, the bytes
  it consumed followed by the bytes it left are exactly the bytes received, so forwarding the
  former and then the stream reproduces the connection; it consumed no more than the
  configured limit; and the server name is a lower-case ASCII DNS name of at most 253 bytes.
\<close>

theorem client_hello_lossless:
  assumes "read_client_hello alloc max_bytes input = Inr (hello, rest)"
  shows "consumed hello @ rest = input \<and> length (consumed hello) \<le> max_bytes \<and>
    server_name hello \<noteq> [] \<and> length (server_name hello) \<le> 253 \<and> map to_lower (server_name hello) = server_name hello \<and>
    list_all (\<lambda>b. is_ascii_alphanumeric b \<or> b = CHR ''-'' \<or> b = CHR ''.'') (server_name hello)"
proof -
  have "read_records alloc max_bytes 256 [] [] None input = Inr (hello, rest)"
    using assms by (simp add: read_client_hello_def split: if_splits)
  from read_records_sound [OF this] show ?thesis using canonical_name_lower by auto
qed

definition demo_bytes :: string where
  "demo_bytes = map char_of ([22, 3, 1, 0, 59, 1, 0, 0, 55, 3, 3] @ replicate 32 7 @ [0, 0, 2, 19, 1, 1, 0, 0, 12,
     0, 0, 0, 8, 0, 6, 0, 0, 3, 65, 46, 98] :: nat list)"

lemma demo_read: "read_client_hello (\<lambda>_. True) 64 (demo_bytes @ ''tail'') = Inr (\<lparr>server_name = ''a.b'', consumed = demo_bytes\<rparr>, ''tail'')"
proof -
  have r: "read_record (\<lambda>_. True) 64 [] [] (demo_bytes @ ''tail'') = Inr (demo_bytes, drop 5 demo_bytes, ''tail'')" by code_simp
  have e: "expect_handshake 64 (drop 5 demo_bytes) None = Inr (Some 59)" by code_simp
  have p: "parse_client_hello (drop 4 (take 59 (drop 5 demo_bytes))) = Inr ''a.b''" by code_simp
  have "length (drop 5 demo_bytes) = 59" by (simp add: demo_bytes_def)
  then have "read_records (\<lambda>_. True) 64 (Suc left) [] [] None (demo_bytes @ ''tail'') =
    Inr (\<lparr>server_name = ''a.b'', consumed = demo_bytes\<rparr>, ''tail'')" for left
    using r e p by (simp del: take_drop drop_drop)
  from this [of 255] show ?thesis by (simp add: read_client_hello_def)
qed

theorem client_hello_lossless_witness:
  "\<exists>hello rest. read_client_hello (\<lambda>_. True) 64 (demo_bytes @ ''tail'') = Inr (hello, rest) \<and>
     consumed hello @ rest = demo_bytes @ ''tail'' \<and> map to_lower (server_name hello) = server_name hello"
  using client_hello_lossless [OF demo_read] demo_read by blast

end
