(* ===== verification/ClientHelloWire.thy ===== *)
theory ClientHelloWire
  imports ClientHello
begin

text \<open>
  The wire format of a ClientHello, written as an encoder, and the proof that the reader of
  \<^verbatim>\<open>src/src/client_hello.rs\<close> inverts it, however the message is cut into TLS records.
\<close>

definition enc8 :: "nat \<Rightarrow> string" where
  "enc8 n = [char_of n]"

definition enc16 :: "nat \<Rightarrow> string" where
  "enc16 n = [char_of (n div 256), char_of (n mod 256)]"

text \<open>The server_name extension with one host name, an extension, and the message body.\<close>

definition sni_value :: "string \<Rightarrow> string" where
  "sni_value name = enc16 (length name + 3) @ enc8 0 @ enc16 (length name) @ name"

definition enc_extension :: "nat \<times> string \<Rightarrow> string" where
  "enc_extension e = enc16 (fst e) @ enc16 (length (snd e)) @ snd e"

definition enc_extensions :: "(nat \<times> string) list \<Rightarrow> string" where
  "enc_extensions es = concat (map enc_extension es)"

record hello =
  version :: string
  random :: string
  session_id :: string
  ciphers :: string
  compression :: string
  extensions :: "(nat \<times> string) list"

definition enc_body :: "hello \<Rightarrow> string" where
  "enc_body m = version m @ random m @ enc8 (length (session_id m)) @ session_id m @
     enc16 (length (ciphers m)) @ ciphers m @ enc8 (length (compression m)) @ compression m @
     enc16 (length (enc_extensions (extensions m))) @ enc_extensions (extensions m)"

definition well_formed :: "hello \<Rightarrow> bool" where
  "well_formed m \<longleftrightarrow> length (version m) = 2 \<and> length (random m) = 32 \<and> length (session_id m) \<le> 32 \<and>
     2 \<le> length (ciphers m) \<and> even (length (ciphers m)) \<and> length (ciphers m) < 65536 \<and>
     0 < length (compression m) \<and> length (compression m) < 256 \<and> length (enc_extensions (extensions m)) < 65536 \<and>
     distinct (map fst (extensions m)) \<and> (\<forall>e\<in>set (extensions m). fst e < 65536 \<and> length (snd e) < 65536)"

definition enc_handshake :: "string \<Rightarrow> string" where
  "enc_handshake body =
     enc8 1 @ [char_of (length body div 65536)] @ enc16 (length body mod 65536) @ body"

definition enc_record :: "string \<Rightarrow> string" where
  "enc_record fragment = [char_of (22 :: nat), char_of (3 :: nat), char_of (1 :: nat)] @ enc16 (length fragment) @ fragment"

section \<open>The message\<close>

lemma cursor_take_append [simp]: "length v = n \<Longrightarrow> cursor_take f n (v @ rest) = Inr (v, rest)"
  by (auto simp: cursor_take_def)

lemma cursor_u8_enc [simp]: "n < 256 \<Longrightarrow> cursor_u8 f (enc8 n @ rest) = Inr (n, rest)"
  by (simp add: cursor_u8_def enc8_def cursor_take_def of_char_of)

lemma cursor_u16_enc [simp]: "n < 65536 \<Longrightarrow> cursor_u16 f (enc16 n @ rest) = Inr (n, rest)"
  by (simp add: cursor_u16_def enc16_def cursor_take_def of_char_of)

lemma enc_lengths [simp]: "length (enc8 n) = 1" "length (enc16 n) = 2" "enc8 n \<noteq> []" "enc16 n \<noteq> []"
  by (simp_all add: enc8_def enc16_def)

lemma utf8_decode_ascii: "is_ascii s \<Longrightarrow> utf8_decode s \<noteq> None"
  by (induction s) (auto simp: utf8_decode_def is_ascii_def)

lemma canonical_hostname_Inr:
  "canonical_hostname name = Inr h \<Longrightarrow> name \<noteq> [] \<and> length name \<le> 253 \<and> is_ascii name \<and> h = map to_lower name"
  by (auto simp: canonical_hostname_def)

lemma parse_sni_value:
  assumes "canonical_hostname name = Inr h"
  shows "parse_server_name (sni_value name) = Inr h"
proof -
  have n: "name \<noteq> []" "length name \<le> 253" "is_ascii name" using canonical_hostname_Inr [OF assms] by auto
  then have "server_hostname name = Inr h"
    using assms utf8_decode_ascii by (simp add: server_hostname_def)
  moreover have "next_name {} (enc8 0 @ enc16 (length name) @ name) = Inr (0, name, [])"
    using n cursor_take_append [of name "length name" "''SNI name''" "[]"] by (simp add: next_name_def)
  ultimately have "names_loop {} None (enc8 0 @ enc16 (length name) @ name) = Inr (Some h)"
    by (subst names_loop.simps) simp
  then show ?thesis using n by (simp add: parse_server_name_def sni_value_def)
qed

lemma next_extension_enc:
  assumes "fst e < 65536" "length (snd e) < 65536" "fst e \<notin> seen"
  shows "next_extension seen (enc_extension e @ rest) = Inr (fst e, snd e, rest)"
  using assms by (simp add: next_extension_def enc_extension_def)

lemma extensions_loop_enc:
  assumes "distinct (map fst es)" "seen \<inter> fst ` set es = {}"
    and "\<forall>e\<in>set es. fst e < 65536 \<and> length (snd e) < 65536"
    and "\<forall>e\<in>set es. fst e = 0 \<longrightarrow> parse_server_name (snd e) = Inr h" and "0 \<in> fst ` set es \<longrightarrow> found = None"
  shows "extensions_loop seen found (enc_extensions es) = Inr (if 0 \<in> fst ` set es then Some h else found)"
  using assms
proof (induction es arbitrary: seen found)
  case (Cons e es)
  have e: "next_extension seen (enc_extension e @ enc_extensions es) = Inr (fst e, snd e, enc_extensions es)"
    using Cons.prems by (intro next_extension_enc) auto
  have IH: "extensions_loop (insert (fst e) seen) f (enc_extensions es) = Inr (if 0 \<in> fst ` set es then Some h else f)"
    if "0 \<in> fst ` set es \<longrightarrow> f = None" for f
    using Cons.IH [of "insert (fst e) seen" f] Cons.prems that by auto
  have "enc_extension e @ enc_extensions es \<noteq> []" by (simp add: enc_extension_def)
  then have "extensions_loop seen found (enc_extension e @ enc_extensions es) =
    (if fst e = 0 then extensions_loop (insert (fst e) seen) (Some h) (enc_extensions es)
     else extensions_loop (insert (fst e) seen) found (enc_extensions es))"
    using e Cons.prems by (subst extensions_loop.simps) auto
  moreover have "fst e \<notin> fst ` set es" using Cons.prems(1) by simp
  ultimately show ?case using IH [of "Some h"] IH [of found] Cons.prems(5) by (cases "fst e = 0") (auto simp: enc_extensions_def)
qed (simp add: enc_extensions_def)

lemma parse_enc_body:
  assumes "well_formed m" "(0, sni_value name) \<in> set (extensions m)" "canonical_hostname name = Inr h"
  shows "parse_client_hello (enc_body m) = Inr h"
proof -
  have "snd e = sni_value name" if "e \<in> set (extensions m)" "fst e = 0" for e
  proof -
    have "(0, snd e) \<in> set (extensions m)" using that by (metis prod.collapse)
    then show ?thesis using assms(1,2) eq_key_imp_eq_value by (fastforce simp: well_formed_def)
  qed
  then have "\<forall>e\<in>set (extensions m). fst e = 0 \<longrightarrow> parse_server_name (snd e) = Inr h"
    using parse_sni_value [OF assms(3)] by auto
  then have "extensions_loop {} None (enc_extensions (extensions m)) = Inr (Some h)"
    using extensions_loop_enc [of "extensions m" "{}" h None] assms(1,2) by (force simp: well_formed_def)
  moreover have "cursor_take f (length es) es = Inr (es, [])" for f and es :: string
    by (simp add: cursor_take_def)
  ultimately show ?thesis using assms(1) by (simp add: well_formed_def parse_client_hello_def enc_body_def even_iff_mod_2_eq_zero)
qed

section \<open>The records\<close>

lemma read_record_enc:
  assumes "f \<noteq> []" "length f \<le> 16384" "length c + length f + 5 \<le> m" "m < 2 ^ 64"
  shows "read_record (\<lambda>_. True) m c h (enc_record f @ rest) = Inr (c @ enc_record f, h @ f, rest)"
proof -
  let ?header = "[char_of (22 :: nat), char_of (3 :: nat), char_of (1 :: nat)] @ enc16 (length f)"
  have len: "length ?header = 5" by simp
  have r1: "hello_read_bounded (\<lambda>_. True) m 5 c (enc_record f @ rest) = Inr (c @ ?header, f @ rest)"
    using assms by (simp add: hello_read_bounded_Inr enc_record_def enc16_def)
  have r2: "hello_read_bounded (\<lambda>_. True) m (length f) (c @ ?header) (f @ rest) = Inr (c @ enc_record f, rest)"
    using assms by (simp add: hello_read_bounded_Inr enc_record_def)
  have "length f div 256 * 256 + length f mod 256 = length f" by simp
  then have "check_header ?header = Inr (length f)"
    using assms by (auto simp: check_header_def enc16_def of_char_of Let_def Suc_le_eq)
  then show ?thesis using r1 r2 by (simp add: read_record_def enc_record_def)
qed

lemma enc_handshake_bytes:
  assumes "length body < 2 ^ 24"
  shows "length (enc_handshake body) = length body + 4" "byte (enc_handshake body ! 0) = 1"
    "byte (enc_handshake body ! 1) * 65536 + byte (enc_handshake body ! 2) * 256 + byte (enc_handshake body ! 3) = length body"
    "drop 4 (enc_handshake body) = body"
proof -
  have "length body div 65536 < 256" "length body mod 65536 div 256 < 256" using assms by (simp_all add: div_less_iff_less_mult less_mult_imp_div_less)
  moreover have "length body mod 65536 div 256 * 256 + length body mod 65536 mod 256 = length body mod 65536" by simp
  ultimately show "byte (enc_handshake body ! 1) * 65536 + byte (enc_handshake body ! 2) * 256 + byte (enc_handshake body ! 3) = length body"
    by (simp add: enc_handshake_def enc8_def enc16_def of_char_of)
qed (simp_all add: enc_handshake_def enc8_def enc16_def of_char_of)

lemma read_records_enc:
  assumes "fs \<noteq> []" "\<forall>f\<in>set fs. f \<noteq> [] \<and> length f \<le> 16384" "length fs \<le> left" "h @ concat fs = enc_handshake body"
    and "length body < 2 ^ 24" "length body + 4 \<le> m" "m < 2 ^ 64" "length c + length (concat (map enc_record fs)) \<le> m"
    and "expected = (if 4 \<le> length h then Some (length body + 4) else None)"
  shows "read_records (\<lambda>_. True) m left c h expected (concat (map enc_record fs) @ rest) =
    res_bind (parse_client_hello body) (\<lambda>name. Inr (\<lparr>server_name = name, consumed = c @ concat (map enc_record fs)\<rparr>, rest))"
  using assms
proof (induction fs arbitrary: left c h expected)
  case (Cons f fs)
  obtain left' where left: "left = Suc left'" using Cons.prems(3) by (cases left) auto
  let ?rest = "concat (map enc_record fs) @ rest"
  let ?total = "length body + 4"
  have r: "read_record (\<lambda>_. True) m c h (enc_record f @ ?rest) = Inr (c @ enc_record f, h @ f, ?rest)"
    using Cons.prems by (intro read_record_enc) (auto simp: enc_record_def)
  have h: "enc_handshake body = (h @ f) @ concat fs" using Cons.prems(4) by simp
  note b = enc_handshake_bytes [OF Cons.prems(5)]
  have "(h @ f) ! i = enc_handshake body ! i" if "4 \<le> length (h @ f)" "i < 4" for i
    using that unfolding h by (simp only: nth_append) auto
  then have e: "expect_handshake m (h @ f) expected = Inr (if 4 \<le> length (h @ f) then Some ?total else None)"
    using b(2,3) Cons.prems(6,9) by (auto simp: expect_handshake_def Let_def)
  have total: "length h + length f + length (concat fs) = ?total" using arg_cong [OF h, of length] b(1) by simp
  show ?case
  proof (cases "fs = []")
    case True
    then have "enc_handshake body = h @ f" "length (h @ f) = ?total" using h total by simp_all
    then have "drop 4 (take ?total (h @ f)) = body" "4 \<le> length (h @ f)" "?total \<le> length (h @ f)"
      using b(4) by simp_all
    then show ?thesis using True left r e by simp
  next
    case False
    then have "concat fs \<noteq> []" using Cons.prems(2) by (cases fs) auto
    then have "length (h @ f) < ?total" using total by (cases "concat fs") auto
    moreover have "read_records (\<lambda>_. True) m left' (c @ enc_record f) (h @ f) (if 4 \<le> length (h @ f) then Some ?total else None) ?rest =
      res_bind (parse_client_hello body) (\<lambda>name. Inr (\<lparr>server_name = name, consumed = (c @ enc_record f) @ concat (map enc_record fs)\<rparr>, rest))"
      using False Cons.prems left by (intro Cons.IH) auto
    ultimately show ?thesis using left r e by (simp split: if_splits)
  qed
qed simp

text \<open>
  C5. The ClientHello reader inverts the wire format. Any well-formed ClientHello that carries a
  valid host name in its server_name extension, cut into TLS records at any places (1 to 256
  nonempty records of at most 16384 bytes, within the byte limit), is accepted; the server
  name is the host name in lower case, the bytes consumed are exactly the records, and whatever
  follows them is left in the stream.
\<close>

theorem client_hello_roundtrip:
  assumes "well_formed m" "(0, sni_value name) \<in> set (extensions m)" "canonical_hostname name = Inr h"
    and "concat fragments = enc_handshake (enc_body m)" "length (enc_body m) < 2 ^ 24"
    and "\<forall>f\<in>set fragments. f \<noteq> [] \<and> length f \<le> 16384" "length fragments \<le> 256"
    and "length (concat (map enc_record fragments)) \<le> max_bytes" "max_bytes < 2 ^ 64"
  shows "read_client_hello (\<lambda>_. True) max_bytes (concat (map enc_record fragments) @ rest) =
    Inr (\<lparr>server_name = map to_lower name, consumed = concat (map enc_record fragments)\<rparr>, rest)"
proof -
  have ne: "fragments \<noteq> []" using assms(4) by (auto simp: enc_handshake_def)
  have "length (concat fs) \<le> length (concat (map enc_record fs))" for fs
    by (induction fs) (simp_all add: enc_record_def)
  then have "length (enc_handshake (enc_body m)) \<le> max_bytes" using assms(4,8) by (metis order_trans)
  then have m: "length (enc_body m) + 4 \<le> max_bytes" using enc_handshake_bytes(1) [OF assms(5)] by simp
  have "h = map to_lower name" using canonical_hostname_Inr [OF assms(3)] by simp
  then show ?thesis
    using read_records_enc [OF ne assms(6,7) _ assms(5) m assms(9), of "[]" "[]" None rest] assms(4,8) m
      parse_enc_body [OF assms(1-3)]
    by (simp add: read_client_hello_def)
qed

definition demo_hello :: hello where
  "demo_hello = \<lparr>version = ''vv'', random = replicate 32 (CHR ''r''), session_id = [], ciphers = ''cc'', compression = ''n'',
     extensions = [(10, ''xy''), (0, sni_value ''A.b'')]\<rparr>"

definition demo_fragments :: "string list" where
  "demo_fragments = [take 3 (enc_handshake (enc_body demo_hello)), drop 3 (enc_handshake (enc_body demo_hello))]"

theorem client_hello_roundtrip_witness:
  "read_client_hello (\<lambda>_. True) 200 (concat (map enc_record demo_fragments) @ ''tail'') =
    Inr (\<lparr>server_name = ''a.b'', consumed = concat (map enc_record demo_fragments)\<rparr>, ''tail'')"
proof -
  have 1: "well_formed demo_hello" by (simp add: well_formed_def demo_hello_def enc_extensions_def enc_extension_def sni_value_def)
  have 2: "(0, sni_value ''A.b'') \<in> set (extensions demo_hello)" by (simp add: demo_hello_def)
  have 3: "canonical_hostname ''A.b'' = Inr ''a.b''" by code_simp
  have 4: "concat demo_fragments = enc_handshake (enc_body demo_hello)"
    by (simp add: demo_fragments_def)
  have 5: "length (enc_body demo_hello) = 61"
    by (simp add: enc_body_def demo_hello_def enc_extensions_def enc_extension_def sni_value_def)
  have 6: "length (enc_handshake (enc_body demo_hello)) = 65" using enc_handshake_bytes(1) [of "enc_body demo_hello"] 5 by simp
  have 7: "\<forall>f\<in>set demo_fragments. f \<noteq> [] \<and> length f \<le> 16384" "length demo_fragments \<le> 256"
    "length (concat (map enc_record demo_fragments)) \<le> 200"
    using 6 by (auto simp: demo_fragments_def enc_record_def)
  have "map to_lower ''A.b'' = ''a.b''" by code_simp
  then show ?thesis
    using client_hello_roundtrip [OF 1 2 3 4 _ 7(1,2,3), of "''tail''"] 5 by simp
qed

end
