(* ===== verification/CachePolicy.thy ===== *)
theory CachePolicy
  imports Http "HOL-Library.List_Lexorder" "HOL-Library.Char_ord"
begin

text \<open>
  The shared-cache policy of \<^verbatim>\<open>src/src/cache_policy.rs\<close>: which requests and responses may use
  the cache, the key of a request, and how long a response stays fresh. SHA-256, the HTTP date
  parser and the wall clock (ns since 1970) are arguments.
\<close>

abbreviation (input) MAX_KEY_HEADER_BYTES :: nat where "MAX_KEY_HEADER_BYTES \<equiv> 65536"
abbreviation (input) MAX_TTL_SECONDS :: nat where "MAX_TTL_SECONDS \<equiv> 86400"

record RouteCache =
  ttl_seconds :: nat
  max_ttl_seconds :: nat

definition default_route_cache :: RouteCache where
  "default_route_cache = \<lparr>ttl_seconds = 30, max_ttl_seconds = 300\<rparr>"

definition cache_validate :: "RouteCache \<Rightarrow> string + unit" where
  "cache_validate r =
     ensure (1 \<le> ttl_seconds r \<and> ttl_seconds r \<le> max_ttl_seconds r \<and> max_ttl_seconds r \<le> MAX_TTL_SECONDS)
       ''cache TTL must satisfy 1 <= ttl_seconds <= max_ttl_seconds <= 86400''"

text \<open>
  What eligibility reads of a route: whether each policy is there, whether the country policy
  enforces, and whether the response transform is buffered and has no script.
\<close>

record cache_route =
  cr_cache :: "RouteCache option"
  cr_country_enforce :: "bool option"
  cr_resource_policy :: bool
  cr_workload_auth :: bool
  cr_jwt_auth :: bool
  cr_protected :: bool
  cr_auth :: bool
  cr_basic_auth :: bool
  cr_lua :: bool
  cr_json_empty :: bool
  cr_request_transform :: bool
  cr_response_transform :: "(bool \<times> bool) option" \<comment> \<open>buffered, has a script\<close>

definition route_eligible :: "cache_route \<Rightarrow> bool" where
  "route_eligible r \<longleftrightarrow>
     cr_cache r \<noteq> None \<and>
     (case cr_country_enforce r of None \<Rightarrow> True | Some enforce \<Rightarrow> \<not> enforce) \<and>
     \<not> cr_resource_policy r \<and> \<not> cr_workload_auth r \<and> \<not> cr_jwt_auth r \<and> \<not> cr_protected r \<and>
     \<not> cr_auth r \<and> \<not> cr_basic_auth r \<and> \<not> cr_lua r \<and> cr_json_empty r \<and> \<not> cr_request_transform r \<and>
     (case cr_response_transform r of None \<Rightarrow> True | Some (buffered, script) \<Rightarrow> buffered \<and> \<not> script)"

definition only_if_cached :: "header_map \<Rightarrow> bool" where
  "only_if_cached headers =
     list_ex (\<lambda>v. list_ex (\<lambda>part. eq_ignore_ascii_case (trim_ascii (hd (split_on (CHR ''='') part))) ''only-if-cached'')
         (split_on (CHR '','') v))
       (hm_values headers ''cache-control'')"

text \<open>\<open>body_empty\<close>: the body has ended or its size hint is zero.\<close>

definition request_eligible :: "request \<Rightarrow> bool \<Rightarrow> bool" where
  "request_eligible r body_empty =
     (let h = req_headers r in
      if req_method r \<noteq> ''GET'' \<or> \<not> body_empty \<or> contains_key h ''cache-control'' \<or> contains_key h ''pragma'' then False
      else
        \<not> list_ex (contains_key h)
          [''authorization'', ''proxy-authorization'', ''cookie'', ''range'', ''content-range'', ''upgrade''] \<and>
        \<not> list_ex (prefix ''if-'') (hm_keys h))"

section \<open>Keys\<close>

text \<open>\<^verbatim>\<open>u64::to_be_bytes\<close> and \<^verbatim>\<open>generation_of\<close> of \<^verbatim>\<open>src/src/cache.rs\<close>.\<close>

definition to_be_bytes :: "nat \<Rightarrow> string" where
  "to_be_bytes n = map (\<lambda>i. char_of (n div 256 ^ i)) [7, 6, 5, 4, 3, 2, 1, 0]"

definition generation_of :: "u64 \<Rightarrow> u64" where
  "generation_of epoch = drop_bit 32 epoch"

definition framed :: "string \<Rightarrow> string" where
  "framed v = to_be_bytes (length v) @ v"

fun header_budget :: "nat \<Rightarrow> nat list \<Rightarrow> bool" where
  "header_budget used [] = True"
| "header_budget used (n # ns) = (if used + n > MAX_KEY_HEADER_BYTES then False else header_budget (used + n) ns)"

definition hop_by_hop_names :: "http_lib \<Rightarrow> header_map \<Rightarrow> string list" where
  "hop_by_hop_names L headers =
     [''connection'', ''keep-alive'', ''proxy-connection'', ''proxy-authenticate'', ''proxy-authorization'',
      ''te'', ''trailer'', ''transfer-encoding'', ''upgrade''] @
     concat (map (\<lambda>v. case header_to_str L v of
         None \<Rightarrow> []
       | Some v \<Rightarrow> List.map_filter (\<lambda>token. parse_header_name L (str_trim token)) (split_on (CHR '','') v))
       (hm_values headers ''connection''))"

definition keyed_names :: "http_lib \<Rightarrow> header_map \<Rightarrow> string list" where
  "keyed_names L headers = sort (remdups (filter (\<lambda>n. n \<notin> set (hop_by_hop_names L headers)) (hm_keys headers)))"

text \<open>The values hashed, in order; each is framed.\<close>

definition key_frames :: "http_lib \<Rightarrow> request \<Rightarrow> bool \<Rightarrow> string \<Rightarrow> string \<Rightarrow> u64 \<Rightarrow> string list" where
  "key_frames L r tls route_fingerprint backend epoch =
     [''hangang-cache-key-v2'',
      to_be_bytes (unat (generation_of epoch)),
      req_method r,
      (case uri_scheme r of Some s \<Rightarrow> s | None \<Rightarrow> []),
      [char_of (if tls then 1 else 0 :: nat)],
      (case uri_authority r of Some (a, _) \<Rightarrow> a | None \<Rightarrow> []),
      (case uri_path_and_query r of Some p \<Rightarrow> p | None \<Rightarrow> ''/''),
      route_fingerprint, backend] @
     concat (map (\<lambda>n. [n, to_be_bytes (length (hm_values (req_headers r) n))] @ hm_values (req_headers r) n)
       (keyed_names L (req_headers r)))"

definition hex_text :: "string \<Rightarrow> string" where
  "hex_text digest = concat (map (\<lambda>c. [''0123456789abcdef'' ! (byte c div 16), ''0123456789abcdef'' ! (byte c mod 16)]) digest)"

definition key :: "http_lib \<Rightarrow> (string \<Rightarrow> string) \<Rightarrow> request \<Rightarrow> bool \<Rightarrow> string \<Rightarrow> string \<Rightarrow> u64 \<Rightarrow> string option" where
  "key L sha256 r tls route_fingerprint backend epoch =
     (if req_method r \<noteq> ''GET'' then None
      else if \<not> header_budget 0 (concat (map (\<lambda>n. map (\<lambda>v. length n + length v + 2) (hm_values (req_headers r) n))
          (hm_keys (req_headers r)))) then None
      else Some (hex_text (sha256 (concat (map framed (key_frames L r tls route_fingerprint backend epoch))))))"

section \<open>Freshness\<close>

definition unsupported_content_type :: "http_lib \<Rightarrow> header_map \<Rightarrow> bool" where
  "unsupported_content_type L headers = (case hm_values headers ''content-type'' of
     [] \<Rightarrow> False
   | [v] \<Rightarrow> (case header_to_str L v of
       None \<Rightarrow> True
     | Some v \<Rightarrow> eq_ignore_ascii_case (str_trim (hd (split_on (CHR '';'') v))) ''text/event-stream'')
   | _ \<Rightarrow> True)"

definition vary_star_or_invalid :: "http_lib \<Rightarrow> header_map \<Rightarrow> bool" where
  "vary_star_or_invalid L headers =
     list_ex (\<lambda>v. case header_to_str L v of
         None \<Rightarrow> True
       | Some v \<Rightarrow> list_ex (\<lambda>name. let name = str_trim name in
           name = ''*'' \<or> name = [] \<or> parse_header_name L name = None) (split_on (CHR '','') v))
       (hm_values headers ''vary'')"

definition one_http_date :: "http_lib \<Rightarrow> (string \<Rightarrow> int option) \<Rightarrow> header_map \<Rightarrow> string \<Rightarrow> int option option" where
  "one_http_date L parse_date headers name = (case hm_values headers name of
     [] \<Rightarrow> Some None
   | [v] \<Rightarrow> Option.bind (header_to_str L v) (\<lambda>v. map_option Some (parse_date v))
   | _ \<Rightarrow> None)"

definition one_delta_header :: "http_lib \<Rightarrow> header_map \<Rightarrow> string \<Rightarrow> nat option option" where
  "one_delta_header L headers name = (case hm_values headers name of
     [] \<Rightarrow> Some None
   | [v] \<Rightarrow> Option.bind (header_to_str L v) (\<lambda>v. map_option Some (parse_u64 (str_trim v)))
   | _ \<Rightarrow> None)"

definition unquote :: "string \<Rightarrow> string" where
  "unquote v = (case Option.bind (strip_prefix [CHR 0x22] v) (strip_suffix [CHR 0x22]) of Some w \<Rightarrow> w | None \<Rightarrow> v)"

definition delta_seconds :: "string option \<Rightarrow> nat option" where
  "delta_seconds v = Option.bind v (\<lambda>v. let v = unquote v in
     if v = [] \<or> \<not> list_all is_ascii_digit v then None else parse_u64 v)"

text \<open>The scan for commas outside quotes: the pieces so far and the current one (reversed).\<close>

fun split_scan :: "bool \<Rightarrow> bool \<Rightarrow> string \<Rightarrow> string \<Rightarrow> string list option" where
  "split_scan in_quotes escaped current [] = (if in_quotes \<or> escaped then None else Some [str_trim (rev current)])"
| "split_scan in_quotes escaped current (c # cs) =
     (if escaped then split_scan in_quotes False (c # current) cs
      else if in_quotes \<and> c = CHR 0x5C then split_scan in_quotes True (c # current) cs
      else if c = CHR 0x22 then split_scan (\<not> in_quotes) False (c # current) cs
      else if \<not> in_quotes \<and> c = CHR '','' then map_option (Cons (str_trim (rev current))) (split_scan in_quotes False [] cs)
      else split_scan in_quotes False (c # current) cs)"

definition split_directives :: "string \<Rightarrow> string list option" where
  "split_directives v = split_scan False False [] v"

definition split_once :: "char \<Rightarrow> string \<Rightarrow> (string \<times> string) option" where
  "split_once c s = (if c \<in> set s then Some (takeWhile (\<lambda>x. x \<noteq> c) s, tl (dropWhile (\<lambda>x. x \<noteq> c) s)) else None)"

definition directive_of :: "http_lib \<Rightarrow> string \<Rightarrow> (string \<times> string option) option" where
  "directive_of L directive =
     (let (name, argument) = (case split_once (CHR ''='') directive of
            None \<Rightarrow> (directive, None) | Some (name, v) \<Rightarrow> (name, Some (str_trim v)));
          name = str_trim name
      in if name = [] \<or> parse_header_name L name = None then None else Some (map to_lower name, argument))"

fun option_all :: "('a \<Rightarrow> 'b option) \<Rightarrow> 'a list \<Rightarrow> 'b list option" where
  "option_all f [] = Some []"
| "option_all f (x # xs) = Option.bind (f x) (\<lambda>y. map_option (Cons y) (option_all f xs))"

definition cache_directives :: "http_lib \<Rightarrow> header_map \<Rightarrow> (string \<times> string option) list option" where
  "cache_directives L headers = map_option concat (option_all (\<lambda>v.
     Option.bind (header_to_str L v) (\<lambda>v. Option.bind (split_directives v) (option_all (directive_of L))))
     (hm_values headers ''cache-control''))"

text \<open>The loop over the directives: the names seen, \<^verbatim>\<open>max-age\<close> and \<^verbatim>\<open>s-maxage\<close>.\<close>

fun read_directives ::
  "string list \<Rightarrow> nat option \<Rightarrow> nat option \<Rightarrow> (string \<times> string option) list \<Rightarrow> (nat option \<times> nat option) option" where
  "read_directives seen max_age shared [] = Some (max_age, shared)"
| "read_directives seen max_age shared ((name, v) # ds) =
     (if name \<in> set seen then None
      else if name \<in> {''no-store'', ''private'', ''no-cache''} then None
      else if name = ''max-age'' then
        Option.bind (delta_seconds v) (\<lambda>n. read_directives (name # seen) (Some n) shared ds)
      else if name = ''s-maxage'' then
        Option.bind (delta_seconds v) (\<lambda>n. read_directives (name # seen) max_age (Some n) ds)
      else if name \<in> {''public'', ''must-revalidate'', ''proxy-revalidate'', ''no-transform''} then
        (if v \<noteq> None then None else read_directives (name # seen) max_age shared ds)
      else None)"

text \<open>\<^verbatim>\<open>now.duration_since(date)\<close> in seconds, rounded up, saturating; zero when the date is ahead.\<close>

definition apparent_age :: "int \<Rightarrow> int option \<Rightarrow> nat" where
  "apparent_age now date = (case date of
     None \<Rightarrow> 0
   | Some date \<Rightarrow> if now < date then 0 else
       let ns = nat (now - date) in min (ns div 1000000000 + (if ns mod 1000000000 \<noteq> 0 then 1 else 0)) (2 ^ 64 - 1))"

definition lifetime ::
  "http_lib \<Rightarrow> (string \<Rightarrow> int option) \<Rightarrow> int \<Rightarrow> header_map \<Rightarrow> int option \<Rightarrow> nat option \<times> nat option \<Rightarrow> RouteCache \<Rightarrow> nat option" where
  "lifetime L parse_date now headers date ages route =
     (case (case snd ages of Some s \<Rightarrow> Some s | None \<Rightarrow> fst ages) of
        Some seconds \<Rightarrow> Some (min seconds (max_ttl_seconds route))
      | None \<Rightarrow>
          (case one_http_date L parse_date headers ''expires'' of
             None \<Rightarrow> None
           | Some (Some expires) \<Rightarrow>
               let base = (case date of Some d \<Rightarrow> d | None \<Rightarrow> now) in
               if expires < base then None
               else Some (min (nat (expires - base) div 1000000000) (max_ttl_seconds route))
           | Some None \<Rightarrow> Some (min (ttl_seconds route) (max_ttl_seconds route))))"

definition response_ttl ::
  "http_lib \<Rightarrow> (string \<Rightarrow> int option) \<Rightarrow> int \<Rightarrow> header_map \<Rightarrow> nat \<Rightarrow> RouteCache \<Rightarrow> (nat \<times> nat) option" where
  "response_ttl L parse_date now headers status route =
     (if status \<noteq> 200 \<or> contains_key headers ''set-cookie'' \<or> contains_key headers ''content-range'' \<or>
         contains_key headers ''trailer'' \<or> unsupported_content_type L headers \<or> vary_star_or_invalid L headers then None
      else if isl (cache_validate route) then None
      else
        Option.bind (cache_directives L headers) (\<lambda>directives.
        Option.bind (read_directives [] None None directives) (\<lambda>ages.
        Option.bind (one_http_date L parse_date headers ''date'') (\<lambda>date.
        Option.bind (one_delta_header L headers ''age'') (\<lambda>age.
        let initial_age = max (case age of Some a \<Rightarrow> a | None \<Rightarrow> 0) (apparent_age now date) in
        Option.bind (lifetime L parse_date now headers date ages route) (\<lambda>seconds.
        if seconds < initial_age then None
        else
          let remaining = seconds - initial_age in
          if remaining > 0 then Some (remaining * 1000, initial_age) else None))))))"

section \<open>Keys identify requests\<close>

lemma to_be_bytes_length [simp]: "length (to_be_bytes n) = 8"
  by (simp add: to_be_bytes_def)

lemma base256: "(n :: nat) < 256 ^ k \<Longrightarrow> m < 256 ^ k \<Longrightarrow> (\<And>i. i < k \<Longrightarrow> n div 256 ^ i mod 256 = m div 256 ^ i mod 256) \<Longrightarrow> n = m"
proof (induction k arbitrary: n m)
  case (Suc k)
  have low: "n mod 256 = m mod 256" using Suc.prems(3) [of 0] by simp
  have "n div 256 = m div 256"
  proof (rule Suc.IH)
    show "n div 256 < 256 ^ k" "m div 256 < 256 ^ k" using Suc.prems(1,2) by (auto simp: less_mult_imp_div_less mult.commute)
    show "n div 256 div 256 ^ i mod 256 = m div 256 div 256 ^ i mod 256" if "i < k" for i
      using Suc.prems(3) [of "Suc i"] that by (simp add: div_mult2_eq)
  qed
  then show ?case using low by (metis div_mult_mod_eq)
qed simp

lemma to_be_bytes_inject:
  assumes "to_be_bytes n = to_be_bytes m" "n < 2 ^ 64" "m < 2 ^ 64"
  shows "n = m"
proof (rule base256 [of n 8 m])
  have b: "(2 :: nat) ^ 64 = 256 ^ 8" by simp
  show "n < 256 ^ 8" "m < 256 ^ 8" using assms(2,3) unfolding b .
  show "n div 256 ^ i mod 256 = m div 256 ^ i mod 256" if "i < 8" for i
  proof -
    have "i \<in> set [7, 6, 5, 4, 3, 2, 1, 0]" using that by auto
    then have "char_of (n div 256 ^ i) = (char_of (m div 256 ^ i) :: char)"
      using assms(1) unfolding to_be_bytes_def map_eq_conv by blast
    then have "byte (char_of (n div 256 ^ i)) = byte (char_of (m div 256 ^ i))" by simp
    then show ?thesis by (simp add: of_char_of)
  qed
qed

definition fits :: "string \<Rightarrow> bool" where
  "fits v \<longleftrightarrow> length v < 2 ^ 64"

lemma framed_inject:
  assumes "framed v @ a = framed w @ b" "fits v" "fits w"
  shows "v = w \<and> a = b"
proof -
  have "to_be_bytes (length v) = to_be_bytes (length w)" "v @ a = w @ b"
    using assms(1) by (simp_all add: framed_def append_eq_append_conv)
  moreover from this(1) have "length v = length w" using assms(2,3) by (intro to_be_bytes_inject) (simp_all add: fits_def)
  ultimately show ?thesis by (simp add: append_eq_append_conv)
qed

lemma frames_inject:
  "concat (map framed vs) = concat (map framed ws) \<Longrightarrow> list_all fits vs \<Longrightarrow> list_all fits ws \<Longrightarrow> vs = ws"
proof (induction vs arbitrary: ws)
  case Nil
  then show ?case by (cases ws) (auto simp: framed_def to_be_bytes_def)
next
  case (Cons v vs)
  then obtain w ws' where ws: "ws = w # ws'" by (cases ws) (auto simp: framed_def to_be_bytes_def)
  then have "v = w \<and> concat (map framed vs) = concat (map framed ws')"
    using Cons.prems by (intro framed_inject) simp_all
  then show ?case using Cons ws by simp
qed

text \<open>The header groups are read back from their frames.\<close>

lemma header_groups_inject:
  assumes "concat (map (\<lambda>n. [n, to_be_bytes (length (f n))] @ f n) ns) = concat (map (\<lambda>n. [n, to_be_bytes (length (g n))] @ g n) ms)"
    and "\<forall>n\<in>set ns. length (f n) < 2 ^ 64" "\<forall>n\<in>set ms. length (g n) < 2 ^ 64"
  shows "ns = ms \<and> (\<forall>n\<in>set ns. f n = g n)"
  using assms
proof (induction ns arbitrary: ms)
  case Nil
  from Nil.prems(1) have "ms = []" by (cases ms) simp_all
  then show ?case by simp
next
  case (Cons n ns)
  from Cons.prems(1) obtain m ms' where ms: "ms = m # ms'" by (cases ms) simp_all
  let ?F = "concat (map (\<lambda>n. [n, to_be_bytes (length (f n))] @ f n) ns)"
  let ?G = "concat (map (\<lambda>n. [n, to_be_bytes (length (g n))] @ g n) ms')"
  have "n = m \<and> to_be_bytes (length (f n)) = to_be_bytes (length (g m)) \<and> f n @ ?F = g m @ ?G"
    using Cons.prems(1) unfolding ms by auto
  moreover have "length (f n) < 2 ^ 64" "length (g m) < 2 ^ 64" using Cons.prems(2,3) ms by simp_all
  ultimately have e: "n = m" "f n = g m" "?F = ?G"
    using to_be_bytes_inject [of "length (f n)" "length (g m)"] append_eq_append_conv [of "f n" "g m" ?F ?G] by blast+
  have "ns = ms' \<and> (\<forall>n\<in>set ns. f n = g n)" using e(3) Cons.prems(2,3) ms by (intro Cons.IH) simp_all
  then show ?case using e ms by simp
qed

lemma hex_text_inject: "hex_text a = hex_text b \<Longrightarrow> a = b"
proof (induction a arbitrary: b)
  case Nil
  then show ?case by (cases b) (simp_all add: hex_text_def)
next
  case (Cons x a)
  then obtain y b' where b: "b = y # b'" by (cases b) (simp_all add: hex_text_def)
  have digit: "i = j" if "''0123456789abcdef'' ! i = ''0123456789abcdef'' ! j" "i < 16" "j < 16" for i j :: nat
    using nth_eq_iff_index_eq [of "''0123456789abcdef''" i j] that by simp
  have "byte c < 256" for c by (metis mod_less_divisor of_char_mod_256 zero_less_numeral)
  then have lt: "byte c div 16 < 16" for c by (simp add: less_mult_imp_div_less)
  have "byte x div 16 = byte y div 16" "byte x mod 16 = byte y mod 16"
    using Cons.prems b lt [of x] lt [of y] by (simp_all add: hex_text_def digit)
  then have "byte x = byte y" by (metis div_mult_mod_eq)
  then show ?case using Cons b by (simp add: hex_text_def)
qed

text \<open>
  C8. A cache key identifies the request. If SHA-256 does not collide on the two inputs and every
  component fits a 64-bit length, two requests get the same key only when they agree on the
  method, scheme, transport, authority, path and query, route fingerprint, backend and
  configuration generation, and carry the same end-to-end headers with the same values in the
  same order. No choice of header names or values can make one component pass for another.
\<close>

theorem cache_key_identifies:
  assumes "key L sha256 r tls fp be epoch = Some k" "key L sha256 r' tls' fp' be' epoch' = Some k"
    and "sha256 (concat (map framed (key_frames L r tls fp be epoch))) = sha256 (concat (map framed (key_frames L r' tls' fp' be' epoch')))
      \<longrightarrow> concat (map framed (key_frames L r tls fp be epoch)) = concat (map framed (key_frames L r' tls' fp' be' epoch'))"
    and "list_all fits (key_frames L r tls fp be epoch)" "list_all fits (key_frames L r' tls' fp' be' epoch')"
    and "\<forall>n. length (hm_values (req_headers r) n) < 2 ^ 64" "\<forall>n. length (hm_values (req_headers r') n) < 2 ^ 64"
  shows "req_method r = req_method r' \<and> tls = tls' \<and> fp = fp' \<and> be = be' \<and> generation_of epoch = generation_of epoch' \<and>
    (case uri_scheme r of Some s \<Rightarrow> s | None \<Rightarrow> []) = (case uri_scheme r' of Some s \<Rightarrow> s | None \<Rightarrow> []) \<and>
    (case uri_authority r of Some (a, _) \<Rightarrow> a | None \<Rightarrow> []) = (case uri_authority r' of Some (a, _) \<Rightarrow> a | None \<Rightarrow> []) \<and>
    (case uri_path_and_query r of Some p \<Rightarrow> p | None \<Rightarrow> ''/'') = (case uri_path_and_query r' of Some p \<Rightarrow> p | None \<Rightarrow> ''/'') \<and>
    keyed_names L (req_headers r) = keyed_names L (req_headers r') \<and>
    (\<forall>n\<in>set (keyed_names L (req_headers r)). hm_values (req_headers r) n = hm_values (req_headers r') n)"
proof -
  have "hex_text (sha256 (concat (map framed (key_frames L r tls fp be epoch)))) =
    hex_text (sha256 (concat (map framed (key_frames L r' tls' fp' be' epoch'))))"
    using assms(1,2) by (simp add: key_def split: if_splits)
  then have frames: "key_frames L r tls fp be epoch = key_frames L r' tls' fp' be' epoch'"
    using assms(3-5) by (intro frames_inject) (auto dest: hex_text_inject)
  have gen: "unat (generation_of epoch) = unat (generation_of epoch')"
  proof (rule to_be_bytes_inject)
    show "unat (generation_of epoch) < 2 ^ 64" "unat (generation_of epoch') < 2 ^ 64"
      using unsigned_less [of "generation_of epoch"] unsigned_less [of "generation_of epoch'"] by simp_all
  qed (use frames in \<open>simp add: key_frames_def\<close>)
  have groups: "concat (map (\<lambda>n. [n, to_be_bytes (length (hm_values (req_headers r) n))] @ hm_values (req_headers r) n) (keyed_names L (req_headers r))) =
    concat (map (\<lambda>n. [n, to_be_bytes (length (hm_values (req_headers r') n))] @ hm_values (req_headers r') n) (keyed_names L (req_headers r')))"
    using frames by (simp add: key_frames_def)
  have "keyed_names L (req_headers r) = keyed_names L (req_headers r') \<and>
    (\<forall>n\<in>set (keyed_names L (req_headers r)). hm_values (req_headers r) n = hm_values (req_headers r') n)"
    by (rule header_groups_inject [OF groups]) (use assms(6,7) in simp_all)
  moreover have "tls = tls'"
  proof -
    have "(char_of (if tls then 1 else 0 :: nat) :: char) = char_of (if tls' then 1 else 0 :: nat)"
      using frames by (simp add: key_frames_def)
    then have "byte (char_of (if tls then 1 else 0 :: nat)) = byte (char_of (if tls' then 1 else 0 :: nat))" by simp
    then show ?thesis by (simp add: of_char_of split: if_splits)
  qed
  moreover have "req_method r = req_method r' \<and> fp = fp' \<and> be = be' \<and>
    (case uri_scheme r of Some s \<Rightarrow> s | None \<Rightarrow> []) = (case uri_scheme r' of Some s \<Rightarrow> s | None \<Rightarrow> []) \<and>
    (case uri_authority r of Some (a, _) \<Rightarrow> a | None \<Rightarrow> []) = (case uri_authority r' of Some (a, _) \<Rightarrow> a | None \<Rightarrow> []) \<and>
    (case uri_path_and_query r of Some p \<Rightarrow> p | None \<Rightarrow> ''/'') = (case uri_path_and_query r' of Some p \<Rightarrow> p | None \<Rightarrow> ''/'')"
    using frames by (simp only: key_frames_def append_Cons list.inject)
  ultimately show ?thesis using gen by (simp add: word_unat_eq_iff)
qed

definition demo_get :: "string \<Rightarrow> request" where
  "demo_get path =
     \<lparr>req_method = ''GET'', uri_path = path, uri_scheme = None, uri_authority = None, uri_path_and_query = Some path,
      req_headers = \<lparr>hm_keys = [''accept'', ''te''], hm_values = (\<lambda>n. if n = ''accept'' then [''a'', ''b''] else if n = ''te'' then [''x''] else [])\<rparr>\<rparr>"

lemma demo_frames:
  "key_frames plain_http (demo_get p) tls fp be epoch =
     [''hangang-cache-key-v2'', to_be_bytes (unat (generation_of epoch)), ''GET'', [], [char_of (if tls then 1 else 0 :: nat)], [],
      p, fp, be, ''accept'', to_be_bytes 2, ''a'', ''b'']"
  by (simp add: key_frames_def demo_get_def keyed_names_def hop_by_hop_names_def numeral_2_eq_2)

theorem cache_key_identifies_witness:
  "key plain_http (\<lambda>v. v) (demo_get ''/x'') True ''f'' ''b'' 0 \<noteq> key plain_http (\<lambda>v. v) (demo_get ''/y'') True ''f'' ''b'' 0"
proof
  assume e: "key plain_http (\<lambda>v. v) (demo_get ''/x'') True ''f'' ''b'' 0 = key plain_http (\<lambda>v. v) (demo_get ''/y'') True ''f'' ''b'' 0"
  obtain k where k: "key plain_http (\<lambda>v. v) (demo_get ''/x'') True ''f'' ''b'' 0 = Some k"
    by (simp add: key_def demo_get_def)
  have "list_all fits (key_frames plain_http (demo_get p) True ''f'' ''b'' 0)" if "length p = 2" for p
    using that unfolding demo_frames by (simp add: fits_def)
  then have f: "list_all fits (key_frames plain_http (demo_get ''/x'') True ''f'' ''b'' 0)"
    "list_all fits (key_frames plain_http (demo_get ''/y'') True ''f'' ''b'' 0)" by simp_all
  have h: "\<forall>n. length (hm_values (req_headers (demo_get p)) n) < 2 ^ 64" for p by (simp add: demo_get_def)
  from cache_key_identifies [OF k k [unfolded e] _ f h h] have "uri_path_and_query (demo_get ''/x'') = uri_path_and_query (demo_get ''/y'')"
    by (simp add: demo_get_def)
  then show False by (simp add: demo_get_def)
qed

section \<open>Bounds of freshness\<close>

lemma lifetime_bound: "lifetime L pd now h date ages route = Some s \<Longrightarrow> s \<le> max_ttl_seconds route"
  by (auto simp: lifetime_def Let_def split: option.splits if_splits)

lemma read_directives_allowed:
  "read_directives seen m s ds = Some r \<Longrightarrow> distinct (map fst ds) \<and>
     set (map fst ds) \<subseteq> {''max-age'', ''s-maxage'', ''public'', ''must-revalidate'', ''proxy-revalidate'', ''no-transform''} - set seen"
proof (induction ds arbitrary: seen m s)
  case (Cons d ds)
  obtain name v where d: "d = (name, v)" by (cases d)
  obtain m' s' where r: "read_directives (name # seen) m' s' ds = Some r" "name \<notin> set seen"
    "name \<in> {''max-age'', ''s-maxage'', ''public'', ''must-revalidate'', ''proxy-revalidate'', ''no-transform''}"
    using Cons.prems d by (auto split: if_splits simp: bind_eq_Some_conv simp del: read_directives.simps(1))
  then show ?case using Cons.IH [OF r(1)] d by auto
qed simp

text \<open>
  C31. What may be stored, and for how long. A response gets a lifetime only with status 200,
  without cookies, ranges or trailers, when the route's limits are valid and its Cache-Control
  has none of the forbidden or unknown directives and no directive twice; the remaining lifetime
  is positive and, together with the age the response already has, stays within the route's
  maximum and so within one day.
\<close>

theorem response_ttl_bounds:
  assumes "response_ttl L parse_date now headers status route = Some (remaining_ms, age)"
  shows "status = 200 \<and> \<not> contains_key headers ''set-cookie'' \<and> \<not> contains_key headers ''content-range'' \<and>
    0 < remaining_ms \<and> remaining_ms + age * 1000 \<le> max_ttl_seconds route * 1000 \<and> max_ttl_seconds route \<le> 86400 \<and>
    (\<exists>ds. cache_directives L headers = Some ds \<and> distinct (map fst ds) \<and>
       set (map fst ds) \<subseteq> {''max-age'', ''s-maxage'', ''public'', ''must-revalidate'', ''proxy-revalidate'', ''no-transform''})"
proof -
  obtain ds ages date seconds where r: "cache_directives L headers = Some ds" "read_directives [] None None ds = Some ages"
    "lifetime L parse_date now headers date ages route = Some seconds" "age < seconds" "remaining_ms = (seconds - age) * 1000"
    "status = 200" "\<not> contains_key headers ''set-cookie''" "\<not> contains_key headers ''content-range''" "\<not> isl (cache_validate route)"
    using assms by (auto simp: response_ttl_def Let_def bind_eq_Some_conv split: if_splits)
  have "max_ttl_seconds route \<le> 86400" using r(9) by (auto simp: cache_validate_def ensure_def split: if_splits)
  moreover have "seconds \<le> max_ttl_seconds route" by (rule lifetime_bound [OF r(3)])
  ultimately show ?thesis using r read_directives_allowed [OF r(2)] by auto
qed

theorem response_ttl_bounds_witness:
  "response_ttl plain_http (\<lambda>_. None) 0 \<lparr>hm_keys = [''cache-control''], hm_values = (\<lambda>n. if n = ''cache-control'' then [''public, max-age=60''] else [])\<rparr>
     200 default_route_cache = Some (60000, 0) \<and> 60000 + 0 * 1000 \<le> max_ttl_seconds default_route_cache * 1000"
proof -
  have r: "response_ttl plain_http (\<lambda>_. None) 0 \<lparr>hm_keys = [''cache-control''], hm_values = (\<lambda>n. if n = ''cache-control'' then [''public, max-age=60''] else [])\<rparr>
     200 default_route_cache = Some (60000, 0)" by code_simp
  show ?thesis using response_ttl_bounds [OF r] r by simp
qed

end
