(* ===== verification/TcpHealth.thy ===== *)
theory TcpHealth
  imports Balance
begin

text \<open>
  Active health of TCP backends (\<^verbatim>\<open>src/src/tcp_health.rs\<close>). A writer holds the lock of the streaks
  while it stores the published flags and the epoch one after the other; a reader loads epoch,
  flags and epoch without the lock. An operation is therefore the list of its stores: executed at
  once it is the sequential operation, and \<open>tcp_step\<close> interleaves the stores of writers with
  the loads of a reader.
\<close>

definition AVAILABLE :: "8 word" where "AVAILABLE = 1"
definition PROBE_OBSERVED :: "8 word" where "PROBE_OBSERVED = 2"
definition INITIAL_CHECK_PENDING :: "8 word" where "INITIAL_CHECK_PENDING = 4"

record TcpHealthPolicy =
  tcp_interval_ms :: nat
  tcp_timeout_ms :: nat
  tcp_healthy_successes :: nat
  tcp_unhealthy_failures :: nat
  tcp_initial_state :: InitialHealthState

definition validate_tcp_health :: "TcpHealthPolicy \<Rightarrow> string + unit" where
  "validate_tcp_health p = first_error
     [ensure (100 \<le> tcp_interval_ms p \<and> tcp_interval_ms p \<le> 300000
              \<and> 100 \<le> tcp_timeout_ms p \<and> tcp_timeout_ms p \<le> 60000
              \<and> tcp_timeout_ms p \<le> tcp_interval_ms p)
        ''TCP health interval/timeout is invalid'',
      ensure (1 \<le> tcp_healthy_successes p \<and> tcp_healthy_successes p \<le> 100
              \<and> 1 \<le> tcp_unhealthy_failures p \<and> tcp_unhealthy_failures p \<le> 100)
        ''TCP health thresholds must be 1..100'']"

record TcpBackendState =
  be_available :: bool
  be_probe_observed :: bool
  be_initial_check_pending :: bool

record Streaks =
  streak_epoch :: nat
  streak_successes :: nat
  streak_failures :: nat
  unhealthy :: bool
  check_pending :: bool
  probed :: bool

record TcpNode =
  streaks :: Streaks
  flags :: "8 word"
  node_epoch :: nat

definition tcp_node_new :: "bool \<Rightarrow> TcpNode" where
  "tcp_node_new pending =
     \<lparr>streaks = \<lparr>streak_epoch = 0, streak_successes = 0, streak_failures = 0, unhealthy = False,
                 check_pending = pending, probed = False\<rparr>,
      flags = (if pending then INITIAL_CHECK_PENDING else AVAILABLE), node_epoch = 0\<rparr>"

definition publish :: "Streaks \<Rightarrow> 8 word" where
  "publish s =
     (let flags = 0;
          flags = (if \<not> unhealthy s \<and> \<not> check_pending s then flags OR AVAILABLE else flags);
          flags = (if probed s then flags OR PROBE_OBSERVED else flags)
      in if check_pending s then flags OR INITIAL_CHECK_PENDING else flags)"

section \<open>Operations on a node\<close>

text \<open>
  The stores of an operation in program order. \<open>Publish s\<close> is the write of the locked streaks
  together with \<^verbatim>\<open>publish\<close>: the streaks are not visible outside the lock.
\<close>

datatype node_store = Publish Streaks | StoreEpoch nat

fun apply_store :: "TcpNode \<Rightarrow> node_store \<Rightarrow> TcpNode" where
  "apply_store n (Publish s) = n\<lparr>streaks := s, flags := publish s\<rparr>"
| "apply_store n (StoreEpoch e) = n\<lparr>node_epoch := e\<rparr>"

abbreviation U32_MAX :: nat where
  "U32_MAX \<equiv> 4294967295"

definition tcp_starts_checking :: "TcpHealthPolicy \<Rightarrow> bool" where
  "tcp_starts_checking p \<longleftrightarrow> tcp_initial_state p = Checking"

definition epoch_reset :: "TcpHealthPolicy \<Rightarrow> nat \<Rightarrow> Streaks \<Rightarrow> Streaks" where
  "epoch_reset p epoch s = s\<lparr>streak_epoch := epoch, streak_successes := 0, streak_failures := 0, unhealthy := False,
     check_pending := tcp_starts_checking p, probed := False\<rparr>"

text \<open>\<^verbatim>\<open>ensure_epoch\<close>: the answer, the streaks after it and its stores.\<close>

definition ensure_epoch :: "TcpHealthPolicy \<Rightarrow> Streaks \<Rightarrow> nat \<Rightarrow> bool \<times> Streaks \<times> node_store list" where
  "ensure_epoch p s epoch =
     (if epoch < streak_epoch s then (False, s, [])
      else if epoch > streak_epoch s then
        (let s' = epoch_reset p epoch s in (True, s', [Publish s', StoreEpoch epoch]))
      else (True, s, []))"

definition success_update :: "TcpHealthPolicy \<Rightarrow> Streaks \<Rightarrow> Streaks" where
  "success_update p s =
     (let s = s\<lparr>probed := True, streak_failures := 0,
                streak_successes := min (min U32_MAX (streak_successes s + 1)) (tcp_healthy_successes p)\<rparr>
      in if streak_successes s \<ge> tcp_healthy_successes p
         then s\<lparr>unhealthy := False, check_pending := False\<rparr> else s)"

definition record_failure_locked :: "TcpHealthPolicy \<Rightarrow> Streaks \<Rightarrow> Streaks" where
  "record_failure_locked p s =
     (let s = s\<lparr>probed := True, streak_successes := 0,
                streak_failures := min (min U32_MAX (streak_failures s + 1)) (tcp_unhealthy_failures p)\<rparr>
      in if streak_failures s \<ge> tcp_unhealthy_failures p then s\<lparr>unhealthy := True\<rparr> else s)"

datatype tcp_op = ObserveEpoch nat | RecordSuccess nat | RecordFailure nat | RecordFailureCurrent

fun op_stores :: "TcpHealthPolicy \<Rightarrow> TcpNode \<Rightarrow> tcp_op \<Rightarrow> node_store list" where
  "op_stores p n (ObserveEpoch epoch) =
     (if node_epoch n = epoch \<or> node_epoch n > epoch then []
      else (case ensure_epoch p (streaks n) epoch of (_, _, stores) \<Rightarrow> stores))"
| "op_stores p n (RecordSuccess epoch) =
     (case ensure_epoch p (streaks n) epoch of
        (False, _, _) \<Rightarrow> []
      | (True, s, stores) \<Rightarrow> stores @ [Publish (success_update p s)])"
| "op_stores p n (RecordFailure epoch) =
     (case ensure_epoch p (streaks n) epoch of
        (False, _, _) \<Rightarrow> []
      | (True, s, stores) \<Rightarrow> stores @ [Publish (record_failure_locked p s)])"
| "op_stores p n RecordFailureCurrent = [Publish (record_failure_locked p (streaks n))]"

definition node_op :: "TcpHealthPolicy \<Rightarrow> tcp_op \<Rightarrow> TcpNode \<Rightarrow> TcpNode" where
  "node_op p c n = foldl apply_store n (op_stores p n c)"

definition node_available_for :: "TcpNode \<Rightarrow> nat \<Rightarrow> bool" where
  "node_available_for n epoch \<longleftrightarrow> node_epoch n = epoch \<and> flags n AND AVAILABLE \<noteq> 0 \<and> node_epoch n = epoch"

section \<open>The state of a pool\<close>

text \<open>A \<^verbatim>\<open>TcpHealth\<close> holds addresses of nodes; a reload shares them with the previous generation.\<close>

record TcpHealth =
  tcp_policy :: TcpHealthPolicy
  tcp_nodes :: "nat list"

definition tcp_health_new :: "TcpHealthPolicy \<Rightarrow> nat \<Rightarrow> TcpNode list \<Rightarrow> TcpHealth \<times> TcpNode list" where
  "tcp_health_new p n heap =
     (\<lparr>tcp_policy = p, tcp_nodes = [length heap..<length heap + n]\<rparr>,
      heap @ replicate n (tcp_node_new (tcp_starts_checking p)))"

definition tcp_node_at :: "TcpHealth \<Rightarrow> nat \<Rightarrow> nat option" where
  "tcp_node_at h index = (if index < length (tcp_nodes h) then Some (tcp_nodes h ! index) else None)"

definition tcp_with_reused_nodes ::
  "TcpHealthPolicy \<Rightarrow> TcpHealth \<Rightarrow> nat option list \<Rightarrow> TcpNode list \<Rightarrow> TcpHealth \<times> TcpNode list" where
  "tcp_with_reused_nodes p previous mapping heap =
     (let compatible = (p = tcp_policy previous);
          (next, heap) = tcp_health_new p (length mapping) heap
      in (if compatible
          then next\<lparr>tcp_nodes := map2 (\<lambda>node old_index.
                 case Option.bind old_index (tcp_node_at previous) of Some old \<Rightarrow> old | None \<Rightarrow> node)
               (tcp_nodes next) mapping\<rparr>
          else next, heap))"

definition tcp_health_op :: "TcpHealth \<Rightarrow> nat \<Rightarrow> tcp_op \<Rightarrow> TcpNode list \<Rightarrow> TcpNode list" where
  "tcp_health_op h index c heap = (case tcp_node_at h index of
     None \<Rightarrow> heap
   | Some a \<Rightarrow> heap[a := node_op (tcp_policy h) c (heap ! a)])"

text \<open>\<^verbatim>\<open>observe_epoch\<close> also answers whether the epoch is the current one.\<close>

definition observe_tcp_epoch :: "TcpHealth \<Rightarrow> nat \<Rightarrow> nat \<Rightarrow> TcpNode list \<Rightarrow> bool \<times> TcpNode list" where
  "observe_tcp_epoch h index epoch heap = (case tcp_node_at h index of
     None \<Rightarrow> (False, heap)
   | Some a \<Rightarrow>
       (let n = heap ! a
        in (if node_epoch n = epoch then True
            else if node_epoch n > epoch then False
            else fst (ensure_epoch (tcp_policy h) (streaks n) epoch),
            tcp_health_op h index (ObserveEpoch epoch) heap)))"

definition tcp_available_for :: "TcpHealth \<Rightarrow> TcpNode list \<Rightarrow> nat \<Rightarrow> nat \<Rightarrow> bool" where
  "tcp_available_for h heap index epoch = (case tcp_node_at h index of
     None \<Rightarrow> False
   | Some a \<Rightarrow> node_available_for (heap ! a) epoch)"

definition tcp_backend_state :: "TcpHealth \<Rightarrow> TcpNode list \<Rightarrow> nat \<Rightarrow> TcpBackendState option" where
  "tcp_backend_state h heap index = map_option (\<lambda>a.
     \<lparr>be_available = flags (heap ! a) AND AVAILABLE \<noteq> 0,
      be_probe_observed = flags (heap ! a) AND PROBE_OBSERVED \<noteq> 0,
      be_initial_check_pending = flags (heap ! a) AND INITIAL_CHECK_PENDING \<noteq> 0\<rparr>) (tcp_node_at h index)"

definition tcp_available :: "TcpHealth \<Rightarrow> TcpNode list \<Rightarrow> nat \<Rightarrow> bool" where
  "tcp_available h heap index = tcp_available_for h heap index 0"

definition record_tcp_success :: "TcpHealth \<Rightarrow> nat \<Rightarrow> TcpNode list \<Rightarrow> TcpNode list" where
  "record_tcp_success h index heap = tcp_health_op h index (RecordSuccess 0) heap"

definition record_tcp_failure :: "TcpHealth \<Rightarrow> nat \<Rightarrow> TcpNode list \<Rightarrow> TcpNode list" where
  "record_tcp_failure h index heap = tcp_health_op h index (RecordFailure 0) heap"

section \<open>The published flags\<close>

lemma publish_available [simp]: "publish s AND AVAILABLE \<noteq> 0 \<longleftrightarrow> \<not> unhealthy s \<and> \<not> check_pending s"
  by (simp add: publish_def AVAILABLE_def PROBE_OBSERVED_def INITIAL_CHECK_PENDING_def)

lemma publish_observed [simp]: "publish s AND PROBE_OBSERVED \<noteq> 0 \<longleftrightarrow> probed s"
  by (simp add: publish_def AVAILABLE_def PROBE_OBSERVED_def INITIAL_CHECK_PENDING_def)

lemma publish_pending [simp]: "publish s AND INITIAL_CHECK_PENDING \<noteq> 0 \<longleftrightarrow> check_pending s"
  by (simp add: publish_def AVAILABLE_def PROBE_OBSERVED_def INITIAL_CHECK_PENDING_def)


section \<open>Thresholds\<close>

text \<open>
  The reference: a node is judged by the runs of equal results in the history of its current
  epoch (\<^term>\<open>True\<close> is a success).
\<close>

definition trailing :: "bool \<Rightarrow> bool list \<Rightarrow> nat" where
  "trailing r rs = length (takeWhile (\<lambda>x. x = r) (rev rs))"

fun ever_passed :: "TcpHealthPolicy \<Rightarrow> bool list \<Rightarrow> bool" where
  "ever_passed p rs \<longleftrightarrow> (\<exists>k\<le>length rs. tcp_healthy_successes p \<le> trailing True (take k rs))"

text \<open>Some run of failures reached its threshold and no run of successes did since.\<close>

fun marked_down :: "TcpHealthPolicy \<Rightarrow> bool list \<Rightarrow> bool" where
  "marked_down p rs \<longleftrightarrow> (\<exists>k\<le>length rs. tcp_unhealthy_failures p \<le> trailing False (take k rs)
     \<and> (\<forall>j\<le>length rs. k < j \<longrightarrow> trailing True (take j rs) < tcp_healthy_successes p))"

definition probe_op :: "nat \<Rightarrow> bool \<Rightarrow> tcp_op" where
  "probe_op epoch r = (if r then RecordSuccess epoch else RecordFailure epoch)"

definition run_probes :: "TcpHealthPolicy \<Rightarrow> nat \<Rightarrow> bool list \<Rightarrow> TcpNode \<Rightarrow> TcpNode" where
  "run_probes p epoch rs n = foldl (\<lambda>n r. node_op p (probe_op epoch r) n) n rs"

definition probe_streaks :: "TcpHealthPolicy \<Rightarrow> bool \<Rightarrow> Streaks \<Rightarrow> Streaks" where
  "probe_streaks p r s = (if r then success_update p s else record_failure_locked p s)"

lemma trailing_simps [simp]:
  "trailing r [] = 0" "trailing r (rs @ [x]) = (if x = r then Suc (trailing r rs) else 0)"
  by (simp_all add: trailing_def)

lemma update_epoch [simp]:
  "streak_epoch (success_update p s) = streak_epoch s" "streak_epoch (record_failure_locked p s) = streak_epoch s"
  by (simp_all add: success_update_def record_failure_locked_def Let_def)

lemma take_snoc_upto: "k \<le> length rs \<Longrightarrow> take k (rs @ [x]) = take k rs"
  by simp

lemma snoc_range: "(\<exists>k\<le>length (rs @ [x]). P k) \<longleftrightarrow> (\<exists>k\<le>length rs. P k) \<or> P (length (rs @ [x]))"
  by (auto simp: le_Suc_eq)

lemma ever_passed_snoc:
  "ever_passed p (rs @ [x]) \<longleftrightarrow> ever_passed p rs \<or> tcp_healthy_successes p \<le> trailing True (rs @ [x])"
  unfolding ever_passed.simps snoc_range by (simp cong: conj_cong)

lemma marked_down_snoc:
  assumes "0 < tcp_unhealthy_failures p" "0 < tcp_healthy_successes p"
  shows "marked_down p (rs @ [x]) \<longleftrightarrow>
     (if x then marked_down p rs \<and> trailing True (rs @ [x]) < tcp_healthy_successes p
      else marked_down p rs \<or> tcp_unhealthy_failures p \<le> trailing False (rs @ [x]))"
proof -
  have split: "(\<forall>j\<le>length (rs @ [x]). k < j \<longrightarrow> trailing True (take j (rs @ [x])) < H) \<longleftrightarrow>
      (\<forall>j\<le>length rs. k < j \<longrightarrow> trailing True (take j rs) < H) \<and>
      (k < length (rs @ [x]) \<longrightarrow> trailing True (rs @ [x]) < H)" for k H
    by (auto simp: le_Suc_eq)
  show ?thesis
    unfolding marked_down.simps snoc_range split using assms
    by (cases x) (auto simp: less_Suc_eq_le cong: conj_cong)
qed

lemma probe_op_streaks:
  assumes "streak_epoch (streaks n) = epoch"
  shows "streaks (node_op p (probe_op epoch r) n) = probe_streaks p r (streaks n)"
    and "flags (node_op p (probe_op epoch r) n) = publish (probe_streaks p r (streaks n))"
    and "node_epoch (node_op p (probe_op epoch r) n) = node_epoch n"
  using assms by (simp_all add: probe_op_def node_op_def ensure_epoch_def probe_streaks_def)

lemma probe_streaks_fields:
  assumes "0 < tcp_healthy_successes p" "0 < tcp_unhealthy_failures p"
    and "tcp_healthy_successes p \<le> U32_MAX" "tcp_unhealthy_failures p \<le> U32_MAX"
  shows "streak_successes (probe_streaks p r s) = (if r then min (tcp_healthy_successes p) (Suc (streak_successes s)) else 0)"
    and "streak_failures (probe_streaks p r s) = (if r then 0 else min (tcp_unhealthy_failures p) (Suc (streak_failures s)))"
    and "check_pending (probe_streaks p r s) \<longleftrightarrow>
      check_pending s \<and> \<not> (r \<and> tcp_healthy_successes p \<le> Suc (streak_successes s))"
    and "unhealthy (probe_streaks p r s) \<longleftrightarrow>
      (if r then unhealthy s \<and> Suc (streak_successes s) < tcp_healthy_successes p
       else unhealthy s \<or> tcp_unhealthy_failures p \<le> Suc (streak_failures s))"
  using assms by (auto simp: probe_streaks_def success_update_def record_failure_locked_def Let_def)

lemma run_probes_streaks:
  assumes "streak_epoch (streaks n) = epoch" "0 < tcp_healthy_successes p" "0 < tcp_unhealthy_failures p"
    "tcp_healthy_successes p \<le> U32_MAX" "tcp_unhealthy_failures p \<le> U32_MAX"
    and "streak_successes (streaks n) = 0" "streak_failures (streaks n) = 0" "\<not> unhealthy (streaks n)"
    and s: "s = streaks (run_probes p epoch rs n)"
  shows "streak_epoch s = epoch" "node_epoch (run_probes p epoch rs n) = node_epoch n"
    "streak_successes s = min (tcp_healthy_successes p) (trailing True rs)"
    "streak_failures s = min (tcp_unhealthy_failures p) (trailing False rs)"
    "check_pending s \<longleftrightarrow> check_pending (streaks n) \<and> \<not> ever_passed p rs"
    "unhealthy s \<longleftrightarrow> marked_down p rs"
  unfolding s
proof (induction rs rule: rev_induct)
  case (snoc r rs)
  have run: "run_probes p epoch (rs @ [r]) n = node_op p (probe_op epoch r) (run_probes p epoch rs n)"
    by (simp add: run_probes_def)
  note step = probe_op_streaks [of "run_probes p epoch rs n" epoch p r, OF snoc(1)]
  note fields = probe_streaks_fields [OF assms(2-5), of r "streaks (run_probes p epoch rs n)"]
  show "streak_epoch (streaks (run_probes p epoch (rs @ [r]) n)) = epoch"
    unfolding run step using snoc by (simp add: probe_streaks_def)
  show "node_epoch (run_probes p epoch (rs @ [r]) n) = node_epoch n"
    unfolding run step using snoc by simp
  show "streak_successes (streaks (run_probes p epoch (rs @ [r]) n))
      = min (tcp_healthy_successes p) (trailing True (rs @ [r]))"
    unfolding run step fields snoc by auto
  show "streak_failures (streaks (run_probes p epoch (rs @ [r]) n))
      = min (tcp_unhealthy_failures p) (trailing False (rs @ [r]))"
    unfolding run step fields snoc by auto
  show "check_pending (streaks (run_probes p epoch (rs @ [r]) n))
      \<longleftrightarrow> check_pending (streaks n) \<and> \<not> ever_passed p (rs @ [r])"
    unfolding run step fields snoc ever_passed_snoc using assms(2) by auto
  show "unhealthy (streaks (run_probes p epoch (rs @ [r]) n)) \<longleftrightarrow> marked_down p (rs @ [r])"
    unfolding run step fields snoc marked_down_snoc [OF assms(3,2)] by auto
qed (use assms in \<open>simp_all add: run_probes_def trailing_def\<close>)

section \<open>Nodes between operations\<close>

definition node_ok :: "TcpNode \<Rightarrow> bool" where
  "node_ok n \<longleftrightarrow> flags n = publish (streaks n) \<and> node_epoch n = streak_epoch (streaks n)"

lemma node_ok_new [simp]: "node_ok (tcp_node_new pending)"
  by (simp add: node_ok_def tcp_node_new_def publish_def)

lemma ensure_epoch_cases:
  obtains (stale) "epoch < streak_epoch s" "ensure_epoch p s epoch = (False, s, [])"
  | (same) "epoch = streak_epoch s" "ensure_epoch p s epoch = (True, s, [])"
  | (newer) "streak_epoch s < epoch"
      "ensure_epoch p s epoch = (True, epoch_reset p epoch s, [Publish (epoch_reset p epoch s), StoreEpoch epoch])"
  by (cases epoch "streak_epoch s" rule: linorder_cases) (auto simp: ensure_epoch_def Let_def)

lemma epoch_reset_epoch [simp]: "streak_epoch (epoch_reset p epoch s) = epoch"
  by (simp add: epoch_reset_def)

lemma node_op_ok [inv_intros]: "node_ok n \<Longrightarrow> node_ok (node_op p c n)"
proof (cases c)
  case RecordFailureCurrent
  then show "node_ok n \<Longrightarrow> ?thesis" by (simp add: node_ok_def node_op_def)
next
  case (ObserveEpoch epoch)
  then show "node_ok n \<Longrightarrow> ?thesis"
    by (cases rule: ensure_epoch_cases [of epoch "streaks n" p]) (simp_all add: node_ok_def node_op_def)
next
  case (RecordSuccess epoch)
  then show "node_ok n \<Longrightarrow> ?thesis"
    by (cases rule: ensure_epoch_cases [of epoch "streaks n" p]) (simp_all add: node_ok_def node_op_def)
next
  case (RecordFailure epoch)
  then show "node_ok n \<Longrightarrow> ?thesis"
    by (cases rule: ensure_epoch_cases [of epoch "streaks n" p]) (simp_all add: node_ok_def node_op_def)
qed

lemma run_probes_ok [inv_intros]: "node_ok n \<Longrightarrow> node_ok (run_probes p epoch rs n)"
  by (induction rs arbitrary: n) (simp_all add: run_probes_def node_op_ok)

lemma node_available_ok: "node_ok n \<Longrightarrow>
  node_available_for n epoch \<longleftrightarrow> streak_epoch (streaks n) = epoch \<and> \<not> unhealthy (streaks n) \<and> \<not> check_pending (streaks n)"
  by (auto simp: node_ok_def node_available_for_def)

lemma validate_tcp_health_bounds:
  assumes "validate_tcp_health p = Inr ()"
  shows "0 < tcp_healthy_successes p" "0 < tcp_unhealthy_failures p"
    "tcp_healthy_successes p \<le> U32_MAX" "tcp_unhealthy_failures p \<le> U32_MAX"
  using assms by (simp_all add: validate_tcp_health_def)

text \<open>
  C32. Under a valid policy, a node that moved to a new endpoint epoch is admitted for that epoch
  exactly when the probe results of the epoch say so: no run of failures that reached the
  threshold is still in force, and a node that starts in the checking state has seen a full run
  of successes.
\<close>

theorem tcp_health_thresholds:
  assumes "validate_tcp_health p = Inr ()" "node_ok n" "streak_epoch (streaks n) < epoch"
  shows "node_available_for (run_probes p epoch rs (node_op p (ObserveEpoch epoch) n)) epoch \<longleftrightarrow>
    \<not> marked_down p rs \<and> (tcp_initial_state p = Checking \<longrightarrow> ever_passed p rs)"
proof -
  let ?m = "node_op p (ObserveEpoch epoch) n"
  have m: "streaks ?m = epoch_reset p epoch (streaks n)"
    using assms by (cases rule: ensure_epoch_cases [of epoch "streaks n" p]) (simp_all add: node_op_def node_ok_def)
  have run: "node_ok (run_probes p epoch rs ?m)" using assms(2) by (simp add: node_op_ok run_probes_ok)
  note fields = run_probes_streaks [of ?m epoch p, OF _ validate_tcp_health_bounds [OF assms(1)] _ _ _ refl]
  show ?thesis
    unfolding node_available_ok [OF run] using fields m
    by (simp add: epoch_reset_def tcp_starts_checking_def del: marked_down.simps ever_passed.simps)
qed

definition demo_tcp_policy :: TcpHealthPolicy where
  "demo_tcp_policy = \<lparr>tcp_interval_ms = 1000, tcp_timeout_ms = 500, tcp_healthy_successes = 2,
     tcp_unhealthy_failures = 2, tcp_initial_state = Checking\<rparr>"

theorem tcp_health_thresholds_witness:
  "node_available_for (run_probes demo_tcp_policy 3 [True, True, False]
     (node_op demo_tcp_policy (ObserveEpoch 3) (tcp_node_new True))) 3"
proof -
  have "validate_tcp_health demo_tcp_policy = Inr ()" "streak_epoch (streaks (tcp_node_new True)) < 3"
    by (simp_all add: validate_tcp_health_def demo_tcp_policy_def tcp_node_new_def)
  note thresholds = tcp_health_thresholds [OF this(1) node_ok_new this(2), of "[True, True, False]"]
  have "ever_passed demo_tcp_policy [True, True, False]"
    by (simp add: demo_tcp_policy_def trailing_def) (rule exI [of _ 2], simp)
  moreover have "\<not> marked_down demo_tcp_policy ([True, True] @ [False])"
    by (subst marked_down_snoc) (auto simp: demo_tcp_policy_def trailing_def le_Suc_eq)
  ultimately show ?thesis unfolding thresholds by simp
qed

section \<open>Readers without the lock\<close>

text \<open>
  One call of \<^verbatim>\<open>available_for\<close>: it has loaded nothing, has seen its epoch, has seen the flag, or is
  done. The streaks that were published when it loaded the flags are remembered.
\<close>

datatype reader = Start | SawEpoch | SawFlag Streaks | Admitted Streaks | Refused

record tcp_world =
  shared :: TcpNode
  writer :: "node_store list" \<comment> \<open>what the holder of the lock has still to store\<close>
  reading :: reader

inductive tcp_step :: "TcpHealthPolicy \<Rightarrow> nat \<Rightarrow> tcp_world \<Rightarrow> tcp_world \<Rightarrow> bool" for p e where
  lock: "writer w = [] \<Longrightarrow> tcp_step p e w (w\<lparr>writer := op_stores p (shared w) c\<rparr>)"
| store: "writer w = st # rest \<Longrightarrow> tcp_step p e w (w\<lparr>shared := apply_store (shared w) st, writer := rest\<rparr>)"
| load_epoch: "reading w = Start \<Longrightarrow>
    tcp_step p e w (w\<lparr>reading := if node_epoch (shared w) = e then SawEpoch else Refused\<rparr>)"
| load_flags: "reading w = SawEpoch \<Longrightarrow>
    tcp_step p e w (w\<lparr>reading := if flags (shared w) AND AVAILABLE \<noteq> 0 then SawFlag (streaks (shared w)) else Refused\<rparr>)"
| load_epoch_again: "reading w = SawFlag s \<Longrightarrow>
    tcp_step p e w (w\<lparr>reading := if node_epoch (shared w) = e then Admitted s else Refused\<rparr>)"

text \<open>The published epoch trails the streaks, and only while a reset is being stored.\<close>

fun last_publish_ok :: "nat \<Rightarrow> node_store list \<Rightarrow> bool" where
  "last_publish_ok g [] = True"
| "last_publish_ok g [Publish s] = (streak_epoch s = g)"
| "last_publish_ok g sts = False"

fun stores_ok :: "TcpHealthPolicy \<Rightarrow> TcpNode \<Rightarrow> node_store list \<Rightarrow> bool" where
  "stores_ok p n (StoreEpoch g # rest) \<longleftrightarrow>
     node_epoch n < g \<and> streak_epoch (streaks n) = g \<and> check_pending (streaks n) = tcp_starts_checking p \<and> last_publish_ok g rest"
| "stores_ok p n (Publish s # StoreEpoch g # rest) \<longleftrightarrow>
     node_epoch n = streak_epoch (streaks n) \<and> node_epoch n < g \<and> streak_epoch s = g
     \<and> check_pending s = tcp_starts_checking p \<and> last_publish_ok g rest"
| "stores_ok p n sts \<longleftrightarrow> node_epoch n = streak_epoch (streaks n) \<and> last_publish_ok (node_epoch n) sts"

lemma last_publish_cases:
  assumes "last_publish_ok g sts"
  obtains "sts = []" | s where "sts = [Publish s]" "streak_epoch s = g"
  using assms by (cases "(g, sts)" rule: last_publish_ok.cases) auto

lemma stores_ok_last [simp]:
  "node_epoch n = streak_epoch (streaks n) \<Longrightarrow> last_publish_ok (node_epoch n) sts \<Longrightarrow> stores_ok p n sts"
  by (erule last_publish_cases) simp_all

lemma stores_ok_lock: "stores_ok p n [] \<Longrightarrow> stores_ok p n (op_stores p n c)"
proof (cases c)
  case (ObserveEpoch epoch)
  then show "stores_ok p n [] \<Longrightarrow> ?thesis"
    by (cases rule: ensure_epoch_cases [of epoch "streaks n" p]) (simp_all add: epoch_reset_def)
next
  case (RecordSuccess epoch)
  then show "stores_ok p n [] \<Longrightarrow> ?thesis"
    by (cases rule: ensure_epoch_cases [of epoch "streaks n" p]) (simp_all add: epoch_reset_def)
next
  case (RecordFailure epoch)
  then show "stores_ok p n [] \<Longrightarrow> ?thesis"
    by (cases rule: ensure_epoch_cases [of epoch "streaks n" p]) (simp_all add: epoch_reset_def)
qed simp

lemma stores_ok_store:
  assumes "stores_ok p n (st # rest)"
  shows "stores_ok p (apply_store n st) rest" "node_epoch n \<le> node_epoch (apply_store n st)"
    "streak_epoch (streaks n) \<le> streak_epoch (streaks (apply_store n st))"
  using assms by (induction p n "st # rest" rule: stores_ok.induct) (auto elim: last_publish_cases)

text \<open>What the reader has seen of generation \<open>e\<close>, given the state of the node.\<close>

fun reader_ok :: "TcpHealthPolicy \<Rightarrow> nat \<Rightarrow> TcpNode \<Rightarrow> reader \<Rightarrow> bool" where
  "reader_ok p e n SawEpoch \<longleftrightarrow> e \<le> node_epoch n"
| "reader_ok p e n (SawFlag s) \<longleftrightarrow> e \<le> node_epoch n \<and> e \<le> streak_epoch s \<and> \<not> unhealthy s \<and> \<not> check_pending s
     \<and> (e < streak_epoch s \<and> tcp_starts_checking p \<longrightarrow> e < node_epoch n)"
| "reader_ok p e n (Admitted s) \<longleftrightarrow> e \<le> streak_epoch s \<and> \<not> unhealthy s \<and> \<not> check_pending s
     \<and> (tcp_starts_checking p \<longrightarrow> streak_epoch s = e)"
| "reader_ok p e n _ = True"

lemma reader_ok_mono: "reader_ok p e n r \<Longrightarrow> node_epoch n \<le> node_epoch m \<Longrightarrow> reader_ok p e m r"
  by (cases r) auto

definition world_ok :: "TcpHealthPolicy \<Rightarrow> nat \<Rightarrow> tcp_world \<Rightarrow> bool" where
  "world_ok p e w \<longleftrightarrow> flags (shared w) = publish (streaks (shared w))
     \<and> stores_ok p (shared w) (writer w) \<and> reader_ok p e (shared w) (reading w)"

lemma stores_ok_epochs:
  assumes "stores_ok p n sts"
  shows "node_epoch n \<le> streak_epoch (streaks n)"
    and "node_epoch n < streak_epoch (streaks n) \<Longrightarrow> check_pending (streaks n) = tcp_starts_checking p"
  using assms by (induction p n sts rule: stores_ok.induct) auto

lemma apply_store_flags: "flags n = publish (streaks n) \<Longrightarrow> flags (apply_store n st) = publish (streaks (apply_store n st))"
  by (cases st) simp_all

lemma tcp_step_ok: "tcp_step p e w w' \<Longrightarrow> world_ok p e w \<Longrightarrow> world_ok p e w'"
proof (induction rule: tcp_step.induct)
  case (lock w c)
  then show ?case using stores_ok_lock [of p "shared w" c] by (simp add: world_ok_def)
next
  case (store w st rest)
  then show ?case using stores_ok_store [of p "shared w" st rest] reader_ok_mono apply_store_flags
    by (auto simp: world_ok_def)
next
  case (load_flags w)
  then have "stores_ok p (shared w) (writer w)" by (simp add: world_ok_def)
  from stores_ok_epochs [OF this] show ?case using load_flags
    by (auto simp: world_ok_def tcp_starts_checking_def not_less le_less)
qed (auto simp: world_ok_def)

inductive tcp_steps :: "TcpHealthPolicy \<Rightarrow> nat \<Rightarrow> tcp_world \<Rightarrow> tcp_world \<Rightarrow> bool" for p e where
  tcp_refl: "tcp_steps p e w w"
| tcp_trans: "tcp_steps p e w w' \<Longrightarrow> tcp_step p e w' w'' \<Longrightarrow> tcp_steps p e w w''"

lemma tcp_steps_ok: "tcp_steps p e w w' \<Longrightarrow> world_ok p e w \<Longrightarrow> world_ok p e w'"
  by (induction rule: tcp_steps.induct) (auto intro: tcp_step_ok)

text \<open>
  C33. Whatever the interleaving of the stores of any sequence of writers with the three loads of
  a reader that asks for generation \<open>e\<close>: when it is admitted, the flag it saw was published for
  \<open>e\<close> or a newer generation that was healthy and past its initial check, never for an older one;
  and where replacements start in the checking state, it was published for \<open>e\<close> itself.
\<close>

theorem tcp_reader_generation:
  assumes "tcp_steps p e \<lparr>shared = n, writer = [], reading = Start\<rparr> w" "node_ok n" "reading w = Admitted s"
  shows "e \<le> streak_epoch s \<and> \<not> unhealthy s \<and> \<not> check_pending s
    \<and> (tcp_initial_state p = Checking \<longrightarrow> streak_epoch s = e)"
proof -
  have "world_ok p e \<lparr>shared = n, writer = [], reading = Start\<rparr>"
    using assms(2) by (simp add: world_ok_def node_ok_def)
  from tcp_steps_ok [OF assms(1) this] show ?thesis
    using assms(3) by (simp add: world_ok_def tcp_starts_checking_def)
qed

definition demo_tcp_node :: TcpNode where
  "demo_tcp_node = run_probes demo_tcp_policy 0 [True, True] (tcp_node_new True)"

definition demo_world :: "reader \<Rightarrow> tcp_world" where
  "demo_world r = \<lparr>shared = demo_tcp_node, writer = [], reading = r\<rparr>"

lemma demo_node_ok: "node_ok demo_tcp_node" "node_available_for demo_tcp_node 0"
  by (simp add: demo_tcp_node_def run_probes_ok)
    (simp add: demo_tcp_node_def run_probes_def node_op_def probe_op_def demo_tcp_policy_def tcp_node_new_def
      ensure_epoch_def success_update_def node_available_for_def)

lemma demo_reader: "tcp_steps demo_tcp_policy 0 (demo_world Start) (demo_world (Admitted (streaks demo_tcp_node)))"
proof -
  let ?step = "tcp_step demo_tcp_policy 0"
  have "?step (demo_world Start) (demo_world SawEpoch)"
    "?step (demo_world SawEpoch) (demo_world (SawFlag (streaks demo_tcp_node)))"
    "?step (demo_world (SawFlag (streaks demo_tcp_node))) (demo_world (Admitted (streaks demo_tcp_node)))"
    using demo_node_ok(2) load_epoch [of "demo_world Start" demo_tcp_policy 0]
      load_flags [of "demo_world SawEpoch" demo_tcp_policy 0]
      load_epoch_again [of "demo_world (SawFlag (streaks demo_tcp_node))" _ demo_tcp_policy 0]
    by (simp_all add: demo_world_def node_available_for_def)
  then show ?thesis by (meson tcp_refl tcp_trans)
qed

theorem tcp_reader_generation_witness:
  "tcp_steps demo_tcp_policy 0 (demo_world Start) (demo_world (Admitted (streaks demo_tcp_node)))
   \<and> streak_epoch (streaks demo_tcp_node) = 0 \<and> \<not> check_pending (streaks demo_tcp_node)"
  using tcp_reader_generation [OF demo_reader [unfolded demo_world_def] demo_node_ok(1), of "streaks demo_tcp_node"] demo_reader
  by (simp add: demo_tcp_policy_def)

end
