(* ===== verification/LanguagePolicy.thy ===== *)
theory LanguagePolicy
  imports Prelude
begin

text \<open>
  Admission by \<^verbatim>\<open>Accept-Language\<close> (\<^verbatim>\<open>src/src/language_policy.rs\<close>): the bounded parser of the header,
  RFC 4647 basic filtering, and compiled route policies. Qualities are in thousandths.
\<close>

definition MAX_HEADER_BYTES :: nat where "MAX_HEADER_BYTES = 4096"
definition MAX_RANGES :: nat where "MAX_RANGES = 32"
definition MAX_RANGE_BYTES :: nat where "MAX_RANGE_BYTES = 128"

datatype LanguageError = HeaderTooLong | TooManyRanges | InvalidSyntax | DuplicateRange | InvalidTag

fun language_error_message :: "LanguageError \<Rightarrow> string" where
  "language_error_message HeaderTooLong = ''Accept-Language exceeds its bounded size''"
| "language_error_message TooManyRanges = ''Accept-Language has too many ranges''"
| "language_error_message InvalidSyntax = ''Accept-Language has invalid syntax''"
| "language_error_message DuplicateRange = ''Accept-Language repeats a language range''"
| "language_error_message InvalidTag = ''configured language tag is invalid''"

record Preference =
  pref_range :: string
  pref_quality :: nat

datatype HeaderState = MissingHeader | PresentHeader "Preference list"

datatype MatchMode = AnyMode | PreferredMode
datatype MissingAction = AllowMissing | DenyMissing
datatype LanguagePolicyError = EmptyPolicy | PolicyTooManyRanges | InvalidRange | PolicyDuplicateRange

fun language_policy_error_message :: "LanguagePolicyError \<Rightarrow> string" where
  "language_policy_error_message EmptyPolicy = ''language policy needs at least one allow or deny range''"
| "language_policy_error_message PolicyTooManyRanges = ''language policy has too many ranges''"
| "language_policy_error_message InvalidRange = ''language policy has an invalid basic range''"
| "language_policy_error_message PolicyDuplicateRange = ''language policy repeats a basic range''"

record LanguagePolicy =
  lp_mode :: MatchMode
  lp_allow :: "string list"
  lp_deny :: "string list"
  lp_on_missing :: MissingAction
  lp_enforce :: bool

record CompiledLanguagePolicy =
  lc_mode :: MatchMode
  lc_on_missing :: MissingAction
  lc_enforce :: bool
  lc_allow :: "string list"
  lc_deny :: "string list"

section \<open>Syntax\<close>

definition is_ows :: "char \<Rightarrow> bool" where
  "is_ows c \<longleftrightarrow> c = CHR '' '' \<or> c = CHR 0x09"

definition trim_ows :: "string \<Rightarrow> string" where
  "trim_ows v = rev (dropWhile is_ows (rev (dropWhile is_ows v)))"

definition valid_first_subtag :: "string \<Rightarrow> bool" where
  "valid_first_subtag t \<longleftrightarrow> t \<noteq> [] \<and> length t \<le> 8 \<and> list_all is_ascii_alphabetic t"

definition valid_subtag :: "string \<Rightarrow> bool" where
  "valid_subtag t \<longleftrightarrow> t \<noteq> [] \<and> length t \<le> 8 \<and> list_all is_ascii_alphanumeric t"

definition valid_basic_range :: "string \<Rightarrow> bool \<Rightarrow> bool" where
  "valid_basic_range v wildcard =
     (if v = ''*'' then wildcard
      else if v = [] \<or> length v > MAX_RANGE_BYTES then False
      else (case split_on (CHR ''-'') v of
              [] \<Rightarrow> False
            | first # subtags \<Rightarrow> valid_first_subtag first \<and> list_all valid_subtag subtags))"

text \<open>The digits of the fraction weigh 100, 10 and 1 thousandths.\<close>

fun fraction_value :: "nat \<Rightarrow> string \<Rightarrow> nat" where
  "fraction_value scale [] = 0"
| "fraction_value scale (d # ds) = (byte d - 48) * scale + fraction_value (scale div 10) ds"

definition parse_weight :: "string \<Rightarrow> LanguageError + nat" where
  "parse_weight v =
     (if length v < 3 \<or> \<not> eq_ignore_ascii_case [v ! 0] ''q'' \<or> v ! 1 \<noteq> CHR ''='' then Inl InvalidSyntax
      else
        (case (case drop 2 v of
                 [whole] \<Rightarrow> Some (whole, [])
               | whole # dot # rest \<Rightarrow> if dot = CHR ''.'' \<and> length rest \<le> 3 then Some (whole, rest) else None
               | [] \<Rightarrow> None) of
           None \<Rightarrow> Inl InvalidSyntax
         | Some (whole, fraction) \<Rightarrow>
             if \<not> list_all is_ascii_digit fraction then Inl InvalidSyntax
             else if whole = CHR ''0'' then Inr (fraction_value 100 fraction)
             else if whole = CHR ''1'' \<and> list_all (\<lambda>d. d = CHR ''0'') fraction then Inr 1000
             else Inl InvalidSyntax))"

section \<open>The header\<close>

text \<open>Joining the field lines; the state is the bytes and whether a line was seen.\<close>

definition append_line :: "string \<times> bool \<Rightarrow> string \<Rightarrow> LanguageError + string \<times> bool" where
  "append_line st v =
     (case st of (bytes, seen) \<Rightarrow>
        let extra = length v + (if seen then 1 else 0)
        in if length bytes + extra > MAX_HEADER_BYTES then Inl HeaderTooLong
           else Inr ((if seen then bytes @ [CHR '','' ] else bytes) @ v, True))"

definition parse_member :: "Preference list \<Rightarrow> string \<Rightarrow> LanguageError + Preference list" where
  "parse_member entries member =
     (if length entries = MAX_RANGES then Inl TooManyRanges
      else
        let member = trim_ows member
        in if member = [] then Inl InvalidSyntax
           else
             let parts = split_on (CHR '';'') member;
                 rng = trim_ows (hd parts)
             in if \<not> valid_basic_range rng True then Inl InvalidSyntax
                else res_bind (case tl parts of weight # _ \<Rightarrow> parse_weight (trim_ows weight) | [] \<Rightarrow> Inr 1000)
                  (\<lambda>quality.
                     if tl (tl parts) \<noteq> [] then Inl InvalidSyntax
                     else
                       let rng = map to_lower rng
                       in if list_ex (\<lambda>e. pref_range e = rng) entries then Inl DuplicateRange
                          else Inr (entries @ [\<lparr>pref_range = rng, pref_quality = quality\<rparr>])))"

definition parse_values :: "string list \<Rightarrow> LanguageError + HeaderState" where
  "parse_values vs =
     (case try_fold append_line ([], False) vs of
        Inl e \<Rightarrow> Inl e
      | Inr (bytes, seen) \<Rightarrow>
          if \<not> seen then Inr MissingHeader
          else if trim_ows bytes = [] then Inr (PresentHeader [])
          else (case try_fold parse_member [] (split_on (CHR '','') bytes) of
                  Inl e \<Rightarrow> Inl e
                | Inr entries \<Rightarrow> Inr (PresentHeader entries)))"

section \<open>Matching\<close>

definition basic_filter_validated :: "string \<Rightarrow> string \<Rightarrow> bool" where
  "basic_filter_validated rng tag \<longleftrightarrow> rng = ''*'' \<or> tag = rng
     \<or> (case strip_prefix rng tag of None \<Rightarrow> False | Some rest \<Rightarrow> prefix ''-'' rest)"

definition basic_filter :: "string \<Rightarrow> string \<Rightarrow> LanguageError + bool" where
  "basic_filter rng tag =
     (if \<not> valid_basic_range rng True then Inl InvalidSyntax
      else if \<not> valid_basic_range tag False then Inl InvalidTag
      else Inr (basic_filter_validated (map to_lower rng) (map to_lower tag)))"

text \<open>The loop of \<^verbatim>\<open>quality_for\<close>: the longest matching range so far, and the wildcard.\<close>

fun quality_step :: "string \<Rightarrow> (nat \<times> nat) option \<times> nat option \<Rightarrow> Preference \<Rightarrow> (nat \<times> nat) option \<times> nat option" where
  "quality_step tag (selected, wildcard) entry =
     (if pref_range entry = ''*'' then (selected, Some (pref_quality entry))
      else if basic_filter_validated (pref_range entry) tag
              \<and> (case selected of None \<Rightarrow> True | Some (len, _) \<Rightarrow> length (pref_range entry) > len)
      then (Some (length (pref_range entry), pref_quality entry), wildcard)
      else (selected, wildcard))"

definition quality_for :: "Preference list \<Rightarrow> string \<Rightarrow> LanguageError + nat" where
  "quality_for entries tag =
     (if \<not> valid_basic_range tag False then Inl InvalidTag
      else
        (case foldl (quality_step (map to_lower tag)) (None, None) entries of
           (Some (_, q), _) \<Rightarrow> Inr q
         | (None, Some q) \<Rightarrow> Inr q
         | (None, None) \<Rightarrow> Inr 0))"

definition any_acceptable :: "Preference list \<Rightarrow> string list \<Rightarrow> LanguageError + bool" where
  "any_acceptable entries tags =
     try_fold (\<lambda>found tag. res_bind (quality_for entries tag) (\<lambda>q. Inr (found \<or> q > 0))) False tags"

definition highest_quality :: "Preference list \<Rightarrow> nat" where
  "highest_quality entries = foldl max 0 (map pref_quality entries)"

definition preferred :: "Preference list \<Rightarrow> string list \<Rightarrow> LanguageError + bool" where
  "preferred entries tags =
     (let highest = highest_quality entries
      in try_fold (\<lambda>found tag. if highest > 0 then res_bind (quality_for entries tag) (\<lambda>q. Inr (found \<or> q = highest))
                               else Inr found) False tags)"

section \<open>Policies\<close>

definition append_policy_range :: "nat \<Rightarrow> string list \<Rightarrow> string \<Rightarrow> LanguagePolicyError + string list" where
  "append_policy_range already target rng =
     (if already + length target = MAX_RANGES then Inl PolicyTooManyRanges
      else if \<not> valid_basic_range rng True then Inl InvalidRange
      else
        let rng = map to_lower rng
        in if rng \<in> set target then Inl PolicyDuplicateRange else Inr (target @ [rng]))"

definition append_policy_ranges :: "string list \<Rightarrow> nat \<Rightarrow> LanguagePolicyError + string list" where
  "append_policy_ranges ranges already = try_fold (append_policy_range already) [] ranges"

definition compile_language :: "LanguagePolicy \<Rightarrow> LanguagePolicyError + CompiledLanguagePolicy" where
  "compile_language p =
     res_bind (append_policy_ranges (lp_allow p) 0) (\<lambda>allow.
     res_bind (append_policy_ranges (lp_deny p) (length allow)) (\<lambda>deny.
       if allow = [] \<and> deny = [] then Inl EmptyPolicy
       else Inr \<lparr>lc_mode = lp_mode p, lc_on_missing = lp_on_missing p, lc_enforce = lp_enforce p,
                 lc_allow = allow, lc_deny = deny\<rparr>))"

definition language_selected :: "MatchMode \<Rightarrow> nat \<Rightarrow> Preference \<Rightarrow> bool" where
  "language_selected mode highest e \<longleftrightarrow> pref_quality e > 0 \<and> (mode = AnyMode \<or> pref_quality e = highest)"

definition rule_matches :: "MatchMode \<Rightarrow> Preference list \<Rightarrow> string \<Rightarrow> bool" where
  "rule_matches mode entries rule \<longleftrightarrow>
     list_ex (\<lambda>e. (pref_range e \<noteq> ''*'' \<or> rule = ''*'') \<and> basic_filter_validated rule (pref_range e))
       (filter (language_selected mode (highest_quality entries)) entries)"

definition language_allows :: "CompiledLanguagePolicy \<Rightarrow> HeaderState \<Rightarrow> bool" where
  "language_allows c header =
     (if \<not> lc_enforce c then True
      else (case header of
              MissingHeader \<Rightarrow> lc_on_missing c = AllowMissing
            | PresentHeader entries \<Rightarrow>
                if highest_quality entries = 0 then False
                else \<not> list_ex (rule_matches (lc_mode c) entries) (lc_deny c)
                     \<and> (lc_allow c = [] \<or> list_ex (rule_matches (lc_mode c) entries) (lc_allow c))))"

section \<open>Well-formed preferences\<close>

text \<open>
  The promise of \<^verbatim>\<open>Preferences\<close>: at most 32 distinct valid ranges in lower case, each with a
  quality of at most one.
\<close>

definition valid_preference :: "Preference \<Rightarrow> bool" where
  "valid_preference e \<longleftrightarrow> valid_basic_range (pref_range e) True \<and> map to_lower (pref_range e) = pref_range e
     \<and> pref_quality e \<le> 1000"

definition valid_preferences :: "Preference list \<Rightarrow> bool" where
  "valid_preferences es \<longleftrightarrow> length es \<le> MAX_RANGES \<and> distinct (map pref_range es) \<and> list_all valid_preference es"

lemma dash_lower: "to_lower x = CHR ''-'' \<longleftrightarrow> x = CHR ''-''"
  by (simp add: caseless_lower)

lemma star_lower: "map to_lower v = ''*'' \<longleftrightarrow> v = ''*''"
  by (auto simp: map_eq_Cons_conv caseless_lower)

lemma alphabetic_lower [simp]:
  "is_ascii_alphabetic (to_lower c) = is_ascii_alphabetic c" "is_ascii_alphanumeric (to_lower c) = is_ascii_alphanumeric c"
  by (auto simp: is_ascii_alphabetic_def is_ascii_alphanumeric_def is_ascii_upper_def is_ascii_lower_def
      is_ascii_digit_def byte_to_lower)

lemma subtag_lower [simp]:
  "valid_first_subtag (map to_lower t) = valid_first_subtag t" "valid_subtag (map to_lower t) = valid_subtag t"
  by (simp_all add: valid_first_subtag_def valid_subtag_def list_all_iff)

lemma valid_basic_range_lower [simp]: "valid_basic_range (map to_lower v) w = valid_basic_range v w"
  by (simp add: valid_basic_range_def star_lower split_on_map dash_lower list_all_iff split: list.split)

lemma fraction_value_bound:
  "length ds \<le> 3 \<Longrightarrow> list_all is_ascii_digit ds \<Longrightarrow> fraction_value 100 ds \<le> 999"
  by (cases ds; cases "tl ds"; cases "tl (tl ds)") (auto simp: is_ascii_digit_def)

lemma parse_weight_bound: "parse_weight v = Inr q \<Longrightarrow> q \<le> 1000"
  using fraction_value_bound
  by (auto simp: parse_weight_def split: if_splits list.splits option.splits) (fastforce intro: le_trans)+

lemma parse_member_Inr:
  "parse_member es m = Inr es' \<longleftrightarrow>
     (let parts = split_on (CHR '';'') (trim_ows m); r = trim_ows (hd parts)
      in length es \<noteq> MAX_RANGES \<and> trim_ows m \<noteq> [] \<and> valid_basic_range r True \<and> (\<forall>e\<in>set es. pref_range e \<noteq> map to_lower r)
         \<and> (\<exists>q. es' = es @ [\<lparr>pref_range = map to_lower r, pref_quality = q\<rparr>]
              \<and> (tl parts = [] \<and> q = 1000 \<or> (\<exists>w. tl parts = [w] \<and> parse_weight (trim_ows w) = Inr q))))"
  by (auto simp: parse_member_def Let_def list_ex_iff split: list.split)

lemma parse_member_valid [inv_intros]:
  "valid_preferences es \<Longrightarrow> parse_member es m = Inr es' \<Longrightarrow> valid_preferences es'"
  by (auto simp: parse_member_Inr Let_def valid_preferences_def valid_preference_def comp_def
      dest: parse_weight_bound) blast+

lemma append_policy_range_Inr:
  "append_policy_range already target r = Inr target' \<longleftrightarrow> already + length target \<noteq> MAX_RANGES
     \<and> valid_basic_range r True \<and> map to_lower r \<notin> set target \<and> target' = target @ [map to_lower r]"
  by (auto simp: append_policy_range_def Let_def)

definition valid_ranges :: "nat \<Rightarrow> string list \<Rightarrow> bool" where
  "valid_ranges n rs \<longleftrightarrow> n + length rs \<le> MAX_RANGES \<and> distinct rs
     \<and> list_all (\<lambda>r. valid_basic_range r True \<and> map to_lower r = r) rs"

lemma append_policy_ranges_valid:
  assumes "append_policy_ranges rs n = Inr rs'" "n \<le> MAX_RANGES"
  shows "valid_ranges n rs'"
proof -
  have "valid_ranges n target \<Longrightarrow> append_policy_range n target r = Inr target' \<Longrightarrow> valid_ranges n target'" for target r target'
    by (auto simp: append_policy_range_Inr valid_ranges_def comp_def)
  note step = this
  show ?thesis
  proof (rule try_fold_invariant [where P = "valid_ranges n"])
    show "try_fold (append_policy_range n) [] rs = Inr rs'" using assms(1) by (simp add: append_policy_ranges_def)
    show "valid_ranges n []" using assms(2) by (simp add: valid_ranges_def)
  qed (rule step)
qed

text \<open>
  C35. What the parser returns for any header lines is well-formed: at most 32 distinct valid
  ranges in lower case with qualities of at most 1000 thousandths. A policy that compiles has at
  least one range, at most 32 valid lower-case ranges in its two lists together, and neither list
  repeats one.
\<close>

theorem language_values_wellformed:
  "(parse_values vs = Inr (PresentHeader es) \<longrightarrow> valid_preferences es) \<and>
   (compile_language p = Inr c \<longrightarrow> valid_ranges 0 (lc_allow c) \<and> valid_ranges (length (lc_allow c)) (lc_deny c)
      \<and> (lc_allow c \<noteq> [] \<or> lc_deny c \<noteq> []))"
proof (intro conjI impI)
  assume "parse_values vs = Inr (PresentHeader es)"
  then consider "es = []" | ms where "try_fold parse_member [] ms = Inr es"
    by (auto simp: parse_values_def split: sum.splits if_splits)
  then show "valid_preferences es"
  proof cases
    case 2
    from try_fold_invariant [of valid_preferences, OF parse_member_valid _ this] show ?thesis
      by (simp add: valid_preferences_def)
  qed (simp add: valid_preferences_def)
next
  assume "compile_language p = Inr c"
  then obtain allow deny where *: "append_policy_ranges (lp_allow p) 0 = Inr allow"
    "append_policy_ranges (lp_deny p) (length allow) = Inr deny" "lc_allow c = allow" "lc_deny c = deny"
    "allow \<noteq> [] \<or> deny \<noteq> []"
    by (auto simp: compile_language_def split: if_splits)
  have allow: "valid_ranges 0 allow" using append_policy_ranges_valid [OF *(1)] by simp
  moreover from this have "valid_ranges (length allow) deny"
    using append_policy_ranges_valid [OF *(2)] by (simp add: valid_ranges_def)
  ultimately show "valid_ranges 0 (lc_allow c)" "valid_ranges (length (lc_allow c)) (lc_deny c)"
    "lc_allow c \<noteq> [] \<or> lc_deny c \<noteq> []" using * by simp_all
qed

section \<open>Round trip\<close>

text \<open>
  A spelling of a preference: the range in any case, optional white space around each part, and
  the weight with three decimals, which may be left out when it is one.
\<close>

definition weight_text :: "nat \<Rightarrow> string" where
  "weight_text q = ''q='' @ (if q = 1000 then ''1''
     else ''0.'' @ [digit_char (q div 100), digit_char (q div 10 mod 10), digit_char (q mod 10)])"

definition spells :: "string \<Rightarrow> Preference \<Rightarrow> bool" where
  "spells m e \<longleftrightarrow> (\<exists>r a b c d. map to_lower r = pref_range e \<and> list_all is_ows (a @ b @ c @ d)
     \<and> (m = a @ r @ b @ '';'' @ c @ weight_text (pref_quality e) @ d \<or> pref_quality e = 1000 \<and> m = a @ r @ b))"

lemma trim_ows_pad:
  assumes "list_all is_ows a" "list_all is_ows b" "x \<noteq> []" "\<not> is_ows (hd x)" "\<not> is_ows (last x)"
  shows "trim_ows (a @ x @ b) = x"
proof -
  have "dropWhile is_ows (a @ x @ b) = x @ b"
    using assms by (cases x) (auto simp: dropWhile_append list_all_iff)
  moreover have "dropWhile is_ows (rev (x @ b)) = rev x"
    using assms by (cases x rule: rev_cases) (auto simp: dropWhile_append list_all_iff)
  ultimately show ?thesis by (simp add: trim_ows_def)
qed

lemma thousandths: "(q :: nat) div 100 * 100 + (q div 10 mod 10 * 10 + q mod 10) = q"
proof -
  have "q div 100 = q div 10 div 10" by (simp add: div_mult2_eq [symmetric])
  then show ?thesis using div_mult_mod_eq [of "q div 10" 10] div_mult_mod_eq [of q 10] by linarith
qed

lemma parse_weight_text: "q \<le> 1000 \<Longrightarrow> parse_weight (weight_text q) = Inr q"
  using thousandths [of q] by (simp add: parse_weight_def weight_text_def eq_ignore_ascii_case_def)

lemma digit_char_plain:
  assumes "n < 10"
  shows "digit_char n \<noteq> CHR '',''" "digit_char n \<noteq> CHR '';''" "\<not> is_ows (digit_char n)"
proof -
  have "byte (digit_char n) \<noteq> byte (CHR '','')" "byte (digit_char n) \<noteq> byte (CHR '';'')"
    "byte (digit_char n) \<noteq> byte (CHR '' '')" "byte (digit_char n) \<noteq> byte (CHR 0x09)" using assms by simp_all
  then show "digit_char n \<noteq> CHR '',''" "digit_char n \<noteq> CHR '';''" "\<not> is_ows (digit_char n)"
    unfolding is_ows_def by metis+
qed

lemma weight_text_plain:
  assumes "q \<le> 1000"
  shows "CHR '','' \<notin> set (weight_text q)" "CHR '';'' \<notin> set (weight_text q)" "weight_text q \<noteq> []"
    "\<not> is_ows (hd (weight_text q))" "\<not> is_ows (last (weight_text q))"
proof -
  have less: "q \<noteq> 1000 \<Longrightarrow> q div 100 < 10" using assms by simp
  note digits = digit_char_plain [of "q div 100"] digit_char_plain [of "q div 10 mod 10"] digit_char_plain [of "q mod 10"]
  show "CHR '','' \<notin> set (weight_text q)" "CHR '';'' \<notin> set (weight_text q)"
    using assms digits less by (auto simp: weight_text_def)
  show "\<not> is_ows (last (weight_text q))" using digits(9) by (simp add: weight_text_def is_ows_def [of "CHR ''1''"])
qed (simp_all add: weight_text_def is_ows_def)

lemma alphanumeric_plain: "is_ascii_alphanumeric c \<or> c = CHR ''-'' \<or> c = CHR ''*'' \<Longrightarrow>
    c \<noteq> CHR '','' \<and> c \<noteq> CHR '';'' \<and> \<not> is_ows c"
  by (auto simp: is_ascii_alphanumeric_def is_ascii_digit_def is_ascii_upper_def is_ascii_lower_def is_ows_def)

lemma valid_basic_range_chars:
  assumes "valid_basic_range r True" "c \<in> set r"
  shows "c \<noteq> CHR '','' \<and> c \<noteq> CHR '';'' \<and> \<not> is_ows c"
proof (cases "r = ''*''")
  case False
  with assms obtain first rest where parts: "split_on (CHR ''-'') r = first # rest"
    "valid_first_subtag first" "list_all valid_subtag rest"
    by (auto simp: valid_basic_range_def split: if_splits list.splits)
  then have "\<forall>t\<in>set (split_on (CHR ''-'') r). list_all is_ascii_alphanumeric t"
    by (auto simp: valid_first_subtag_def valid_subtag_def list_all_iff is_ascii_alphabetic_def is_ascii_alphanumeric_def)
  then show ?thesis using set_split_on_join [OF assms(2), of "CHR ''-''"]
    by (auto simp: list_all_iff intro!: alphanumeric_plain)
qed (use assms in \<open>simp add: is_ows_def\<close>)

lemma ows_plain: "list_all is_ows a \<Longrightarrow> CHR '','' \<notin> set a \<and> CHR '';'' \<notin> set a"
proof -
  have "\<not> is_ows (CHR '','')" "\<not> is_ows (CHR '';'')" by (simp_all add: is_ows_def)
  then show "list_all is_ows a \<Longrightarrow> ?thesis" unfolding list_all_iff by metis
qed

lemma spells_cases:
  assumes "spells m e" "valid_preference e"
  obtains r ws where "trim_ows (hd (split_on (CHR '';'') (trim_ows m))) = r" "tl (split_on (CHR '';'') (trim_ows m)) = ws"
    "map to_lower r = pref_range e" "valid_basic_range r True" "CHR '','' \<notin> set m" "trim_ows m \<noteq> []"
    "ws = [] \<and> pref_quality e = 1000 \<or> (\<exists>w. ws = [w] \<and> trim_ows w = weight_text (pref_quality e))"
proof -
  let ?w = "weight_text (pref_quality e)"
  obtain r a b c d where r: "map to_lower r = pref_range e" and ows: "list_all is_ows (a @ b @ c @ d)"
    and m: "m = a @ r @ b @ '';'' @ c @ ?w @ d \<or> pref_quality e = 1000 \<and> m = a @ r @ b"
    using assms(1) unfolding spells_def by blast
  have valid: "valid_basic_range r True" "pref_quality e \<le> 1000"
    using assms(2) valid_basic_range_lower [of r True] by (auto simp: valid_preference_def r)
  have plain: "CHR '','' \<notin> set r" "CHR '';'' \<notin> set r" using valid_basic_range_chars [OF valid(1)] by blast+
  have r_ne: "r \<noteq> []" using valid(1) by (auto simp: valid_basic_range_def)
  then have ends: "\<not> is_ows (hd r)" "\<not> is_ows (last r)" using valid_basic_range_chars [OF valid(1)] by simp_all
  note w = weight_text_plain [OF valid(2)]
  have o: "list_all is_ows a" "list_all is_ows b" "list_all is_ows c" "list_all is_ows d" using ows by simp_all
  note sep = this [THEN ows_plain]
  from m show thesis
  proof
    assume m: "m = a @ r @ b @ '';'' @ c @ ?w @ d"
    have trim: "trim_ows m = (r @ b) @ CHR '';'' # (c @ ?w)"
      using trim_ows_pad [of a d "r @ b @ '';'' @ c @ ?w"] o r_ne ends w unfolding m by simp
    have parts: "split_on (CHR '';'') (trim_ows m) = [r @ b, c @ ?w]"
      unfolding trim split_on_append_sep using sep plain w by (simp add: split_on_no_sep)
    have "trim_ows (r @ b) = r" "trim_ows (c @ ?w) = ?w" "CHR '','' \<notin> set m"
      using trim_ows_pad [of "[]" b r] trim_ows_pad [of c "[]" ?w] o r_ne ends w sep plain by (simp_all add: m)
    then show thesis using that [of r "[c @ ?w]"] r valid(1) r_ne unfolding parts by (simp add: trim)
  next
    assume m: "pref_quality e = 1000 \<and> m = a @ r @ b"
    have trim: "trim_ows m = r" using trim_ows_pad [of a b r] o r_ne ends m by simp
    have parts: "split_on (CHR '';'') (trim_ows m) = [r]" unfolding trim using plain by (simp add: split_on_no_sep)
    have "trim_ows r = r" "CHR '','' \<notin> set m"
      using trim_ows_pad [of "[]" "[]" r] r_ne ends m plain sep by simp_all
    moreover have "trim_ows m \<noteq> []" using trim r_ne by simp
    moreover have "pref_quality e = 1000" using m by simp
    ultimately show thesis by (intro that [of r "[]"]) (simp_all add: parts r valid(1))
  qed
qed

lemma parse_member_spells:
  assumes "spells m e" "valid_preference e" "length es < MAX_RANGES" "pref_range e \<notin> pref_range ` set es"
  shows "parse_member es m = Inr (es @ [e])"
proof -
  have e: "e = \<lparr>pref_range = pref_range e, pref_quality = pref_quality e\<rparr>" by simp
  have q: "pref_quality e \<le> 1000" using assms(2) by (simp add: valid_preference_def)
  have fresh: "\<forall>x\<in>set es. pref_range x \<noteq> pref_range e" using assms(4) by (metis imageI)
  obtain r ws where *: "trim_ows (hd (split_on (CHR '';'') (trim_ows m))) = r" "tl (split_on (CHR '';'') (trim_ows m)) = ws"
    "map to_lower r = pref_range e" "valid_basic_range r True" "trim_ows m \<noteq> []"
    "ws = [] \<and> pref_quality e = 1000 \<or> (\<exists>w. ws = [w] \<and> trim_ows w = weight_text (pref_quality e))"
    using spells_cases [OF assms(1,2)] by metis
  have len: "length es \<noteq> MAX_RANGES" using assms(3) by simp
  show ?thesis
    unfolding parse_member_Inr Let_def * using *(4-6) fresh len parse_weight_text [OF q] e by auto
qed

lemma parse_members_spell:
  assumes "list_all2 spells ms es" "valid_preferences (xs @ es)"
  shows "try_fold parse_member xs ms = Inr (xs @ es)"
  using assms
proof (induction ms es arbitrary: xs rule: list_all2_induct)
  case (Cons m ms e es)
  then have "parse_member xs m = Inr (xs @ [e])"
    by (intro parse_member_spells) (auto simp: valid_preferences_def)
  then show ?case using Cons.IH [of "xs @ [e]"] Cons.prems by simp
qed simp

lemma append_lines:
  "length bytes + length (concat (map (Cons (CHR '','')) vs)) \<le> MAX_HEADER_BYTES \<Longrightarrow>
   try_fold append_line (bytes, True) vs = Inr (bytes @ concat (map (Cons (CHR '','')) vs), True)"
  by (induction vs arbitrary: bytes) (simp_all add: append_line_def Let_def)

lemma join_concat: "join [c] (v # vs) = v @ concat (map (Cons c) vs)"
  by (induction vs arbitrary: v) simp_all

lemma append_all_lines:
  assumes "vs \<noteq> []" "length (join '','' vs) \<le> MAX_HEADER_BYTES"
  shows "try_fold append_line ([], False) vs = Inr (join '','' vs, True)"
proof -
  obtain v vs' where vs: "vs = v # vs'" using assms(1) by (cases vs) auto
  then show ?thesis using assms(2) append_lines [of v vs'] unfolding vs join_concat
    by (simp add: append_line_def)
qed

lemma join_groups:
  "list_all (\<lambda>g. g \<noteq> []) gs \<Longrightarrow> join sep (map (join sep) gs) = join sep (concat gs)"
proof (induction gs)
  case (Cons g gs)
  then show ?case
  proof (cases gs)
    case (Cons g' gs')
    then have "concat gs \<noteq> []" using Cons.prems by (cases g') auto
    then show ?thesis using Cons.IH Cons.prems \<open>gs = g' # gs'\<close> by (simp add: join_append)
  qed simp
qed simp

lemma set_join: "x \<in> set xs \<Longrightarrow> set x \<subseteq> set (join sep xs)"
  by (induction sep xs rule: join.induct) auto

lemma trim_ows_Nil: "trim_ows v = [] \<longleftrightarrow> list_all is_ows v"
proof -
  have "list_all is_ows (dropWhile is_ows v) \<longleftrightarrow> list_all is_ows v"
    by (induction v) auto
  then show ?thesis by (simp add: trim_ows_def dropWhile_eq_Nil_conv list_all_iff)
qed


definition demo_preferences :: "Preference list" where
  "demo_preferences = [\<lparr>pref_range = ''fr-ch'', pref_quality = 1000\<rparr>, \<lparr>pref_range = ''*'', pref_quality = 500\<rparr>]"

theorem language_values_wellformed_witness: "valid_preferences demo_preferences"
proof -
  have "parse_values [''fr-CH, *;q=0.500''] = Inr (PresentHeader demo_preferences)" by code_simp
  then show ?thesis using language_values_wellformed [of "[''fr-CH, *;q=0.500'']" demo_preferences] by blast
qed


end
