(* ===== verification/GeoIp.thy ===== *)
theory GeoIp
  imports StdNet
begin

text \<open>
  \<^verbatim>\<open>src/geoip.rs\<close> and \<^verbatim>\<open>src/geoip_runtime.rs\<close>: one loaded country database with its latched
  freshness, and the slot that publishes databases to the request path.

  The MMDB reader and SHA-256 are not part of the repository: a reader is the function from an
  address to the decoded \<^verbatim>\<open>country.iso_code\<close> (\<^term>\<open>Inl ()\<close> for a decoding error), parsing and
  hashing are parameters of \<open>load_at\<close>. What the code reads of the file system is a record of
  observations. A \<^verbatim>\<open>SystemTime\<close> is an \<^typ>\<open>int\<close> (nanoseconds since the Unix epoch); adding past
  the 64-bit second counter fails, as \<^verbatim>\<open>checked_add\<close> does.
\<close>

type_synonym system_time = int

section \<open>The code of geoip.rs\<close>

abbreviation (input) MAX_FILE_BYTES :: nat where
  "MAX_FILE_BYTES \<equiv> 64 * 1024 * 1024"

abbreviation (input) MAX_AGE_SECONDS :: nat where
  "MAX_AGE_SECONDS \<equiv> 90 * 24 * 60 * 60"

datatype geoip_error =
    InvalidLimits | InvalidPath | Unavailable | NotRegularFile | TooLarge | ChangedDuringRead
  | InvalidDatabase | UnsupportedDatabase | StaleDatabase | FutureDatabase | Clock | InvalidRecord

fun geoip_error_code :: "geoip_error \<Rightarrow> string" where
  "geoip_error_code InvalidLimits = ''invalid_limits''"
| "geoip_error_code InvalidPath = ''invalid_path''"
| "geoip_error_code Unavailable = ''unavailable''"
| "geoip_error_code NotRegularFile = ''not_regular_file''"
| "geoip_error_code TooLarge = ''too_large''"
| "geoip_error_code ChangedDuringRead = ''changed_during_read''"
| "geoip_error_code InvalidDatabase = ''invalid_database''"
| "geoip_error_code UnsupportedDatabase = ''unsupported_database''"
| "geoip_error_code StaleDatabase = ''stale_database''"
| "geoip_error_code FutureDatabase = ''future_database''"
| "geoip_error_code Clock = ''clock''"
| "geoip_error_code InvalidRecord = ''invalid_record''"

definition country_code_from_db :: "string \<Rightarrow> geoip_error + string" where
  "country_code_from_db v =
     (if length v = 2 \<and> list_all is_ascii_upper v then Inr v else Inl InvalidRecord)"

record database_status =
  database_type :: string
  ip_version :: nat
  build_epoch_unix_seconds :: nat
  expires_at_unix_seconds :: nat
  loaded_at_unix_ms :: nat
  generation_sha256 :: string
  file_bytes :: nat

type_synonym mmdb_reader = "ip_addr \<Rightarrow> unit + string option"

record database =
  reader :: mmdb_reader
  db_status :: database_status
  build_time :: system_time
  expires_at :: system_time
  expires_deadline :: instant
  freshness_failure :: nat

abbreviation (input) FRESH :: nat where "FRESH \<equiv> 0"
abbreviation (input) EXPIRED :: nat where "EXPIRED \<equiv> 1"
abbreviation (input) CLOCK_REVERSED :: nat where "CLOCK_REVERSED \<equiv> 2"

subsection \<open>Reading the file\<close>

record file_meta =
  is_file :: bool
  meta_len :: nat
  dev_ino :: "nat \<times> nat"
  mtime :: "int \<times> int"
  ctime :: "int \<times> int"

definition same_file_stamp :: "file_meta \<Rightarrow> file_meta \<Rightarrow> bool" where
  "same_file_stamp a b \<longleftrightarrow>
     (if \<not> is_file a \<or> \<not> is_file b \<or> meta_len a \<noteq> meta_len b then False
      else dev_ino a = dev_ino b \<and> mtime a = mtime b \<and> ctime a = ctime b)"

text \<open>
  The results of the file-system calls of one load, in call order; \<^term>\<open>None\<close> is an I/O error.
  \<open>fs_content\<close> is what the opened file holds.
\<close>

record file_reads =
  fs_path_before :: "file_meta option"
  fs_open :: bool
  fs_before :: "file_meta option"
  fs_content :: "string option"
  fs_after :: "file_meta option"
  fs_path_after :: "file_meta option"
  fs_path_after_verify :: "file_meta option"

definition read_bounded :: "file_reads \<Rightarrow> nat \<Rightarrow> geoip_error + string \<times> file_meta" where
  "read_bounded fs max_file_bytes =
     res_bind (ok_or Unavailable (fs_path_before fs)) (\<lambda>path_before.
     if \<not> is_file path_before then Inl NotRegularFile
     else if meta_len path_before > max_file_bytes then Inl TooLarge
     else if \<not> fs_open fs then Inl Unavailable
     else res_bind (ok_or Unavailable (fs_before fs)) (\<lambda>before.
     if \<not> is_file before then Inl NotRegularFile
     else if meta_len before > max_file_bytes then Inl TooLarge
     else if \<not> same_file_stamp path_before before then Inl ChangedDuringRead
     else res_bind (ok_or Unavailable (map_option (take (max_file_bytes + 1)) (fs_content fs))) (\<lambda>bytes.
     if length bytes > max_file_bytes then Inl TooLarge
     else res_bind (ok_or Unavailable (fs_after fs)) (\<lambda>after.
     res_bind (ok_or ChangedDuringRead (fs_path_after fs)) (\<lambda>path_after.
     if \<not> same_file_stamp before after \<or> \<not> same_file_stamp before path_after then Inl ChangedDuringRead
     else if length bytes \<noteq> meta_len before then Inl ChangedDuringRead
     else Inr (bytes, path_after))))))"

subsection \<open>Loading\<close>

text \<open>\<^verbatim>\<open>checked_add\<close> of a \<^verbatim>\<open>Duration\<close> (nanoseconds) to a \<^verbatim>\<open>SystemTime\<close> or an \<^verbatim>\<open>Instant\<close>.\<close>

abbreviation (input) TIME_LIMIT :: nat where
  "TIME_LIMIT \<equiv> 9223372036854775808 * NANOS"

definition system_time_add :: "system_time \<Rightarrow> nat \<Rightarrow> system_time option" where
  "system_time_add t d = (if t + int d < int TIME_LIMIT then Some (t + int d) else None)"

definition instant_add :: "instant \<Rightarrow> nat \<Rightarrow> instant option" where
  "instant_add t d = (if t + d < TIME_LIMIT then Some (t + d) else None)"

definition duration_since :: "system_time \<Rightarrow> system_time \<Rightarrow> nat option" where
  "duration_since later earlier = (if earlier \<le> later then Some (nat (later - earlier)) else None)"

text \<open>
  Parameters: \<open>digest_hex\<close> is \<^verbatim>\<open>format!("{:x}", Sha256::digest(..))\<close>; \<open>open_reader\<close> is
  \<^verbatim>\<open>Reader::from_source\<close> with the metadata it reads, \<open>verify_reader\<close> is \<^verbatim>\<open>Reader::verify\<close>.
\<close>

record mmdb_metadata =
  md_ip_version :: nat
  md_database_type :: string
  md_build_epoch :: nat

definition unix_millis :: "system_time \<Rightarrow> nat option" where
  "unix_millis now =
     Option.bind (duration_since now 0)
       (\<lambda>d. if d div 1000000 < 2 ^ 64 then Some (d div 1000000) else None)"

definition load_at ::
  "(string \<Rightarrow> string) \<Rightarrow> (string \<Rightarrow> (mmdb_reader \<times> mmdb_metadata) option) \<Rightarrow> (string \<Rightarrow> bool)
   \<Rightarrow> file_reads \<Rightarrow> string \<Rightarrow> nat \<Rightarrow> nat \<Rightarrow> system_time \<Rightarrow> instant \<Rightarrow> geoip_error + database" where
  "load_at digest_hex open_reader verify_reader fs path max_file_bytes max_age now load_instant =
     (if max_file_bytes = 0 \<or> max_file_bytes > MAX_FILE_BYTES \<or> max_age = 0
         \<or> max_age > MAX_AGE_SECONDS * NANOS then Inl InvalidLimits
      else if \<not> prefix ''/'' path then Inl InvalidPath
      else res_bind (read_bounded fs max_file_bytes) (\<lambda>(bytes, stamp).
      res_bind (ok_or InvalidDatabase (open_reader bytes)) (\<lambda>(rd, md).
      if \<not> verify_reader bytes then Inl InvalidDatabase
      else if md_ip_version md \<noteq> 6
              \<or> md_database_type md \<notin> {''GeoIP2-Country'', ''GeoLite2-Country'', ''DBIP-Country-Lite''}
      then Inl UnsupportedDatabase
      else res_bind (ok_or Clock (unix_millis now)) (\<lambda>loaded_at.
      res_bind (ok_or Clock (system_time_add 0 (md_build_epoch md * NANOS))) (\<lambda>built.
      res_bind (ok_or Clock (system_time_add built max_age)) (\<lambda>expires.
      res_bind (ok_or FutureDatabase (duration_since now built)) (\<lambda>age.
      if age > max_age then Inl StaleDatabase
      else res_bind (ok_or StaleDatabase (duration_since expires now)) (\<lambda>remaining.
      res_bind (ok_or Clock (instant_add load_instant remaining)) (\<lambda>deadline.
      res_bind (ok_or ChangedDuringRead (fs_path_after_verify fs)) (\<lambda>path_after_verify.
      if \<not> same_file_stamp stamp path_after_verify then Inl ChangedDuringRead
      else res_bind (ok_or Clock (if md_build_epoch md + max_age div NANOS < 2 ^ 64
                                  then Some (md_build_epoch md + max_age div NANOS) else None))
        (\<lambda>expires_secs.
      Inr \<lparr>reader = rd,
           db_status = \<lparr>database_type = md_database_type md, ip_version = md_ip_version md,
             build_epoch_unix_seconds = md_build_epoch md, expires_at_unix_seconds = expires_secs,
             loaded_at_unix_ms = loaded_at, generation_sha256 = digest_hex bytes,
             file_bytes = length bytes\<rparr>,
           build_time = built, expires_at = expires, expires_deadline = deadline,
           freshness_failure = FRESH\<rparr>)))))))))))"

subsection \<open>Freshness\<close>

definition freshness_error :: "nat \<Rightarrow> geoip_error" where
  "freshness_error state = (if state = CLOCK_REVERSED then FutureDatabase else StaleDatabase)"

text \<open>The compare-and-exchange on the latch succeeds exactly when the latch is still fresh.\<close>

definition check_freshness_at ::
  "database \<Rightarrow> system_time \<Rightarrow> instant \<Rightarrow> (geoip_error + unit) \<times> database" where
  "check_freshness_at db now inst =
     (if freshness_failure db \<noteq> FRESH then (Inl (freshness_error (freshness_failure db)), db)
      else
        let observed = (if inst \<ge> expires_deadline db \<or> now > expires_at db then EXPIRED
                        else if now < build_time db then CLOCK_REVERSED else FRESH);
            db' = (if observed \<noteq> FRESH \<and> freshness_failure db = FRESH
                   then db\<lparr>freshness_failure := observed\<rparr> else db)
        in (if freshness_failure db' = FRESH then Inr ()
            else Inl (freshness_error (freshness_failure db')), db'))"

subsection \<open>Lookup\<close>

definition V4_BLOCKS :: "(32 word \<times> nat) list" where
  "V4_BLOCKS =
     [(0x00000000, 8), (0x0a000000, 8), (0x64400000, 10), (0x7f000000, 8), (0xa9fe0000, 16),
      (0xac100000, 12), (0xc0000000, 24), (0xc0000200, 24), (0xc0586300, 24), (0xc0a80000, 16),
      (0xc6120000, 15), (0xc6336400, 24), (0xcb007100, 24), (0xe0000000, 4), (0xf0000000, 4)]"

definition non_public_v4 :: "32 word \<Rightarrow> bool" where
  "non_public_v4 v = list_ex (\<lambda>(base, bits). v AND push_bit (32 - bits) (- 1) = base) V4_BLOCKS"

definition V6_BLOCKS :: "(128 word \<times> nat) list" where
  "V6_BLOCKS =
     [(0x20010000000000000000000000000000, 23), (0x20010db8000000000000000000000000, 32),
      (0x20020000000000000000000000000000, 16), (0x3fff0000000000000000000000000000, 20)]"

definition non_public_v6 :: "128 word \<Rightarrow> bool" where
  "non_public_v6 v \<longleftrightarrow>
     drop_bit 125 v \<noteq> 1
     \<or> list_ex (\<lambda>(base, bits). v AND push_bit (128 - bits) (- 1) = base) V6_BLOCKS"

fun non_public :: "ip_addr \<Rightarrow> bool" where
  "non_public (V4 v) = non_public_v4 v"
| "non_public (V6 v) = non_public_v6 v"

text \<open>The address match is \<^verbatim>\<open>to_ipv4_mapped\<close> with the address itself as default: \<open>to_canonical\<close>.\<close>

definition lookup_at ::
  "database \<Rightarrow> ip_addr \<Rightarrow> system_time \<Rightarrow> instant \<Rightarrow> (geoip_error + string option) \<times> database" where
  "lookup_at db address now inst =
     (case check_freshness_at db now inst of
        (Inl e, db') \<Rightarrow> (Inl e, db')
      | (Inr _, db') \<Rightarrow>
          let a = to_canonical address
          in if non_public a then (Inr None, db')
             else (case reader db' a of
                     Inl _ \<Rightarrow> (Inl InvalidRecord, db')
                   | Inr None \<Rightarrow> (Inr None, db')
                   | Inr (Some v) \<Rightarrow>
                       (case country_code_from_db v of
                          Inl e \<Rightarrow> (Inl e, db') | Inr c \<Rightarrow> (Inr (Some c), db'))))"

section \<open>Address blocks\<close>

lemma and_high_mask: "(v :: 'a::len word) AND push_bit n (- 1) = push_bit n (drop_bit n v)"
  by (rule bit_word_eqI) (auto simp: bit_simps)

lemma unat_clear_low: "unat (push_bit n (drop_bit n (v :: 'a::len word))) = unat v div 2 ^ n * 2 ^ n"
proof -
  have "unat v div 2 ^ n * 2 ^ n < 2 ^ LENGTH('a)"
    using unsigned_less [of v] by (metis div_times_less_eq_dividend le_less_trans)
  moreover have "take_bit LENGTH('a) (unat v) = unat v"
    by (rule take_bit_nat_eq_self) (rule unsigned_less)
  ultimately show ?thesis
    unfolding unsigned_push_bit_eq unsigned_drop_bit_eq
    by (simp add: push_bit_eq_mult drop_bit_eq_div take_bit_nat_eq_self)
qed

text \<open>A masked comparison is membership in the CIDR block, for a base with no host bits.\<close>

lemma masked_eq_range:
  fixes v base :: "'a::len word"
  assumes "2 ^ n dvd unat base"
  shows "v AND push_bit n (- 1) = base \<longleftrightarrow> unat base \<le> unat v \<and> unat v < unat base + 2 ^ n"
proof -
  obtain k where k: "unat base = 2 ^ n * k" using assms by blast
  have "v AND push_bit n (- 1) = base \<longleftrightarrow> unat v div 2 ^ n * 2 ^ n = unat base"
    by (metis and_high_mask unat_clear_low unsigned_word_eqI)
  also have "\<dots> \<longleftrightarrow> unat v div 2 ^ n = k" using k by simp
  also have "\<dots> \<longleftrightarrow> unat base \<le> unat v \<and> unat v < unat base + 2 ^ n"
    unfolding k using div_nat_eqI [of "2 ^ n" k "unat v"] dividend_less_times_div [of "2 ^ n" "unat v"]
    by (auto simp: algebra_simps)
  finally show ?thesis .
qed

lemma block_list_range:
  fixes v :: "'a::len word"
  assumes "list_all (\<lambda>(base, bits). 2 ^ (width - bits) dvd unat base) blocks"
  shows "list_ex (\<lambda>(base, bits). v AND push_bit (width - bits) (- 1) = base) blocks \<longleftrightarrow>
    (\<exists>(base, bits)\<in>set blocks. unat base \<le> unat v \<and> unat v < unat base + 2 ^ (width - bits))"
  using assms
proof (induction blocks)
  case (Cons x blocks)
  obtain base bits where x: "x = (base, bits)" by (cases x)
  then have "v AND push_bit (width - bits) (- 1) = base \<longleftrightarrow>
      unat base \<le> unat v \<and> unat v < unat base + 2 ^ (width - bits)"
    using Cons.prems by (intro masked_eq_range) simp
  then show ?case using Cons by (simp add: x del: push_bit_minus_one_eq_not_mask)
qed simp

lemma drop_bit_eq_one_range:
  "drop_bit 125 (v :: 128 word) = 1 \<longleftrightarrow> 2 ^ 125 \<le> unat v \<and> unat v < 2 ^ 126"
proof -
  have "drop_bit 125 v = 1 \<longleftrightarrow> unat (drop_bit 125 v) = 1"
    by (metis unsigned_1 unsigned_word_eqI)
  also have "\<dots> \<longleftrightarrow> unat v div 2 ^ 125 = 1"
    using take_bit_nat_eq_self [OF unsigned_less [of v]]
    unfolding unsigned_drop_bit_eq by (simp add: drop_bit_eq_div)
  also have "\<dots> \<longleftrightarrow> 2 ^ 125 \<le> unat v \<and> unat v < 2 ^ 126" by auto
  finally show ?thesis .
qed

section \<open>The freshness latch\<close>

lemma check_freshness_at_eq:
  "check_freshness_at db now inst =
     (if freshness_failure db \<noteq> FRESH then (Inl (freshness_error (freshness_failure db)), db)
      else if inst \<ge> expires_deadline db \<or> now > expires_at db
      then (Inl StaleDatabase, db\<lparr>freshness_failure := EXPIRED\<rparr>)
      else if now < build_time db then (Inl FutureDatabase, db\<lparr>freshness_failure := CLOCK_REVERSED\<rparr>)
      else (Inr (), db))"
  by (simp add: check_freshness_at_def freshness_error_def)

lemma check_freshness_ok:
  assumes "check_freshness_at db now inst = (Inr u, db')"
  shows "db' = db" "freshness_failure db = FRESH" "build_time db \<le> now" "now \<le> expires_at db"
    "inst < expires_deadline db"
  using assms unfolding check_freshness_at_eq by (simp_all split: if_splits)

lemma check_freshness_again:
  assumes "check_freshness_at db now inst = (Inl e, db')"
  shows "check_freshness_at db' now' inst' = (Inl e, db')"
proof -
  have "freshness_failure db' \<noteq> FRESH \<and> e = freshness_error (freshness_failure db')"
    using assms unfolding check_freshness_at_eq
    by (auto simp: freshness_error_def split: if_splits)
  then show ?thesis by (simp add: check_freshness_at_eq)
qed

section \<open>Properties\<close>

text \<open>
  The bit masks of the fixed non-public address filter are the intended CIDR blocks: an
  IPv4 address is filtered exactly when it lies in one of the listed blocks, an IPv6 address
  exactly when it lies outside \<^verbatim>\<open>2000::/3\<close> or in one of the listed blocks.
\<close>

theorem non_public_blocks:
  "(non_public (V4 v) \<longleftrightarrow>
     (\<exists>(base, bits)\<in>set V4_BLOCKS. unat base \<le> unat v \<and> unat v < unat base + 2 ^ (32 - bits)))
   \<and> (non_public (V6 w) \<longleftrightarrow>
     unat w < 2 ^ 125 \<or> 2 ^ 126 \<le> unat w
     \<or> (\<exists>(base, bits)\<in>set V6_BLOCKS. unat base \<le> unat w \<and> unat w < unat base + 2 ^ (128 - bits)))"
proof (rule conjI)
  have d4: "list_all (\<lambda>(base, bits). 2 ^ (32 - bits) dvd unat base) V4_BLOCKS"
    by (simp add: V4_BLOCKS_def dvd_eq_mod_eq_0)
  have d6: "list_all (\<lambda>(base, bits). 2 ^ (128 - bits) dvd unat base) V6_BLOCKS"
    by (simp add: V6_BLOCKS_def dvd_eq_mod_eq_0)
  show "non_public (V4 v) \<longleftrightarrow>
     (\<exists>(base, bits)\<in>set V4_BLOCKS. unat base \<le> unat v \<and> unat v < unat base + 2 ^ (32 - bits))"
    unfolding non_public.simps non_public_v4_def by (rule block_list_range [OF d4])
  show "non_public (V6 w) \<longleftrightarrow>
     unat w < 2 ^ 125 \<or> 2 ^ 126 \<le> unat w
     \<or> (\<exists>(base, bits)\<in>set V6_BLOCKS. unat base \<le> unat w \<and> unat w < unat base + 2 ^ (128 - bits))"
    unfolding non_public.simps non_public_v6_def block_list_range [OF d6] drop_bit_eq_one_range
    by (simp add: not_le not_less)
qed

text \<open>
  Freshness is latched: a check succeeds only while both clocks are inside the lifetime of
  the database and changes nothing; once a check fails, every later check of the same
  generation fails with the same error, whatever the clocks say then.
\<close>

theorem freshness_latched:
  assumes "check_freshness_at db now inst = (r, db')"
  shows "(case r of
      Inr _ \<Rightarrow> db' = db \<and> build_time db \<le> now \<and> now \<le> expires_at db \<and> inst < expires_deadline db
    | Inl e \<Rightarrow> check_freshness_at db' now' inst' = (Inl e, db'))"
proof (cases r)
  case (Inl e)
  then show ?thesis using assms check_freshness_again [of db now inst e db'] by simp
next
  case (Inr u)
  then show ?thesis using assms check_freshness_ok [of db now inst u db'] by simp
qed

definition demo_database :: database where
  "demo_database =
     \<lparr>reader = (\<lambda>_. Inr (Some ''NL'')),
      db_status = \<lparr>database_type = ''DBIP-Country-Lite'', ip_version = 6, build_epoch_unix_seconds = 1000,
        expires_at_unix_seconds = 2000, loaded_at_unix_ms = 1000000,
        generation_sha256 = replicate 64 (CHR ''a''), file_bytes = 3\<rparr>,
      build_time = 1000000000000, expires_at = 2000000000000, expires_deadline = 1000 * NANOS,
      freshness_failure = FRESH\<rparr>"

theorem freshness_latched_witness:
  "check_freshness_at demo_database 2001000000000 0
     = (Inl StaleDatabase, demo_database\<lparr>freshness_failure := EXPIRED\<rparr>)
   \<and> check_freshness_at (demo_database\<lparr>freshness_failure := EXPIRED\<rparr>) 1500000000000 0
     = (Inl StaleDatabase, demo_database\<lparr>freshness_failure := EXPIRED\<rparr>)"
proof -
  have c: "check_freshness_at demo_database 2001000000000 0
     = (Inl StaleDatabase, demo_database\<lparr>freshness_failure := EXPIRED\<rparr>)"
    by (simp add: check_freshness_at_def demo_database_def freshness_error_def)
  show ?thesis using c freshness_latched [OF c, of 1500000000000 0] by simp
qed

lemma read_bounded_bound: "read_bounded fs m = Inr (bytes, stamp) \<Longrightarrow> length bytes \<le> m"
  by (auto simp: read_bounded_def split: if_splits)

text \<open>
  A database that \<^verbatim>\<open>load_at\<close> accepts is bounded: the file has between one and the
  configured number of bytes allowed and did not change while it was read and verified, the
  lifetime is the configured age of at most 90 days counted from the build time, the load
  time lies inside it, and the monotonic deadline leaves exactly the remaining time. The build
  epoch is below 2^63, so adding one to it cannot saturate.
\<close>

theorem load_at_bounded:
  assumes "load_at digest_hex open_reader verify_reader fs path max_file_bytes max_age now load_instant = Inr db"
  shows "file_bytes (db_status db) \<le> max_file_bytes \<and> max_file_bytes \<le> MAX_FILE_BYTES
    \<and> expires_at db = build_time db + int max_age \<and> max_age \<le> MAX_AGE_SECONDS * NANOS
    \<and> build_time db = int (build_epoch_unix_seconds (db_status db) * NANOS)
    \<and> build_time db \<le> now \<and> now \<le> expires_at db
    \<and> expires_deadline db = load_instant + nat (expires_at db - now)
    \<and> build_epoch_unix_seconds (db_status db) < 2 ^ 63
    \<and> freshness_failure db = FRESH
    \<and> (\<exists>bytes. generation_sha256 (db_status db) = digest_hex bytes)"
  using assms
  by (auto simp: load_at_def system_time_add_def duration_since_def instant_add_def
      dest!: read_bounded_bound split: if_splits)

definition demo_reads :: file_reads where
  "demo_reads =
     (let m = \<lparr>is_file = True, meta_len = 3, dev_ino = (1, 2), mtime = (5, 0), ctime = (5, 0)\<rparr>
      in \<lparr>fs_path_before = Some m, fs_open = True, fs_before = Some m, fs_content = Some ''abc'',
          fs_after = Some m, fs_path_after = Some m, fs_path_after_verify = Some m\<rparr>)"

definition demo_load :: "geoip_error + database" where
  "demo_load =
     load_at (\<lambda>_. replicate 64 (CHR ''a''))
       (\<lambda>_. Some (reader demo_database,
                 \<lparr>md_ip_version = 6, md_database_type = ''DBIP-Country-Lite'', md_build_epoch = 1000\<rparr>))
       (\<lambda>_. True) demo_reads ''/geo.mmdb'' 10 1000000000000 1000000000000 0"

theorem load_at_bounded_witness:
  "\<exists>db. demo_load = Inr db \<and> file_bytes (db_status db) \<le> 10
    \<and> expires_at db = build_time db + int 1000000000000"
proof -
  have "\<exists>db. demo_load = Inr db"
    by (simp add: demo_load_def demo_reads_def load_at_def read_bounded_def same_file_stamp_def Let_def
        ok_or_def unix_millis_def duration_since_def system_time_add_def instant_add_def)
  then obtain db where db: "demo_load = Inr db" ..
  show ?thesis using db load_at_bounded [OF db [unfolded demo_load_def]] by blast
qed

text \<open>
  A lookup answers only from a fresh database, with two upper-case letters or with no
  country; it never answers with a country for a filtered address, and an IPv4-mapped IPv6
  address is looked up as the IPv4 address it stands for.
\<close>

theorem lookup_at_sound:
  assumes "lookup_at db a now inst = (Inr answer, db')"
  shows "db' = db \<and> check_freshness_at db now inst = (Inr (), db)
    \<and> (answer \<noteq> None \<longrightarrow> \<not> non_public (to_canonical a) \<and> reader db (to_canonical a) = Inr answer)
    \<and> (\<forall>c. answer = Some c \<longrightarrow> length c = 2 \<and> list_all is_ascii_upper c)
    \<and> lookup_at db (to_canonical a) now inst = (Inr answer, db')"
proof -
  obtain u where c: "check_freshness_at db now inst = (Inr u, db')"
    using assms by (auto simp: lookup_at_def Let_def split: prod.splits sum.splits option.splits if_splits)
  then have "db' = db" by (rule check_freshness_ok(1))
  then show ?thesis
    using assms c
    by (auto simp: lookup_at_def Let_def country_code_from_db_def split: sum.splits option.splits if_splits)
qed

theorem lookup_at_sound_witness:
  "lookup_at demo_database (V4 0x01010101) 1500000000000 0 = (Inr (Some ''NL''), demo_database)
   \<and> lookup_at demo_database (to_canonical (V4 0x01010101)) 1500000000000 0 = (Inr (Some ''NL''), demo_database)"
proof -
  have f: "check_freshness_at demo_database 1500000000000 0 = (Inr (), demo_database)"
    by (simp add: check_freshness_at_def demo_database_def)
  have "\<not> non_public (V4 0x01010101)" 
    unfolding non_public.simps non_public_v4_def
    by (subst block_list_range) (simp_all add: V4_BLOCKS_def dvd_eq_mod_eq_0)
  moreover have "reader demo_database a = Inr (Some ''NL'')" for a by (simp add: demo_database_def)
  moreover have "country_code_from_db ''NL'' = Inr ''NL''" by code_simp
  ultimately have l: "lookup_at demo_database (V4 0x01010101) 1500000000000 0 = (Inr (Some ''NL''), demo_database)"
    by (simp add: lookup_at_def f)
  show ?thesis using l lookup_at_sound [OF l] by simp
qed

end
