(* ===== verification/GeoIpSlot.thy ===== *)
theory GeoIpSlot
  imports GeoIp
begin

text \<open>
  \<^verbatim>\<open>src/geoip_runtime.rs\<close>: the node-local slot that publishes one database. The heap of
  loaded databases is a list, an \<^verbatim>\<open>Arc<Database>\<close> is an index into it, and a \<^verbatim>\<open>Slot\<close> is the
  rest of the record. The slot is the one \<^verbatim>\<open>Slot::new\<close> builds: its freshness callback is
  \<^verbatim>\<open>Database::check_freshness\<close>, which reads both clocks; the readings are arguments.
\<close>

section \<open>The configured source\<close>

record geoip_source =
  src_file :: string
  src_max_file_bytes :: nat
  src_max_age_days :: nat
  src_reload_interval_seconds :: nat

text \<open>\<^verbatim>\<open>std::path::Path::components\<close> on an absolute Unix path.\<close>

datatype path_component = RootDir | ParentDir | Normal string

definition path_components :: "string \<Rightarrow> path_component list" where
  "path_components p =
     RootDir # map (\<lambda>s. if s = ''..'' then ParentDir else Normal s)
       (filter (\<lambda>s. s \<noteq> [] \<and> s \<noteq> ''.'') (split_on (CHR ''/'') p))"

text \<open>\<^verbatim>\<open>PathBuf::push\<close> of one component, and the loop over the components.\<close>

fun push_component :: "string \<Rightarrow> path_component \<Rightarrow> string" where
  "push_component p RootDir = ''/''"
| "push_component p ParentDir = (if suffix ''/'' p \<or> p = [] then p else p @ ''/'') @ ''..''"
| "push_component p (Normal s) = (if suffix ''/'' p \<or> p = [] then p else p @ ''/'') @ s"

definition normalize_step :: "string \<times> bool \<Rightarrow> path_component \<Rightarrow> geoip_error + string \<times> bool" where
  "normalize_step st c =
     (case st of (normalized, normal_seen) \<Rightarrow>
        (case c of
           RootDir \<Rightarrow> Inr (push_component normalized c, normal_seen)
         | Normal _ \<Rightarrow> Inr (push_component normalized c, True)
         | ParentDir \<Rightarrow> Inl InvalidPath))"

definition validate_source :: "geoip_source \<Rightarrow> geoip_error + unit" where
  "validate_source s =
     (if src_max_file_bytes s = 0 \<or> src_max_file_bytes s > MAX_FILE_BYTES
         \<or> src_max_age_days s = 0 \<or> src_max_age_days s * 86400 > MAX_AGE_SECONDS
         \<or> \<not> (1 \<le> src_reload_interval_seconds s \<and> src_reload_interval_seconds s \<le> 3600)
      then Inl InvalidLimits
      else if \<not> prefix ''/'' (src_file s) \<or> utf8_decode (src_file s) = None
              \<or> CHR 0x00 \<in> set (src_file s)
      then Inl InvalidPath
      else res_bind (try_fold normalize_step ([], False) (path_components (src_file s)))
        (\<lambda>(normalized, normal_seen).
           if \<not> normal_seen \<or> normalized \<noteq> src_file s then Inl InvalidPath else Inr ()))"

section \<open>The slot\<close>

record geo_slot =
  databases :: "database list"
  current :: "nat option"
  obs_error :: "geoip_error option"
  checked_at_unix_ms :: "nat option"
  poisoned_epoch_floor :: nat

definition new_slot :: "geoip_source \<Rightarrow> geoip_error + geo_slot" where
  "new_slot source =
     res_bind (validate_source source)
       (\<lambda>_. Inr \<lparr>databases = [], current = None, obs_error = None, checked_at_unix_ms = None,
                poisoned_epoch_floor = 0\<rparr>)"

abbreviation epoch :: "database \<Rightarrow> nat" where
  "epoch db \<equiv> build_epoch_unix_seconds (db_status db)"

abbreviation (input) U64_MAX :: nat where
  "U64_MAX \<equiv> 18446744073709551615"

definition poison :: "geo_slot \<Rightarrow> nat \<Rightarrow> geo_slot" where
  "poison s a =
     s\<lparr>poisoned_epoch_floor := max (poisoned_epoch_floor s) (min U64_MAX (epoch (databases s ! a) + 1))\<rparr>"

definition is_poisoned :: "geo_slot \<Rightarrow> nat \<Rightarrow> bool" where
  "is_poisoned s a \<longleftrightarrow> epoch (databases s ! a) < poisoned_epoch_floor s"

definition freshness_checked ::
  "geo_slot \<Rightarrow> nat \<Rightarrow> system_time \<Rightarrow> instant \<Rightarrow> (geoip_error + unit) \<times> geo_slot" where
  "freshness_checked s a now inst =
     (case check_freshness_at (databases s ! a) now inst of
        (Inl e, db') \<Rightarrow> (Inl e, poison (s\<lparr>databases := (databases s)[a := db']\<rparr>) a)
      | (Inr _, db') \<Rightarrow>
          let s' = s\<lparr>databases := (databases s)[a := db']\<rparr>
          in if is_poisoned s' a then (Inl StaleDatabase, s') else (Inr (), s'))"

definition slot_load :: "geo_slot \<Rightarrow> system_time \<Rightarrow> instant \<Rightarrow> nat option \<times> geo_slot" where
  "slot_load s now inst =
     (case current s of
        None \<Rightarrow> (None, s)
      | Some a \<Rightarrow>
          (case freshness_checked s a now inst of
             (Inr _, s') \<Rightarrow> (Some a, s')
           | (Inl _, s') \<Rightarrow> (None, s')))"

text \<open>The freshness check of whatever the slot publishes at the moment, if anything.\<close>

definition check_existing ::
  "geo_slot \<Rightarrow> system_time \<Rightarrow> instant \<Rightarrow> (geoip_error + unit) option \<times> geo_slot" where
  "check_existing s now inst =
     (case current s of
        None \<Rightarrow> (None, s)
      | Some a \<Rightarrow> (case freshness_checked s a now inst of (r, s') \<Rightarrow> (Some r, s')))"

record slot_status_view =
  ready :: bool
  status_database :: "database_status option"
  status_error_code :: "string option"
  status_checked_at :: "nat option"

definition slot_status :: "geo_slot \<Rightarrow> system_time \<Rightarrow> instant \<Rightarrow> slot_status_view \<times> geo_slot" where
  "slot_status s now inst =
     (let (freshness, s') = check_existing s now inst;
          rdy = (freshness = Some (Inr ()))
      in (\<lparr>ready = rdy,
           status_database = map_option (\<lambda>a. db_status (databases s' ! a)) (current s),
           status_error_code =
             (if rdy then None
              else map_option geoip_error_code
                     (case freshness of Some (Inl e) \<Rightarrow> Some e | _ \<Rightarrow> obs_error s')),
           status_checked_at = checked_at_unix_ms s'\<rparr>, s'))"

text \<open>\<^verbatim>\<open>publish\<close>; a database that was loaded has been allocated, the result names its address.\<close>

definition slot_publish ::
  "geo_slot \<Rightarrow> geoip_error + nat \<Rightarrow> system_time \<Rightarrow> instant \<Rightarrow> geo_slot" where
  "slot_publish s result now inst =
     (let checked = unix_millis now;
          (existing_result, s1) = check_existing s now inst
      in case result of
           Inr a \<Rightarrow>
             (let existing_fresh = (existing_result = Some (Inr ()));
                  keep_existing =
                    (case current s of
                       None \<Rightarrow> False
                     | Some old \<Rightarrow>
                         existing_fresh
                         \<and> generation_sha256 (db_status (databases s1 ! old))
                            = generation_sha256 (db_status (databases s1 ! a)))
              in if is_poisoned s1 a
                 then s1\<lparr>current := None, obs_error := Some StaleDatabase, checked_at_unix_ms := checked\<rparr>
                 else
                   (let s2 = (if \<not> keep_existing then s1\<lparr>current := Some a\<rparr> else s1)
                    in s2\<lparr>obs_error := None, checked_at_unix_ms := checked\<rparr>))
         | Inl e \<Rightarrow> s1\<lparr>current := None, obs_error := Some e, checked_at_unix_ms := checked\<rparr>)"

text \<open>
  The part of \<^verbatim>\<open>refresh_once\<close> after the blocking load: the loader's database is allocated, the
  two gates (\<^verbatim>\<open>cancel.is_cancelled() || !published(self)\<close>) can discard it, its freshness is
  checked and the result is published. The part before the \<^verbatim>\<open>await\<close> changes no slot state.
\<close>

definition alloc_database :: "geo_slot \<Rightarrow> geoip_error + database \<Rightarrow> (geoip_error + nat) \<times> geo_slot" where
  "alloc_database s loaded =
     (case loaded of
        Inl e \<Rightarrow> (Inl e, s)
      | Inr db \<Rightarrow> (Inr (length (databases s)), s\<lparr>databases := databases s @ [db]\<rparr>))"

definition refresh_finish ::
  "geo_slot \<Rightarrow> geoip_error + database \<Rightarrow> bool \<Rightarrow> bool \<Rightarrow> system_time \<times> instant \<Rightarrow> system_time \<times> instant
   \<Rightarrow> geo_slot" where
  "refresh_finish s loaded stop1 stop2 check_time publish_time =
     (let (result, s0) = alloc_database s loaded
      in if stop1 then s0
         else
           let (result', s1) =
                 (case result of
                    Inl e \<Rightarrow> (Inl e, s0)
                  | Inr a \<Rightarrow>
                      (case freshness_checked s0 a (fst check_time) (snd check_time) of
                         (Inl e, s') \<Rightarrow> (Inl e, s')
                       | (Inr _, s') \<Rightarrow> (Inr a, s')))
           in if stop2 then s1
              else slot_publish s1 result' (fst publish_time) (snd publish_time))"

definition refresh_once ::
  "geo_slot \<Rightarrow> bool \<Rightarrow> bool \<Rightarrow> geoip_error + database \<Rightarrow> bool \<Rightarrow> bool
   \<Rightarrow> system_time \<times> instant \<Rightarrow> system_time \<times> instant \<Rightarrow> geo_slot" where
  "refresh_once s stop0 permit loaded stop1 stop2 check_time publish_time =
     (if stop0 then s
      else if \<not> permit then s
      else refresh_finish s loaded stop1 stop2 check_time publish_time)"

text \<open>A holder of an \<^verbatim>\<open>Arc<Database>\<close> looks an address up, whether the slot still publishes it or not.\<close>

definition slot_lookup ::
  "geo_slot \<Rightarrow> nat \<Rightarrow> ip_addr \<Rightarrow> system_time \<Rightarrow> instant \<Rightarrow> (geoip_error + string option) \<times> geo_slot" where
  "slot_lookup s a ip now inst =
     (case lookup_at (databases s ! a) ip now inst of
        (r, db') \<Rightarrow> (r, s\<lparr>databases := (databases s)[a := db']\<rparr>))"

section \<open>Runs of a slot\<close>

text \<open>
  The loader only returns databases that \<open>load_at\<close> can return; what the slot relies on is that
  their build epoch is below \<open>2 ^ 63\<close> (\<open>load_at_bounded\<close>).
\<close>

inductive geo_step :: "geo_slot \<Rightarrow> geo_slot \<Rightarrow> bool" where
  step_load: "geo_step s (snd (slot_load s now inst))"
| step_status: "geo_step s (snd (slot_status s now inst))"
| step_lookup: "a < length (databases s) \<Longrightarrow> geo_step s (snd (slot_lookup s a ip now inst))"
| step_refresh:
    "(\<And>db. loaded = Inr db \<Longrightarrow> epoch db < 2 ^ 63) \<Longrightarrow>
     geo_step s (refresh_once s stop0 permit loaded stop1 stop2 t1 t2)"

inductive geo_steps :: "geo_slot \<Rightarrow> geo_slot \<Rightarrow> bool" where
  geo_steps_refl: "geo_steps s s"
| geo_steps_step: "geo_steps s t \<Longrightarrow> geo_step t u \<Longrightarrow> geo_steps s u"

definition geo_inv :: "geo_slot \<Rightarrow> bool" where
  "geo_inv s \<longleftrightarrow>
     (\<forall>a. current s = Some a \<longrightarrow> a < length (databases s))
     \<and> list_all (\<lambda>db. epoch db < 2 ^ 63) (databases s)"

section \<open>Preservation\<close>

text \<open>What every operation keeps: the invariant, the poisoned floor only rises.\<close>

definition geo_ext :: "geo_slot \<Rightarrow> geo_slot \<Rightarrow> bool" where
  "geo_ext s s' \<longleftrightarrow> (geo_inv s \<longrightarrow> geo_inv s') \<and> poisoned_epoch_floor s \<le> poisoned_epoch_floor s'"

lemma geo_ext_refl [inv_intros, simp]: "geo_ext s s"
  by (simp add: geo_ext_def)

lemma geo_ext_trans: "geo_ext s t \<Longrightarrow> geo_ext t u \<Longrightarrow> geo_ext s u"
  by (auto simp: geo_ext_def)

lemma check_freshness_epoch: "check_freshness_at db now inst = (r, db') \<Longrightarrow> db_status db' = db_status db"
  by (auto simp: check_freshness_at_eq split: if_splits)

lemma lookup_at_snd: "snd (lookup_at db ip now inst) = snd (check_freshness_at db now inst)"
  by (cases "check_freshness_at db now inst"; cases "fst (check_freshness_at db now inst)")
    (simp_all add: lookup_at_def Let_def split: sum.split option.split)

lemma lookup_at_epoch: "lookup_at db ip now inst = (r, db') \<Longrightarrow> db_status db' = db_status db"
  using check_freshness_epoch [of db now inst] lookup_at_snd [of db ip now inst]
  by (cases "check_freshness_at db now inst") simp

text \<open>Replacing a database by one with the same status.\<close>

lemma geo_inv_update:
  assumes "db_status db' = db_status (databases s ! a)"
  shows "geo_ext s (s\<lparr>databases := (databases s)[a := db']\<rparr>)"
proof (cases "a < length (databases s)")
  case True
  have "list_all (\<lambda>db. epoch db < 2 ^ 63) ((databases s)[a := db'])" if "geo_inv s"
    using that assms True set_update_subset_insert [of "databases s" a db']
    by (fastforce simp: geo_inv_def list_all_iff)
  then show ?thesis by (auto simp: geo_ext_def geo_inv_def)
qed (simp add: list_update_beyond geo_ext_def geo_inv_def)

lemma freshness_checked_ext [inv_intros]:
  assumes "freshness_checked s a now inst = (r, s')"
  shows "geo_ext s s'" "current s' = current s" "length (databases s') = length (databases s)"
proof -
  obtain r0 db' where c: "check_freshness_at (databases s ! a) now inst = (r0, db')" by fastforce
  let ?t = "s\<lparr>databases := (databases s)[a := db']\<rparr>"
  have t: "geo_ext s ?t" using check_freshness_epoch [OF c] by (rule geo_inv_update)
  have "geo_ext ?t (poison ?t a)" by (simp add: geo_ext_def geo_inv_def poison_def)
  then show "geo_ext s s'" "current s' = current s" "length (databases s') = length (databases s)"
    using assms t geo_ext_trans [OF t]
    by (auto simp: freshness_checked_def c Let_def poison_def split: sum.splits if_splits)
qed

text \<open>The verdict of a check is exactly whether the epoch is still above the floor afterwards.\<close>

lemma freshness_checked_verdict:
  assumes f: "freshness_checked s a now inst = (r, s')" and inv: "geo_inv s" and a: "a < length (databases s)"
  shows "r = Inr () \<longleftrightarrow> poisoned_epoch_floor s' \<le> epoch (databases s ! a)"
    and "r = Inr () \<Longrightarrow> check_freshness_at (databases s ! a) now inst = (Inr (), databases s ! a)"
proof -
  obtain r0 db' where c: "check_freshness_at (databases s ! a) now inst = (r0, db')" by fastforce
  have e: "epoch (databases s ! a) < 2 ^ 63" using inv a by (auto simp: geo_inv_def list_all_length)
  have same: "epoch db' = epoch (databases s ! a)" using check_freshness_epoch [OF c] by simp
  show "r = Inr () \<longleftrightarrow> poisoned_epoch_floor s' \<le> epoch (databases s ! a)"
    using f e a same
    by (auto simp: freshness_checked_def c Let_def is_poisoned_def poison_def split: sum.splits if_splits)
  show "check_freshness_at (databases s ! a) now inst = (Inr (), databases s ! a)" if "r = Inr ()"
    using f that c check_freshness_ok(1) [of "databases s ! a" now inst "()" db']
    by (auto simp: freshness_checked_def c split: sum.splits)
qed

lemma check_existing_ext:
  assumes "check_existing s now inst = (r, s')"
  shows "geo_ext s s'" "length (databases s') = length (databases s)"
  using assms freshness_checked_ext by (auto simp: check_existing_def split: option.splits prod.splits)

lemma slot_load_ext [inv_intros]: "geo_ext s (snd (slot_load s now inst))"
  by (auto simp: slot_load_def intro: inv_intros split: option.splits prod.splits sum.splits)

lemma slot_status_ext [inv_intros]: "geo_ext s (snd (slot_status s now inst))"
  by (cases "check_existing s now inst") (simp add: slot_status_def Let_def check_existing_ext)

lemma slot_lookup_ext [inv_intros]: "geo_ext s (snd (slot_lookup s a ip now inst))"
  by (auto simp: slot_lookup_def split: prod.splits intro!: geo_inv_update lookup_at_epoch)

text \<open>Fields other than the databases, the current address and the floor do not matter.\<close>

lemma geo_ext_observation:
  "geo_ext s (t\<lparr>obs_error := e, checked_at_unix_ms := c\<rparr>) \<longleftrightarrow> geo_ext s t"
  by (simp add: geo_ext_def geo_inv_def)

lemma geo_ext_clear: "geo_ext s t \<Longrightarrow> geo_ext s (t\<lparr>current := None\<rparr>)"
  by (simp add: geo_ext_def geo_inv_def)

lemma geo_ext_set:
  "geo_ext s t \<Longrightarrow> a < length (databases t) \<Longrightarrow> geo_ext s (t\<lparr>current := Some a\<rparr>)"
  by (simp add: geo_ext_def geo_inv_def)

lemma slot_publish_ext [inv_intros]:
  assumes "\<And>a. result = Inr a \<Longrightarrow> a < length (databases s)"
  shows "geo_ext s (slot_publish s result now inst)"
proof -
  obtain r s1 where e: "check_existing s now inst = (r, s1)" by (cases "check_existing s now inst")
  note s1 = check_existing_ext [OF e]
  show ?thesis
  proof (cases result)
    case (Inl err)
    then show ?thesis using s1(1) by (simp add: slot_publish_def e geo_ext_observation geo_ext_clear)
  next
    case (Inr a)
    then have "a < length (databases s1)" using assms s1(2) by simp
    then have set: "geo_ext s (s1\<lparr>current := Some a\<rparr>)" using s1(1) by (rule geo_ext_set [rotated])
    show ?thesis
      unfolding slot_publish_def e Inr Let_def sum.case prod.case if_distrib [of "geo_ext s"] geo_ext_observation
      using s1(1) set geo_ext_clear [OF s1(1)] by (metis (full_types))
  qed
qed

lemma alloc_database_ext:
  assumes "alloc_database s loaded = (result, s0)" and "\<And>db. loaded = Inr db \<Longrightarrow> epoch db < 2 ^ 63"
  shows "geo_ext s s0" "\<And>a. result = Inr a \<Longrightarrow> a < length (databases s0)"
  using assms by (auto simp: alloc_database_def geo_ext_def geo_inv_def split: sum.splits)

lemma refresh_once_ext [inv_intros]:
  assumes "\<And>db. loaded = Inr db \<Longrightarrow> epoch db < 2 ^ 63"
  shows "geo_ext s (refresh_once s stop0 permit loaded stop1 stop2 t1 t2)"
proof -
  obtain result s0 where a: "alloc_database s loaded = (result, s0)" by fastforce
  obtain result' s1 where c: "(case result of Inl e \<Rightarrow> (Inl e, s0)
      | Inr a \<Rightarrow> (case freshness_checked s0 a (fst t1) (snd t1) of
           (Inl e, s') \<Rightarrow> (Inl e, s') | (Inr _, s') \<Rightarrow> (Inr a, s'))) = (result', s1)"
    by fastforce
  note s0 = alloc_database_ext [OF a assms]
  have s1: "geo_ext s0 s1" "\<And>a. result' = Inr a \<Longrightarrow> a < length (databases s1)"
    using c s0(2) freshness_checked_ext by (fastforce split: sum.splits prod.splits)+
  have "geo_ext s s1" using geo_ext_trans [OF s0(1) s1(1)] by simp
  moreover have "geo_ext s (slot_publish s1 result' (fst t2) (snd t2))"
    using geo_ext_trans [OF calculation slot_publish_ext [OF s1(2)]] by simp
  ultimately show ?thesis
    using s0(1) by (simp add: refresh_once_def refresh_finish_def a c)
qed

lemma geo_step_ext: "geo_step s t \<Longrightarrow> geo_ext s t"
  by (induction rule: geo_step.induct) (auto intro: inv_intros)

lemma geo_steps_ext: "geo_steps s t \<Longrightarrow> geo_ext s t"
  by (induction rule: geo_steps.induct) (auto intro: geo_ext_trans geo_step_ext)

lemma slot_load_Some:
  assumes "slot_load s now inst = (Some a, s')" and "geo_inv s"
  shows "current s = Some a" "a < length (databases s)"
    "poisoned_epoch_floor s' \<le> epoch (databases s ! a)" "poisoned_epoch_floor s \<le> poisoned_epoch_floor s'"
    "check_freshness_at (databases s ! a) now inst = (Inr (), databases s ! a)"
proof -
  obtain b r where b: "current s = Some b" and f: "freshness_checked s b now inst = (r, s')" "r = Inr ()" "a = b"
    using assms(1) by (auto simp: slot_load_def split: option.splits prod.splits sum.splits)
  have l: "b < length (databases s)" using assms(2) b by (simp add: geo_inv_def)
  show "current s = Some a" "a < length (databases s)"
    "poisoned_epoch_floor s' \<le> epoch (databases s ! a)" "poisoned_epoch_floor s \<le> poisoned_epoch_floor s'"
    "check_freshness_at (databases s ! a) now inst = (Inr (), databases s ! a)"
    using b l f freshness_checked_verdict [OF f(1) assms(2) l] freshness_checked_ext(1) [OF f(1)]
    by (auto simp: geo_ext_def)
qed

lemma slot_load_None:
  assumes "slot_load s now inst = (None, s')" and "geo_inv s" and "current s = Some a"
  shows "epoch (databases s ! a) < poisoned_epoch_floor s'"
proof -
  obtain r where f: "freshness_checked s a now inst = (r, s')" "r \<noteq> Inr ()"
    using assms(1,3) by (auto simp: slot_load_def split: prod.splits sum.splits)
  have "a < length (databases s)" using assms(2,3) by (simp add: geo_inv_def)
  then show ?thesis using freshness_checked_verdict(1) [OF f(1) assms(2)] f(2) by simp
qed

section \<open>Properties\<close>

lemma new_slot_inv: "new_slot source = Inr s \<Longrightarrow> geo_inv s"
  by (auto simp: new_slot_def geo_inv_def)

lemma refresh_error_closes:
  "current (refresh_once s False True (Inl e) False False t1 t2) = None"
  by (simp add: refresh_once_def refresh_finish_def alloc_database_def slot_publish_def Let_def
      split: prod.split)

text \<open>
  C7. No revival: once the slot has found its published database stale (or the clock behind
  its build time), no later sequence of loads, status reads, lookups and reloads makes the
  slot hand out a database of the same or an older build epoch, whatever the clocks say.
\<close>

theorem stale_epoch_never_revived:
  assumes "geo_inv s" and "current s = Some a" and "slot_load s now inst = (None, s1)"
    and "geo_steps s1 s2" and "slot_load s2 now' inst' = (Some b, s3)"
  shows "epoch (databases s ! a) < epoch (databases s2 ! b)"
proof -
  have "geo_inv s1" using assms(1,3) slot_load_ext [of s now inst] by (simp add: geo_ext_def)
  then have "geo_inv s2" "poisoned_epoch_floor s1 \<le> poisoned_epoch_floor s2"
    using geo_steps_ext [OF assms(4)] by (auto simp: geo_ext_def)
  then show ?thesis
    using slot_load_None [OF assms(3,1,2)] slot_load_Some(3,4) [OF assms(5)] by simp
qed

definition newer_database :: database where
  "newer_database = demo_database\<lparr>db_status := (db_status demo_database)\<lparr>build_epoch_unix_seconds := 1500\<rparr>,
     build_time := 1500000000000, expires_at := 2500000000000, expires_deadline := 5000000000000\<rparr>"

definition demo_slot :: geo_slot where
  "demo_slot = \<lparr>databases = [demo_database], current = Some 0, obs_error = None,
     checked_at_unix_ms = None, poisoned_epoch_floor = 0\<rparr>"

lemmas slot_eval =
  demo_slot_def demo_database_def newer_database_def slot_load_def slot_publish_def refresh_once_def
  refresh_finish_def alloc_database_def check_existing_def freshness_checked_def check_freshness_at_eq
  poison_def is_poisoned_def freshness_error_def Let_def

theorem stale_epoch_never_revived_witness:
  "epoch (databases demo_slot ! 0)
   < epoch (databases (refresh_once (snd (slot_load demo_slot 2001000000000 0)) False True (Inr newer_database)
                         False False (2001000000000, 0) (2001000000000, 0)) ! 1)"
proof -
  let ?s1 = "snd (slot_load demo_slot 2001000000000 0)"
  let ?s2 = "refresh_once ?s1 False True (Inr newer_database) False False (2001000000000, 0) (2001000000000, 0)"
  have i: "geo_inv demo_slot" "current demo_slot = Some 0" by (simp_all add: geo_inv_def slot_eval)
  have l: "slot_load demo_slot 2001000000000 0 = (None, ?s1)" by (simp add: slot_eval)
  have st: "geo_steps ?s1 ?s2"
    by (rule geo_steps_step [OF geo_steps_refl step_refresh]) (simp add: newer_database_def)
  have "slot_load ?s2 2001000000000 0 = (Some 1, snd (slot_load ?s2 2001000000000 0))"
    by (simp add: slot_eval)
  then show ?thesis by (rule stale_epoch_never_revived [OF i l st])
qed

text \<open>
  C29. Fail closed: in every state a run of a new slot reaches, a database handed out is
  inside its lifetime by both clocks, was never seen stale, and has an epoch above every epoch
  that failed; and a reload whose loader fails leaves nothing to hand out.
\<close>

theorem slot_fail_closed:
  assumes "new_slot source = Inr s0" and "geo_steps s0 s"
  shows "(\<forall>a s'. slot_load s now inst = (Some a, s') \<longrightarrow>
      build_time (databases s ! a) \<le> now \<and> now \<le> expires_at (databases s ! a)
      \<and> inst < expires_deadline (databases s ! a)
      \<and> freshness_failure (databases s ! a) = FRESH
      \<and> poisoned_epoch_floor s' \<le> epoch (databases s ! a))
    \<and> fst (slot_load (refresh_once s False True (Inl e) False False t1 t2) now inst) = None"
proof -
  have inv: "geo_inv s" using new_slot_inv [OF assms(1)] geo_steps_ext [OF assms(2)] by (simp add: geo_ext_def)
  have "fst (slot_load (refresh_once s False True (Inl e) False False t1 t2) now inst) = None"
    by (simp add: slot_load_def refresh_error_closes)
  moreover have "build_time (databases s ! a) \<le> now \<and> now \<le> expires_at (databases s ! a)
      \<and> inst < expires_deadline (databases s ! a) \<and> freshness_failure (databases s ! a) = FRESH
      \<and> poisoned_epoch_floor s' \<le> epoch (databases s ! a)"
    if "slot_load s now inst = (Some a, s')" for a s'
    using slot_load_Some [OF that inv] check_freshness_ok [OF slot_load_Some(5) [OF that inv]] by simp
  ultimately show ?thesis by blast
qed

definition demo_source :: geoip_source where
  "demo_source = \<lparr>src_file = ''/var/geo.mmdb'', src_max_file_bytes = 1024, src_max_age_days = 14,
     src_reload_interval_seconds = 30\<rparr>"

theorem slot_fail_closed_witness:
  "\<exists>s0. new_slot demo_source = Inr s0
    \<and> fst (slot_load (refresh_once s0 False True (Inl Unavailable) False False (5, 5) (5, 5)) 5 5) = None"
proof -
  have "validate_source demo_source = Inr ()" by code_simp
  then obtain s0 where s0: "new_slot demo_source = Inr s0" by (simp add: new_slot_def)
  then show ?thesis using slot_fail_closed [OF s0 geo_steps_refl] by blast
qed

lemma normalize_no_parent:
  "try_fold normalize_step st cs = Inr st' \<Longrightarrow> ParentDir \<notin> set cs"
  by (induction cs arbitrary: st) (auto simp: normalize_step_def split: prod.splits path_component.splits sum.splits)

text \<open>
  A validated source names an absolute path without a \<open>..\<close> segment and without a NUL
  byte, and its limits are those \<^verbatim>\<open>load_at\<close> requires: a load of it never fails with
  \<^verbatim>\<open>InvalidLimits\<close> or \<^verbatim>\<open>InvalidPath\<close>.
\<close>

theorem validated_source_loads:
  assumes "validate_source src = Inr ()"
  shows "prefix ''/'' (src_file src) \<and> CHR 0x00 \<notin> set (src_file src)
    \<and> ''..'' \<notin> set (split_on (CHR ''/'') (src_file src))
    \<and> load_at digest_hex open_reader verify_reader fs (src_file src) (src_max_file_bytes src)
        (src_max_age_days src * 86400 * NANOS) now inst \<notin> {Inl InvalidLimits, Inl InvalidPath}"
proof -
  have v: "src_max_file_bytes src \<noteq> 0" "src_max_file_bytes src \<le> MAX_FILE_BYTES" "src_max_age_days src \<noteq> 0"
    "src_max_age_days src * 86400 \<le> MAX_AGE_SECONDS"
    and p: "prefix ''/'' (src_file src)" "CHR 0x00 \<notin> set (src_file src)"
    and f: "\<exists>st. try_fold normalize_step ([], False) (path_components (src_file src)) = Inr st"
    using assms by (auto simp: validate_source_def split: if_splits)
  have "ParentDir \<notin> set (path_components (src_file src))" using f normalize_no_parent by blast
  then have "''..'' \<notin> set (split_on (CHR ''/'') (src_file src))"
    by (force simp: path_components_def)
  moreover have "r \<noteq> Inl InvalidLimits \<and> r \<noteq> Inl InvalidPath"
    if "r = load_at digest_hex open_reader verify_reader fs (src_file src) (src_max_file_bytes src)
        (src_max_age_days src * 86400 * NANOS) now inst" for r
    using v p that by (auto simp: load_at_def read_bounded_def split: if_splits)
  ultimately show ?thesis using p by blast
qed

theorem validated_source_loads_witness:
  "validate_source demo_source = Inr () \<and> prefix ''/'' (src_file demo_source)"
proof -
  have v: "validate_source demo_source = Inr ()" by code_simp
  show ?thesis using v validated_source_loads [OF v] by blast
qed

end
