(* ===== verification/CountryPolicy.thy ===== *)
theory CountryPolicy
  imports GeoIpSlot
begin

text \<open>
  \<^verbatim>\<open>src/country_policy.rs\<close> and \<^verbatim>\<open>src/country_observation.rs\<close>: the country rule of a route
  and the one lookup result that policies, telemetry and scripts share.
\<close>

section \<open>country\_policy.rs\<close>

datatype unknown_action = AllowUnknown | DenyUnknown

record country_policy =
  cp_allow :: "string list"
  cp_deny :: "string list"
  on_unknown :: unknown_action
  cp_enforce :: bool

datatype policy_error =
    EmptyPolicy | TooManyCountryCodes | InvalidCountryCode | DuplicateCountryCode
  | UnknownCannotSatisfyAllowlist

text \<open>The \<^verbatim>\<open>Display\<close> text of an error.\<close>

fun policy_error_text :: "policy_error \<Rightarrow> string" where
  "policy_error_text EmptyPolicy = ''country policy requires at least one allow or deny country''"
| "policy_error_text TooManyCountryCodes = ''country policy has too many country codes''"
| "policy_error_text InvalidCountryCode = ''country policy requires two uppercase ASCII letters''"
| "policy_error_text DuplicateCountryCode = ''country policy repeats a country code within a list''"
| "policy_error_text UnknownCannotSatisfyAllowlist =
     ''unknown country cannot be allowed when an allowlist is configured''"

record compiled_country_policy =
  cc_allow :: "string set"
  cc_deny :: "string set"
  cc_on_unknown :: unknown_action
  cc_enforce :: bool

abbreviation (input) MAX_COUNTRY_CODES :: nat where
  "MAX_COUNTRY_CODES \<equiv> 256"

definition valid_country_code :: "string \<Rightarrow> bool" where
  "valid_country_code v \<longleftrightarrow> length v = 2 \<and> list_all is_ascii_upper v"

definition check_country_code :: "string \<Rightarrow> policy_error + unit" where
  "check_country_code code = ensure (valid_country_code code) InvalidCountryCode"

definition compile_country :: "country_policy \<Rightarrow> policy_error + compiled_country_policy" where
  "compile_country p =
     (if cp_allow p = [] \<and> cp_deny p = [] then Inl EmptyPolicy
      else if length (cp_allow p) + length (cp_deny p) > MAX_COUNTRY_CODES then Inl TooManyCountryCodes
      else if cp_allow p \<noteq> [] \<and> on_unknown p = AllowUnknown then Inl UnknownCannotSatisfyAllowlist
      else res_bind (check_distinct check_country_code DuplicateCountryCode [] (cp_allow p)) (\<lambda>_.
           res_bind (check_distinct check_country_code DuplicateCountryCode [] (cp_deny p)) (\<lambda>_.
           Inr \<lparr>cc_allow = set (cp_allow p), cc_deny = set (cp_deny p),
                cc_on_unknown = on_unknown p, cc_enforce = cp_enforce p\<rparr>)))"

definition validate_country :: "country_policy \<Rightarrow> policy_error + unit" where
  "validate_country p = res_bind (compile_country p) (\<lambda>_. Inr ())"

definition evaluate_code :: "compiled_country_policy \<Rightarrow> string option \<Rightarrow> bool" where
  "evaluate_code p country =
     (if \<not> cc_enforce p then True
      else (case country of
              None \<Rightarrow> cc_on_unknown p = AllowUnknown
            | Some c \<Rightarrow> c \<notin> cc_deny p \<and> (cc_allow p = {} \<or> c \<in> cc_allow p)))"

section \<open>country\_observation.rs\<close>

datatype obs_state = NotChecked | NotConfigured | Known | Unknown | UnavailableState

record observation =
  ob_state :: obs_state
  ob_country :: "string option"
  ob_generation :: "string option"
  ob_error :: "string option"

definition default_observation :: observation where
  "default_observation = \<lparr>ob_state = NotChecked, ob_country = None, ob_generation = None, ob_error = None\<rparr>"

definition valid_error_code :: "string \<Rightarrow> bool" where
  "valid_error_code code \<longleftrightarrow>
     code \<in> {''pending'', ''invalid_limits'', ''invalid_path'', ''unavailable'', ''not_regular_file'',
        ''too_large'', ''changed_during_read'', ''invalid_database'', ''unsupported_database'',
        ''stale_database'', ''future_database'', ''clock'', ''invalid_record''}"

definition lower_hex64 :: "string \<Rightarrow> bool" where
  "lower_hex64 d \<longleftrightarrow>
     length d = 64 \<and> list_all (\<lambda>b. is_ascii_digit b \<or> (97 \<le> byte b \<and> byte b \<le> 102)) d"

definition validate_observation :: "observation \<Rightarrow> string + unit" where
  "validate_observation o' =
     (if (case ob_country o' of None \<Rightarrow> False | Some c \<Rightarrow> length c \<noteq> 2 \<or> \<not> list_all is_ascii_upper c)
      then Inl ''country must be two uppercase ASCII letters''
      else if (case ob_generation o' of None \<Rightarrow> False | Some d \<Rightarrow> \<not> lower_hex64 d)
      then Inl ''generation_sha256 must be lowercase SHA-256 hex''
      else if (case ob_error o' of None \<Rightarrow> False | Some c \<Rightarrow> \<not> valid_error_code c)
      then Inl ''error_code must be a safe GeoIP provider code''
      else
        ensure
          (case ob_state o' of
             NotChecked \<Rightarrow> ob_country o' = None \<and> ob_generation o' = None \<and> ob_error o' = None
           | NotConfigured \<Rightarrow> ob_country o' = None \<and> ob_generation o' = None \<and> ob_error o' = None
           | Known \<Rightarrow> ob_country o' \<noteq> None \<and> ob_generation o' \<noteq> None \<and> ob_error o' = None
           | Unknown \<Rightarrow> ob_country o' = None \<and> ob_generation o' \<noteq> None \<and> ob_error o' = None
           | UnavailableState \<Rightarrow> ob_country o' = None \<and> ob_error o' \<noteq> None)
          ''country observation fields conflict with state'')"

text \<open>\<^verbatim>\<open>Observation::deserialize\<close> after the wire form has been read: only valid values pass.\<close>

definition observation_of_wire ::
  "obs_state \<Rightarrow> string option \<Rightarrow> string option \<Rightarrow> string option \<Rightarrow> string + observation" where
  "observation_of_wire st c g e =
     (let o' = \<lparr>ob_state = st, ob_country = c, ob_generation = g, ob_error = e\<rparr>
      in res_bind (validate_observation o') (\<lambda>_. Inr o'))"

text \<open>\<^term>\<open>Inl ()\<close> is \<^verbatim>\<open>PolicyUnavailable\<close>.\<close>

definition policy_country :: "observation \<Rightarrow> unit + string option" where
  "policy_country o' =
     res_bind (map_err (\<lambda>_. ()) (validate_observation o')) (\<lambda>_.
       case ob_state o' of
         Known \<Rightarrow> res_bind (ok_or () (ob_country o')) (\<lambda>c. Inr (Some c))
       | Unknown \<Rightarrow> Inr None
       | _ \<Rightarrow> Inl ())"

text \<open>
  \<^verbatim>\<open>capture\<close>: the clocks are read once for \<^verbatim>\<open>slot.load()\<close> and once more for the status or
  the lookup.
\<close>

definition capture ::
  "geo_slot option \<Rightarrow> ip_addr \<Rightarrow> system_time \<times> instant \<Rightarrow> system_time \<times> instant
   \<Rightarrow> observation \<times> geo_slot option" where
  "capture slot ip t1 t2 =
     (case slot of
        None \<Rightarrow> (default_observation\<lparr>ob_state := NotConfigured\<rparr>, None)
      | Some s \<Rightarrow>
          (case slot_load s (fst t1) (snd t1) of
             (None, s1) \<Rightarrow>
               (let (status, s2) = slot_status s1 (fst t2) (snd t2);
                    code = (case status_error_code status of None \<Rightarrow> ''pending'' | Some c \<Rightarrow> c)
                in (default_observation\<lparr>ob_state := UnavailableState, ob_error := Some code\<rparr>, Some s2))
           | (Some a, s1) \<Rightarrow>
               (let digest = generation_sha256 (db_status (databases s1 ! a));
                    (r, s2) = slot_lookup s1 a ip (fst t2) (snd t2)
                in (case r of
                      Inr (Some country) \<Rightarrow>
                        \<lparr>ob_state = Known, ob_country = Some country, ob_generation = Some digest, ob_error = None\<rparr>
                    | Inr None \<Rightarrow>
                        \<lparr>ob_state = Unknown, ob_country = None, ob_generation = Some digest, ob_error = None\<rparr>
                    | Inl e \<Rightarrow>
                        \<lparr>ob_state = UnavailableState, ob_country = None, ob_generation = Some digest,
                         ob_error = Some (geoip_error_code e)\<rparr>,
                    Some s2))))"

section \<open>Lemmas\<close>

lemma compile_country_Inr:
  assumes "compile_country p = Inr c"
  shows "c = \<lparr>cc_allow = set (cp_allow p), cc_deny = set (cp_deny p),
      cc_on_unknown = on_unknown p, cc_enforce = cp_enforce p\<rparr>"
    and "cp_allow p \<noteq> [] \<or> cp_deny p \<noteq> []"
    and "cp_allow p = [] \<or> on_unknown p = DenyUnknown"
    and "list_all valid_country_code (cp_allow p @ cp_deny p)"
    and "distinct (cp_allow p)" "distinct (cp_deny p)"
  using assms
  by (auto simp: compile_country_def check_distinct_Inr check_country_code_def list_all_iff
      split: if_splits intro: unknown_action.exhaust)

lemma error_code_valid: "valid_error_code (geoip_error_code e)"
  by (cases e) (simp_all add: valid_error_code_def)

definition geo_digests :: "geo_slot \<Rightarrow> bool" where
  "geo_digests s \<longleftrightarrow> list_all (\<lambda>db. lower_hex64 (generation_sha256 (db_status db))) (databases s)"

lemma slot_load_database:
  assumes "slot_load s now inst = (Some a, s')" and "geo_inv s"
  shows "databases s' ! a = databases s ! a"
proof -
  obtain r where f: "freshness_checked s a now inst = (r, s')" "r = Inr ()"
    using assms(1) by (auto simp: slot_load_def split: option.splits prod.splits sum.splits)
  have "a < length (databases s)" using slot_load_Some(2) [OF assms] .
  then show ?thesis
    using f freshness_checked_verdict(2) [OF f(1) assms(2)]
    by (auto simp: freshness_checked_def Let_def split: if_splits)
qed

lemma status_error_valid:
  "status_error_code (fst (slot_status s now inst)) = Some c \<Longrightarrow> valid_error_code c"
  by (cases "check_existing s now inst")
    (auto simp: slot_status_def Let_def error_code_valid split: if_splits)

lemma lookup_country:
  assumes "lookup_at db ip now inst = (Inr (Some c), db')"
  shows "length c = 2" "list_all is_ascii_upper c"
  using assms
  by (auto simp: lookup_at_def Let_def country_code_from_db_def
      split: prod.splits sum.splits option.splits if_splits)

section \<open>Properties\<close>

text \<open>
  A compiled country policy that is enforced decides by its lists alone: a known country
  is admitted exactly when it is not denied and the allow list is empty or names it; an
  unknown one exactly when there is no allow list and the policy says so. Every listed code is
  two upper-case letters.
\<close>

theorem country_policy_decision:
  assumes "compile_country p = Inr c" and "cp_enforce p"
  shows "(evaluate_code c country \<longleftrightarrow>
      (case country of
         None \<Rightarrow> cp_allow p = [] \<and> on_unknown p = AllowUnknown
       | Some k \<Rightarrow> k \<notin> set (cp_deny p) \<and> (cp_allow p = [] \<or> k \<in> set (cp_allow p))))
    \<and> list_all valid_country_code (cp_allow p @ cp_deny p)"
proof -
  note c = compile_country_Inr [OF assms(1)]
  show ?thesis using assms(2) c(3,4) unfolding c(1) by (auto simp: evaluate_code_def split: option.splits)
qed

definition demo_country :: country_policy where
  "demo_country = \<lparr>cp_allow = [''NL'', ''KR''], cp_deny = [''US''], on_unknown = DenyUnknown, cp_enforce = True\<rparr>"

theorem country_policy_decision_witness:
  "\<exists>c. compile_country demo_country = Inr c \<and> evaluate_code c (Some ''KR'') \<and> \<not> evaluate_code c None"
proof -
  have "\<exists>c. compile_country demo_country = Inr c"
    by (simp add: compile_country_def demo_country_def check_country_code_def valid_country_code_def
        is_ascii_upper_def ensure_def)
  then obtain c where c: "compile_country demo_country = Inr c" ..
  have e: "cp_enforce demo_country" by (simp add: demo_country_def)
  show ?thesis using c country_policy_decision [OF c e, of "Some ''KR''"] country_policy_decision [OF c e, of None]
    by (auto simp: demo_country_def)
qed

text \<open>
  An observation captured from a slot is always a valid value for the other processes,
  and it becomes policy input only when the slot handed out a database and the lookup in it
  succeeded: a missing, pending, stale or failing database is never an unknown country.
\<close>

theorem capture_policy_input:
  assumes "geo_inv s" and "geo_digests s"
  shows "validate_observation (fst (capture (Some s) ip t1 t2)) = Inr ()
    \<and> (\<forall>c. policy_country (fst (capture (Some s) ip t1 t2)) = Inr c \<longrightarrow>
         (\<exists>a s1. slot_load s (fst t1) (snd t1) = (Some a, s1)
            \<and> fst (lookup_at (databases s ! a) ip (fst t2) (snd t2)) = Inr c))"
proof (cases "slot_load s (fst t1) (snd t1)")
  case (Pair got s1)
  show ?thesis
  proof (cases got)
    case None
    obtain st s2 where st: "slot_status s1 (fst t2) (snd t2) = (st, s2)" by fastforce
    have "valid_error_code (case status_error_code st of None \<Rightarrow> ''pending'' | Some c \<Rightarrow> c)"
      using status_error_valid [of s1 "fst t2" "snd t2"] st
      by (auto simp: valid_error_code_def [of "''pending''"] split: option.split)
    then show ?thesis using Pair None st
      by (simp add: capture_def default_observation_def validate_observation_def policy_country_def)
  next
    case (Some a)
    note l = Pair [unfolded Some]
    obtain r db' where r: "lookup_at (databases s ! a) ip (fst t2) (snd t2) = (r, db')" by fastforce
    have d: "lower_hex64 (generation_sha256 (db_status (databases s ! a)))"
      using assms(2) slot_load_Some(2) [OF l assms(1)] by (simp add: geo_digests_def list_all_length)
    show ?thesis
      using r d lookup_country [of "databases s ! a" ip "fst t2" "snd t2" _ db'] error_code_valid
      by (cases r; cases "projr r")
        (auto simp: capture_def l slot_load_database [OF l assms(1)] slot_lookup_def
          validate_observation_def policy_country_def)
  qed
qed

theorem capture_policy_input_witness:
  "validate_observation (fst (capture (Some demo_slot) (V4 1) (1500000000000, 0) (1500000000000, 0))) = Inr ()"
proof -
  have i: "geo_inv demo_slot" by (simp add: geo_inv_def slot_eval)
  have d: "geo_digests demo_slot" by (simp add: geo_digests_def lower_hex64_def slot_eval list_all_iff)
  show ?thesis using capture_policy_input [OF i d] by blast
qed

end
