(* ===== verification/PathAllowlists.thy ===== *)
theory PathAllowlists
  imports PathBlocks CountryPolicy
begin

text \<open>
  \<^verbatim>\<open>src/path_allowlists.rs\<close>: URL-local allow lists by verified client address and country.
  The \<^verbatim>\<open>ipnet\<close> crate is not part of the repository: a network is a value of a type parameter
  \<open>'net\<close>, \<open>net_contains\<close> is \<^verbatim>\<open>IpNet::contains\<close> and \<open>net_text\<close> is \<^verbatim>\<open>to_string().len()\<close>.
\<close>

record 'net allowlist_rule =
  al_path :: string
  al_hosts :: "string list"
  al_include_subpaths :: bool
  allow_cidrs :: "'net list"
  allow_countries :: "string list"

definition al_country_policy :: "'net allowlist_rule \<Rightarrow> country_policy" where
  "al_country_policy rule =
     \<lparr>cp_allow = allow_countries rule, cp_deny = [], on_unknown = DenyUnknown, cp_enforce = True\<rparr>"

definition al_selector :: "'net allowlist_rule \<Rightarrow> block_rule" where
  "al_selector rule = \<lparr>block_path = al_path rule, block_hosts = al_hosts rule\<rparr>"

definition al_rule_text :: "('net \<Rightarrow> nat) \<Rightarrow> 'net allowlist_rule \<Rightarrow> nat" where
  "al_rule_text net_text rule =
     length (al_path rule) + sum_list (map length (al_hosts rule))
     + sum_list (map net_text (allow_cidrs rule)) + sum_list (map length (allow_countries rule))"

text \<open>The body of the validation loop; \<open>before\<close> are the rules in front of this one.\<close>

definition validate_allowlist_rule ::
  "('net \<Rightarrow> nat) \<Rightarrow> 'net allowlist_rule list \<times> nat \<Rightarrow> 'net allowlist_rule
   \<Rightarrow> string + 'net allowlist_rule list \<times> nat" where
  "validate_allowlist_rule net_text st rule =
     (case st of (before, text_bytes) \<Rightarrow>
        let text_bytes' = text_bytes + al_rule_text net_text rule
        in res_bind
             (first_error
                [ensure (rule \<notin> set before) ''duplicate path allowlist rule'',
                 ensure (allow_cidrs rule \<noteq> [] \<or> allow_countries rule \<noteq> [])
                   ''path allowlist requires IP ranges or countries'',
                 ensure (length (allow_cidrs rule) \<le> 1024) ''path allowlist allows at most 1024 IP ranges'',
                 ensure (length (allow_countries rule) \<le> 256) ''path allowlist allows at most 256 countries'',
                 (if allow_countries rule \<noteq> [] then
                    map_err policy_error_text (validate_country (al_country_policy rule))
                  else Inr ()),
                 check_distinct (\<lambda>_. Inr ()) ''duplicate path allowlist IP range'' [] (allow_cidrs rule),
                 ensure (text_bytes' \<le> 32 * 1024) ''path allowlists exceed 32 KiB''])
             (\<lambda>_. Inr (before @ [rule], text_bytes')))"

definition validate_allowlists :: "('net \<Rightarrow> nat) \<Rightarrow> 'net allowlist_rule list \<Rightarrow> string + unit" where
  "validate_allowlists net_text rules =
     first_error
       [ensure (length rules \<le> 128) ''path allowlists allow at most 128 rules'',
        validate_path_blocks (map al_selector rules),
        res_bind (try_fold (validate_allowlist_rule net_text) ([], 0) rules) (\<lambda>_. Inr ())]"

record 'net compiled_allowlist =
  cl_selector :: block_rule
  cl_include_subpaths :: bool
  cl_allow_cidrs :: "'net list"
  cl_countries :: "compiled_country_policy option"

definition compile_allowlist :: "'net allowlist_rule \<Rightarrow> string + 'net compiled_allowlist" where
  "compile_allowlist rule =
     res_bind (if allow_countries rule = [] then Inr None
               else map_err policy_error_text
                      (res_bind (compile_country (al_country_policy rule)) (\<lambda>c. Inr (Some c))))
       (\<lambda>countries. Inr \<lparr>cl_selector = al_selector rule, cl_include_subpaths = al_include_subpaths rule,
          cl_allow_cidrs = allow_cidrs rule, cl_countries = countries\<rparr>)"

text \<open>\<^verbatim>\<open>iter().map(f).collect::<Result<Vec<_>>>()\<close>\<close>

fun collect_results :: "('a \<Rightarrow> 'e + 'b) \<Rightarrow> 'a list \<Rightarrow> 'e + 'b list" where
  "collect_results f [] = Inr []"
| "collect_results f (x # xs) = res_bind (f x) (\<lambda>y. res_bind (collect_results f xs) (\<lambda>ys. Inr (y # ys)))"

definition prepare_allowlists ::
  "('net \<Rightarrow> nat) \<Rightarrow> 'net allowlist_rule list \<Rightarrow> string + 'net compiled_allowlist list" where
  "prepare_allowlists net_text rules =
     res_bind (validate_allowlists net_text rules) (\<lambda>_. collect_results compile_allowlist rules)"

definition country_admit :: "compiled_country_policy \<Rightarrow> observation \<Rightarrow> nat + unit" where
  "country_admit policy observed =
     res_bind (map_err (\<lambda>_. 503) (policy_country observed))
       (\<lambda>country. if \<not> evaluate_code policy country then Inl 403 else Inr ())"

text \<open>
  The loop of \<^verbatim>\<open>check\<close>; its state is the observation taken so far. \<open>lookup\<close> is
  \<^verbatim>\<open>country_observation::capture(slot, ip)\<close>, evaluated at most once.
\<close>

definition allowlist_step ::
  "http_lib \<Rightarrow> ('net \<Rightarrow> ip_addr \<Rightarrow> bool) \<Rightarrow> request \<Rightarrow> string option \<Rightarrow> ip_addr \<Rightarrow> observation
   \<Rightarrow> observation option \<Rightarrow> 'net compiled_allowlist \<Rightarrow> nat + observation option" where
  "allowlist_step L net_contains r forwarded_host ip looked_up observed rule =
     res_bind (selector_matches L (cl_selector rule) r forwarded_host (cl_include_subpaths rule)) (\<lambda>selected.
       if \<not> selected then Inr observed
       else if cl_allow_cidrs rule \<noteq> [] \<and> \<not> list_ex (\<lambda>net. net_contains net ip) (cl_allow_cidrs rule)
       then Inl 403
       else (case cl_countries rule of
               None \<Rightarrow> Inr observed
             | Some policy \<Rightarrow>
                 (let country = (case observed of Some c \<Rightarrow> c | None \<Rightarrow> looked_up)
                  in res_bind (country_admit policy country) (\<lambda>_. Inr (Some country)))))"

definition allowlists_check ::
  "http_lib \<Rightarrow> ('net \<Rightarrow> ip_addr \<Rightarrow> bool) \<Rightarrow> 'net compiled_allowlist list \<Rightarrow> request \<Rightarrow> string option
   \<Rightarrow> ip_addr \<Rightarrow> (ip_addr \<Rightarrow> observation) \<Rightarrow> nat + observation option" where
  "allowlists_check L net_contains compiled r forwarded_host verified_ip lookup =
     (let ip = to_canonical verified_ip
      in try_fold (allowlist_step L net_contains r forwarded_host ip (lookup ip)) None compiled)"

section \<open>Lemmas\<close>

lemma validate_allowlists_rule:
  assumes "try_fold (validate_allowlist_rule net_text) st rules = Inr st'" and "rule \<in> set rules"
    and "allow_countries rule \<noteq> []"
  shows "\<exists>c. compile_country (al_country_policy rule) = Inr c"
proof -
  obtain st0 st1 where "validate_allowlist_rule net_text st0 rule = Inr st1"
    using try_fold_element [OF assms(1,2)] by blast
  then have "map_err policy_error_text (validate_country (al_country_policy rule)) = Inr ()"
    using assms(3) by (auto simp: validate_allowlist_rule_def Let_def split: prod.splits)
  then show ?thesis
    by (cases "compile_country (al_country_policy rule)") (auto simp: validate_country_def)
qed

lemma collect_results_total:
  "(\<And>x. x \<in> set xs \<Longrightarrow> \<exists>y. f x = Inr y) \<Longrightarrow> \<exists>ys. collect_results f xs = Inr ys"
  by (induction xs) fastforce+

lemma collect_results_list_all2:
  "collect_results f xs = Inr ys \<Longrightarrow> list_all2 (\<lambda>x y. f x = Inr y) xs ys"
  by (induction xs arbitrary: ys) auto

lemma compile_allowlist_total:
  assumes "validate_allowlists net_text rules = Inr ()" and "rule \<in> set rules"
  shows "\<exists>c. compile_allowlist rule = Inr c"
proof (cases "allow_countries rule = []")
  case False
  obtain st where "try_fold (validate_allowlist_rule net_text) ([], 0) rules = Inr st"
    using assms(1) by (auto simp: validate_allowlists_def)
  then obtain c where "compile_country (al_country_policy rule) = Inr c"
    using validate_allowlists_rule assms(2) False by blast
  then show ?thesis using False by (simp add: compile_allowlist_def)
qed (simp add: compile_allowlist_def)

text \<open>What a rule requires of an admitted request.\<close>

definition allowlist_satisfied ::
  "('net \<Rightarrow> ip_addr \<Rightarrow> bool) \<Rightarrow> ip_addr \<Rightarrow> observation \<Rightarrow> 'net allowlist_rule \<Rightarrow> bool" where
  "allowlist_satisfied net_contains ip observed rule \<longleftrightarrow>
     (allow_cidrs rule = [] \<or> (\<exists>net\<in>set (allow_cidrs rule). net_contains net ip))
     \<and> (allow_countries rule = []
        \<or> (\<exists>k\<in>set (allow_countries rule). policy_country observed = Inr (Some k)))"

lemma country_admit_listed:
  assumes "compile_country (al_country_policy rule) = Inr p" and "country_admit p observed = Inr ()"
    and "allow_countries rule \<noteq> []"
  shows "\<exists>k\<in>set (allow_countries rule). policy_country observed = Inr (Some k)"
proof -
  obtain c where c: "policy_country observed = Inr c" "evaluate_code p c"
    using assms(2) by (cases "policy_country observed") (auto simp: country_admit_def split: if_splits)
  then show ?thesis using assms(3) unfolding compile_country_Inr(1) [OF assms(1)]
    by (cases c) (auto simp: evaluate_code_def al_country_policy_def)
qed

lemma allowlist_step_ok:
  assumes "allowlist_step L nc r fh ip obs observed c = Inr out" and "compile_allowlist rule = Inr c"
    and "observed = None \<or> observed = Some obs"
  shows "out = None \<or> out = Some obs"
    and "selector_matches L (al_selector rule) r fh (al_include_subpaths rule) = Inr True
      \<Longrightarrow> allowlist_satisfied nc ip obs rule"
    and "\<exists>b. selector_matches L (al_selector rule) r fh (al_include_subpaths rule) = Inr b"
proof -
  have cc: "(case observed of Some c \<Rightarrow> c | None \<Rightarrow> obs) = obs" using assms(3) by (auto split: option.split)
  have c: "cl_selector c = al_selector rule" "cl_include_subpaths c = al_include_subpaths rule"
    "cl_allow_cidrs c = allow_cidrs rule" using assms(2) by (auto simp: compile_allowlist_def)
  show "out = None \<or> out = Some obs"
    using assms(1,3) by (auto simp: allowlist_step_def cc split: if_splits option.splits)
  show "\<exists>b. selector_matches L (al_selector rule) r fh (al_include_subpaths rule) = Inr b"
    using assms(1) by (auto simp: allowlist_step_def c)
  assume "selector_matches L (al_selector rule) r fh (al_include_subpaths rule) = Inr True"
  then have nets: "allow_cidrs rule = [] \<or> (\<exists>net\<in>set (allow_cidrs rule). nc net ip)"
    and adm: "\<And>p. cl_countries c = Some p \<Longrightarrow> country_admit p obs = Inr ()"
    using assms(1) by (auto simp: allowlist_step_def c cc list_ex_iff split: if_splits)
  have "allow_countries rule = [] \<or> (\<exists>k\<in>set (allow_countries rule). policy_country obs = Inr (Some k))"
  proof (cases "allow_countries rule = []")
    case False
    then obtain p where "compile_country (al_country_policy rule) = Inr p" "cl_countries c = Some p"
      using assms(2)
      by (cases "compile_country (al_country_policy rule)") (auto simp: compile_allowlist_def)
    then show ?thesis using country_admit_listed adm False by blast
  qed simp
  then show "allowlist_satisfied nc ip obs rule" using nets by (simp add: allowlist_satisfied_def)
qed

lemma allowlist_step_complete:
  assumes "compile_allowlist rule = Inr c" and "observed = None \<or> observed = Some obs"
    and "selector_matches L (al_selector rule) r fh (al_include_subpaths rule) = Inr b"
    and "b \<Longrightarrow> allowlist_satisfied nc ip obs rule"
  shows "\<exists>out. allowlist_step L nc r fh ip obs observed c = Inr out"
proof -
  have cc: "(case observed of Some c \<Rightarrow> c | None \<Rightarrow> obs) = obs" using assms(2) by (auto split: option.split)
  have c: "cl_selector c = al_selector rule" "cl_include_subpaths c = al_include_subpaths rule"
    "cl_allow_cidrs c = allow_cidrs rule" using assms(1) by (auto simp: compile_allowlist_def)
  have adm: "country_admit p obs = Inr ()" if b and p: "cl_countries c = Some p" for p
  proof -
    have ne: "allow_countries rule \<noteq> []" using assms(1) p by (auto simp: compile_allowlist_def)
    have "compile_country (al_country_policy rule) = Inr p"
      using assms(1) p ne by (cases "compile_country (al_country_policy rule)") (auto simp: compile_allowlist_def)
    note p = compile_country_Inr(1) [OF this]
    obtain k where k: "k \<in> set (allow_countries rule)" "policy_country obs = Inr (Some k)"
      using assms(4) [OF \<open>b\<close>] ne by (auto simp: allowlist_satisfied_def)
    then show ?thesis
      by (simp add: p country_admit_def evaluate_code_def al_country_policy_def)
  qed
  show ?thesis
  proof (cases b)
    case True
    then show ?thesis using assms(3,4) adm
      by (cases "cl_countries c") (auto simp: allowlist_step_def c cc allowlist_satisfied_def list_ex_iff)
  qed (use assms(3) in \<open>simp add: allowlist_step_def c\<close>)
qed

definition allowlist_admits ::
  "http_lib \<Rightarrow> ('net \<Rightarrow> ip_addr \<Rightarrow> bool) \<Rightarrow> request \<Rightarrow> string option \<Rightarrow> ip_addr \<Rightarrow> observation
   \<Rightarrow> 'net allowlist_rule \<Rightarrow> bool" where
  "allowlist_admits L nc r fh ip obs rule \<longleftrightarrow>
     (\<exists>b. selector_matches L (al_selector rule) r fh (al_include_subpaths rule) = Inr b
        \<and> (b \<longrightarrow> allowlist_satisfied nc ip obs rule))"

lemma allowlist_loop:
  assumes "list_all2 (\<lambda>rule c. compile_allowlist rule = Inr c) rules cs"
    and "observed = None \<or> observed = Some obs"
  shows "(\<exists>out. try_fold (allowlist_step L nc r fh ip obs) observed cs = Inr out) \<longleftrightarrow>
      list_all (allowlist_admits L nc r fh ip obs) rules"
    and "try_fold (allowlist_step L nc r fh ip obs) observed cs = Inr out \<Longrightarrow> out = None \<or> out = Some obs"
  using assms
proof (induction arbitrary: observed rule: list_all2_induct)
  case (Cons rule rules c cs)
  note ok = allowlist_step_ok [OF _ Cons.hyps(1)] and complete = allowlist_step_complete [OF Cons.hyps(1)]
  {
    case 1
    show ?case
    proof (cases "allowlist_step L nc r fh ip obs observed c")
      case (Inl e)
      have "\<not> allowlist_admits L nc r fh ip obs rule"
      proof
        assume "allowlist_admits L nc r fh ip obs rule"
        then obtain b where "selector_matches L (al_selector rule) r fh (al_include_subpaths rule) = Inr b"
          and "b \<Longrightarrow> allowlist_satisfied nc ip obs rule" by (auto simp: allowlist_admits_def)
        from complete [OF 1 this] show False using Inl by simp
      qed
      then show ?thesis using Inl by simp
    next
      case (Inr mid)
      have "allowlist_admits L nc r fh ip obs rule"
        using ok(2,3) [OF Inr 1] by (auto simp: allowlist_admits_def)
      then show ?thesis using Inr Cons.IH(1) [OF ok(1) [OF Inr 1]] by simp
    qed
  next
    case 2
    then show ?case using ok(1) Cons.IH(2) by (auto split: sum.splits)
  }
qed auto

section \<open>Properties\<close>

text \<open>
  C28. Validation is enough: a validated list of rules always compiles, one compiled entry per
  rule, and a request passes the compiled check exactly when every rule either does not select
  it (its path being canonical where the host matches) or is satisfied: the canonical client
  address lies in one of its ranges, if it has any, and the looked-up country is one of its
  countries, if it has any. The observation returned is the one that was looked up.
\<close>

theorem allowlists_check_spec:
  assumes "validate_allowlists net_text rules = Inr ()"
  shows "\<exists>cs. prepare_allowlists net_text rules = Inr cs \<and> length cs = length rules
    \<and> (let ip = to_canonical verified_ip; res = allowlists_check L nc cs r fh verified_ip lookup
       in ((\<exists>out. res = Inr out) \<longleftrightarrow> list_all (allowlist_admits L nc r fh ip (lookup ip)) rules)
          \<and> (\<forall>out. res = Inr out \<longrightarrow> out = None \<or> out = Some (lookup ip)))"
proof -
  obtain cs where cs: "collect_results compile_allowlist rules = Inr cs"
    using collect_results_total compile_allowlist_total [OF assms] by blast
  have l: "list_all2 (\<lambda>rule c. compile_allowlist rule = Inr c) rules cs"
    using cs by (rule collect_results_list_all2)
  show ?thesis
    using assms cs list_all2_lengthD [OF l] allowlist_loop [OF l, of None]
    by (auto simp: prepare_allowlists_def allowlists_check_def Let_def)
qed

definition demo_allowlist :: "ip_addr allowlist_rule list" where
  "demo_allowlist = [\<lparr>al_path = ''/internal'', al_hosts = [], al_include_subpaths = True,
     allow_cidrs = [V4 1], allow_countries = []\<rparr>]"

theorem allowlists_check_spec_witness:
  "\<exists>cs. prepare_allowlists (\<lambda>_. 9) demo_allowlist = Inr cs
    \<and> (\<exists>out. allowlists_check plain_http (=) cs (demo_request ''/internal/a'') None (V4 1)
          (\<lambda>_. default_observation) = Inr out)"
proof -
  have v: "validate_allowlists (\<lambda>_. 9) demo_allowlist = Inr ()" by code_simp
  have c: "to_canonical (V4 1) = V4 1" by simp
  have a: "list_all (allowlist_admits plain_http (=) (demo_request ''/internal/a'') None (V4 1) default_observation)
      demo_allowlist"
    by (simp add: demo_allowlist_def allowlist_admits_def allowlist_satisfied_def) code_simp
  show ?thesis
    using allowlists_check_spec [OF v, where L = plain_http and nc = "(=)" and verified_ip = "V4 1"
        and r = "demo_request ''/internal/a''" and fh = None and lookup = "\<lambda>_. default_observation"]
    unfolding Let_def c using a by blast
qed

end
