(* ===== verification/PathCsrf.thy ===== *)
theory PathCsrf
  imports PathBlocks
begin

text \<open>
  CSRF profiles by URL (\<^verbatim>\<open>src/src/path_csrf.rs\<close>). The URL parser of the \<^verbatim>\<open>url\<close> crate is a parameter:
  \<open>url_parse\<close> gives the observations the code makes of a parsed URL. The \<^verbatim>\<open>unwrap\<close> of the port is a
  panic (\<^term>\<open>None\<close>); that a parsed HTTP(S) URL has a port by default is documented behaviour of
  the crate and a hypothesis (\<open>known_ports\<close>) where it is used.
\<close>

record url =
  url_scheme :: string
  url_host_str :: "string option"
  url_username :: string
  url_password :: "string option"
  url_fragment :: "string option"
  url_path :: string
  url_query :: "string option"
  url_port_or_known_default :: "nat option"

text \<open>\<open>authority_port v\<close> is \<^verbatim>\<open>v.parse::<Authority>().ok()\<close> and its \<^verbatim>\<open>port_u16()\<close>.\<close>

record csrf_lib = http_lib +
  url_parse :: "string \<Rightarrow> string + url"
  authority_port :: "string \<Rightarrow> nat option option"

record csrf_rule =
  csrf_path :: string
  csrf_hosts :: "string list"
  csrf_include_subpaths :: bool
  allow_origins :: "string list"
  allow_same_origin :: bool
  allow_missing_origin :: bool
  csrf_methods :: "string list"

definition default_methods :: "string list" where
  "default_methods = [''POST'', ''PUT'', ''PATCH'', ''DELETE'']"

record Origin =
  origin_scheme :: string
  origin_host :: string
  origin_port :: nat

section \<open>Origins\<close>

text \<open>\<^verbatim>\<open>str::find\<close> of a text: the part after its first occurrence.\<close>

fun after_first :: "string \<Rightarrow> string \<Rightarrow> string option" where
  "after_first p [] = (if p = [] then Some [] else None)"
| "after_first p (c # s) = (if prefix p (c # s) then Some (drop (length p) (c # s)) else after_first p s)"

definition authority_end :: "char \<Rightarrow> bool" where
  "authority_end c \<longleftrightarrow> c = CHR ''/'' \<or> c = CHR ''?'' \<or> c = CHR ''#''"

definition root_suffix_check :: "string \<Rightarrow> string + unit" where
  "root_suffix_check raw = (case after_first ''://'' raw of
     None \<Rightarrow> Inl ''origin needs an HTTP(S) authority''
   | Some tail \<Rightarrow>
       (let suffix = dropWhile (\<lambda>c. \<not> authority_end c) tail
        in ensure (suffix = [] \<or> suffix = ''/'') ''origin must contain no path, query or fragment''))"

definition url_bytes_ok :: "string \<Rightarrow> bool" where
  "url_bytes_ok raw \<longleftrightarrow> list_all (\<lambda>c. \<not> (byte c \<le> 32 \<or> byte c = 127 \<or> c = CHR 0x5C)) raw"

text \<open>The checks of \<^verbatim>\<open>parse_url\<close> on the parsed URL; the result is \<^term>\<open>None\<close> when the port is unwrapped from nothing.\<close>

definition url_origin :: "url \<Rightarrow> bool \<Rightarrow> (string + Origin) option" where
  "url_origin u root_only =
     (case first_error
        [ensure ((url_scheme u = ''http'' \<or> url_scheme u = ''https'') \<and> url_host_str u \<noteq> None
                 \<and> url_username u = [] \<and> url_password u = None \<and> url_fragment u = None)
           ''origin must use HTTP(S) without credentials, fragments or opaque origins'',
         ensure (\<not> list_ex (\<lambda>c. c = CHR ''*'' \<or> c = CHR ''?'') (the (url_host_str u)))
           ''origin cannot use hostname wildcards'',
         ensure (\<not> root_only \<or> url_path u = ''/'' \<and> url_query u = None)
           ''allowed origin must be a root URL without query''] of
        Inl e \<Rightarrow> Some (Inl e)
      | Inr _ \<Rightarrow>
          (case url_port_or_known_default u of
             None \<Rightarrow> None
           | Some port \<Rightarrow>
               Some (Inr \<lparr>origin_scheme = url_scheme u, origin_host = the (url_host_str u), origin_port = port\<rparr>)))"

definition parse_url :: "('a) csrf_lib_scheme \<Rightarrow> string \<Rightarrow> bool \<Rightarrow> (string + Origin) option" where
  "parse_url L raw root_only =
     (case first_error
        [ensure (raw \<noteq> [] \<and> length raw \<le> 2048 \<and> url_bytes_ok raw)
           ''origin URL must be bounded and contain no whitespace, backslashes or controls'',
         if root_only then root_suffix_check raw else Inr ()] of
        Inl e \<Rightarrow> Some (Inl e)
      | Inr _ \<Rightarrow>
          (case url_parse L raw of
             Inl e \<Rightarrow> Some (Inl e)
           | Inr u \<Rightarrow> url_origin u root_only))"

section \<open>Validation and compilation\<close>

definition csrf_selector :: "csrf_rule \<Rightarrow> block_rule" where
  "csrf_selector r = \<lparr>block_path = csrf_path r, block_hosts = csrf_hosts r\<rparr>"

definition supported_method :: "string \<Rightarrow> bool" where
  "supported_method m \<longleftrightarrow> m \<in> set [''GET'', ''HEAD'', ''POST'', ''PUT'', ''PATCH'', ''DELETE'', ''OPTIONS'', ''TRACE'']"

definition check_method :: "string list \<Rightarrow> string \<Rightarrow> string + string list" where
  "check_method seen m =
     (if supported_method m \<and> m \<notin> set seen then Inr (m # seen)
      else Inl ''CSRF methods must be distinct supported uppercase methods'')"

text \<open>Parsing the allowed origins one after the other; \<open>seen\<close> is the set of those before.\<close>

fun check_origins :: "('a) csrf_lib_scheme \<Rightarrow> Origin list \<Rightarrow> string list \<Rightarrow> (string + unit) option" where
  "check_origins L seen [] = Some (Inr ())"
| "check_origins L seen (raw # raws) =
     (case parse_url L raw True of
        None \<Rightarrow> None
      | Some (Inl e) \<Rightarrow> Some (Inl e)
      | Some (Inr origin) \<Rightarrow>
          if origin \<in> set seen then Some (Inl ''duplicate normalized CSRF origin'')
          else check_origins L (origin # seen) raws)"

definition csrf_text :: "csrf_rule \<Rightarrow> nat" where
  "csrf_text r = length (csrf_path r) + sum_list (map length (csrf_hosts r @ allow_origins r @ csrf_methods r))"

fun validate_csrf_rules :: "('a) csrf_lib_scheme \<Rightarrow> nat \<Rightarrow> csrf_rule list \<Rightarrow> csrf_rule list \<Rightarrow> (string + unit) option" where
  "validate_csrf_rules L text before [] = Some (Inr ())"
| "validate_csrf_rules L text before (rule # rules) =
     (case first_error
        [ensure (rule \<notin> set before) ''duplicate path CSRF rule'',
         ensure (allow_same_origin rule \<or> allow_origins rule \<noteq> [])
           ''CSRF requires same-origin admission or explicit allowed origins'',
         ensure (length (allow_origins rule) \<le> 128) ''CSRF allows at most128 origins per rule'',
         ensure (csrf_methods rule \<noteq> [] \<and> length (csrf_methods rule) \<le> 8) ''CSRF methods must contain1..8 values'',
         map_sum id (\<lambda>_. ()) (try_fold check_method [] (csrf_methods rule))] of
        Inl e \<Rightarrow> Some (Inl e)
      | Inr _ \<Rightarrow>
          (case check_origins L [] (allow_origins rule) of
             None \<Rightarrow> None
           | Some (Inl e) \<Rightarrow> Some (Inl e)
           | Some (Inr _) \<Rightarrow>
               if text + csrf_text rule > 32 * 1024 then Some (Inl ''path CSRF exceeds32KiB combined text'')
               else validate_csrf_rules L (text + csrf_text rule) (before @ [rule]) rules))"

definition validate_csrf :: "('a) csrf_lib_scheme \<Rightarrow> csrf_rule list \<Rightarrow> (string + unit) option" where
  "validate_csrf L rules =
     (case first_error
        [ensure (length rules \<le> 128) ''path CSRF allows at most128 rules'',
         validate_path_blocks (map csrf_selector rules)] of
        Inl e \<Rightarrow> Some (Inl e)
      | Inr _ \<Rightarrow> validate_csrf_rules L 0 [] rules)"

record csrf_compiled =
  cc_selector :: block_rule
  cc_include_subpaths :: bool
  cc_methods :: "string list"
  cc_allowed :: "Origin list"
  cc_same :: bool
  cc_missing :: bool

fun parse_origins :: "('a) csrf_lib_scheme \<Rightarrow> string list \<Rightarrow> (string + Origin list) option" where
  "parse_origins L [] = Some (Inr [])"
| "parse_origins L (raw # raws) =
     (case parse_url L raw True of
        None \<Rightarrow> None
      | Some (Inl e) \<Rightarrow> Some (Inl e)
      | Some (Inr origin) \<Rightarrow> map_option (map_sum id (Cons origin)) (parse_origins L raws))"

definition compile_csrf :: "('a) csrf_lib_scheme \<Rightarrow> csrf_rule \<Rightarrow> (string + csrf_compiled) option" where
  "compile_csrf L rule = map_option (map_sum id (\<lambda>origins.
     \<lparr>cc_selector = csrf_selector rule, cc_include_subpaths = csrf_include_subpaths rule, cc_methods = csrf_methods rule,
      cc_allowed = origins, cc_same = allow_same_origin rule, cc_missing = allow_missing_origin rule\<rparr>))
     (parse_origins L (allow_origins rule))"

fun compile_csrf_rules :: "('a) csrf_lib_scheme \<Rightarrow> csrf_rule list \<Rightarrow> (string + csrf_compiled list) option" where
  "compile_csrf_rules L [] = Some (Inr [])"
| "compile_csrf_rules L (rule # rules) =
     (case compile_csrf L rule of
        None \<Rightarrow> None
      | Some (Inl e) \<Rightarrow> Some (Inl e)
      | Some (Inr c) \<Rightarrow> map_option (map_sum id (Cons c)) (compile_csrf_rules L rules))"

definition prepare_csrf :: "('a) csrf_lib_scheme \<Rightarrow> csrf_rule list \<Rightarrow> (string + csrf_compiled list) option" where
  "prepare_csrf L rules =
     (case validate_csrf L rules of
        None \<Rightarrow> None
      | Some (Inl e) \<Rightarrow> Some (Inl e)
      | Some (Inr _) \<Rightarrow> compile_csrf_rules L rules)"

section \<open>The check\<close>

datatype Source = MissingSource | OpaqueSource | OriginSource Origin

text \<open>Reading the \<^verbatim>\<open>Referer\<close>; every failure of a header is the status 400.\<close>

definition header_origin :: "('a) csrf_lib_scheme \<Rightarrow> string \<Rightarrow> bool \<Rightarrow> (nat + Origin) option" where
  "header_origin L v root_only = (case header_to_str L v of
     None \<Rightarrow> Some (Inl 400)
   | Some raw \<Rightarrow> map_option (map_sum (\<lambda>_. 400) id) (parse_url L raw root_only))"

definition referer_origin :: "('a) csrf_lib_scheme \<Rightarrow> request \<Rightarrow> (nat + Origin option) option" where
  "referer_origin L r = (case hm_values (req_headers r) ''referer'' of
     [] \<Rightarrow> Some (Inr None)
   | v # _ \<Rightarrow> map_option (map_sum id Some) (header_origin L v False))"

definition source :: "('a) csrf_lib_scheme \<Rightarrow> request \<Rightarrow> (nat + Source) option" where
  "source L r =
     (if list_ex (\<lambda>name. length (hm_values (req_headers r) name) > 1) [''origin'', ''referer''] then Some (Inl 400)
      else
        (case referer_origin L r of
           None \<Rightarrow> None
         | Some (Inl e) \<Rightarrow> Some (Inl e)
         | Some (Inr referer) \<Rightarrow>
             (case hm_values (req_headers r) ''origin'' of
                v # _ \<Rightarrow>
                  (if header_to_str L v = Some ''null'' then Some (Inr OpaqueSource)
                   else map_option (map_sum id OriginSource) (header_origin L v True))
              | [] \<Rightarrow>
                  Some (Inr (case referer of Some origin \<Rightarrow> OriginSource origin | None \<Rightarrow> MissingSource)))))"

text \<open>The authority the request was verified for, or claims.\<close>

definition csrf_authority :: "('a) csrf_lib_scheme \<Rightarrow> request \<Rightarrow> string option \<Rightarrow> string option" where
  "csrf_authority L r verified_host =
     (case verified_host of
        Some h \<Rightarrow> Some h
      | None \<Rightarrow>
          (case (case hm_values (req_headers r) ''host'' of [] \<Rightarrow> None | v # _ \<Rightarrow> header_to_str L v) of
             Some h \<Rightarrow> Some h
           | None \<Rightarrow> map_option fst (uri_authority r)))"

definition with_explicit_port :: "('a) csrf_lib_scheme \<Rightarrow> string \<Rightarrow> nat option \<Rightarrow> nat + string" where
  "with_explicit_port L authority explicit_port = (case explicit_port of
     None \<Rightarrow> Inr authority
   | Some port \<Rightarrow>
       if port = 0 then Inl 400
       else (case authority_port L authority of
               None \<Rightarrow> Inl 400
             | Some None \<Rightarrow> Inr (authority @ '':'' @ nat_text port)
             | Some (Some _) \<Rightarrow> Inr authority))"

definition csrf_destination ::
  "('a) csrf_lib_scheme \<Rightarrow> request \<Rightarrow> string option \<Rightarrow> string \<Rightarrow> nat option \<Rightarrow> (nat + Origin) option" where
  "csrf_destination L r verified_host scheme explicit_port = (case csrf_authority L r verified_host of
     None \<Rightarrow> Some (Inl 400)
   | Some authority \<Rightarrow>
       (case with_explicit_port L authority explicit_port of
          Inl e \<Rightarrow> Some (Inl e)
        | Inr authority \<Rightarrow>
            map_option (map_sum (\<lambda>_. 400) id) (parse_url L (scheme @ ''://'' @ authority) True)))"

text \<open>
  The loop of \<^verbatim>\<open>check\<close>; \<open>observed\<close> and \<open>destination\<close> are filled when a rule first needs them.
\<close>

fun csrf_loop ::
  "('a) csrf_lib_scheme \<Rightarrow> request \<Rightarrow> string option \<Rightarrow> string \<Rightarrow> nat option \<Rightarrow> Source option \<Rightarrow> Origin option
   \<Rightarrow> csrf_compiled list \<Rightarrow> (nat + unit) option" where
  "csrf_loop L r host scheme port observed destination [] = Some (Inr ())"
| "csrf_loop L r host scheme port observed destination (rule # rules) =
     (if \<not> list_ex (\<lambda>m. eq_ignore_ascii_case m (req_method r)) (cc_methods rule)
      then csrf_loop L r host scheme port observed destination rules
      else
        (case selector_matches (http_lib.truncate L) (cc_selector rule) r host (cc_include_subpaths rule) of
           Inl e \<Rightarrow> Some (Inl e)
         | Inr False \<Rightarrow> csrf_loop L r host scheme port observed destination rules
         | Inr True \<Rightarrow>
             (case (case observed of Some s \<Rightarrow> Some (Inr s) | None \<Rightarrow> source L r) of
                None \<Rightarrow> None
              | Some (Inl e) \<Rightarrow> Some (Inl e)
              | Some (Inr MissingSource) \<Rightarrow>
                  if cc_missing rule then csrf_loop L r host scheme port (Some MissingSource) destination rules
                  else Some (Inl 403)
              | Some (Inr OpaqueSource) \<Rightarrow> Some (Inl 403)
              | Some (Inr (OriginSource origin)) \<Rightarrow>
                  if origin \<in> set (cc_allowed rule)
                  then csrf_loop L r host scheme port (Some (OriginSource origin)) destination rules
                  else if \<not> cc_same rule then Some (Inl 403)
                  else
                    (case (case destination of Some d \<Rightarrow> Some (Inr d) | None \<Rightarrow> csrf_destination L r host scheme port) of
                       None \<Rightarrow> None
                     | Some (Inl e) \<Rightarrow> Some (Inl e)
                     | Some (Inr d) \<Rightarrow>
                         if d = origin
                         then csrf_loop L r host scheme port (Some (OriginSource origin)) (Some d) rules
                         else Some (Inl 403)))))"

definition csrf_check ::
  "('a) csrf_lib_scheme \<Rightarrow> csrf_compiled list \<Rightarrow> request \<Rightarrow> string option \<Rightarrow> string \<Rightarrow> nat option \<Rightarrow> (nat + unit) option" where
  "csrf_check L compiled r host scheme port = csrf_loop L r host scheme port None None compiled"

section \<open>The decision, rule by rule\<close>

definition csrf_selects :: "('a) csrf_lib_scheme \<Rightarrow> request \<Rightarrow> string option \<Rightarrow> csrf_rule \<Rightarrow> nat + bool" where
  "csrf_selects L r host rule =
     (if list_ex (\<lambda>m. eq_ignore_ascii_case m (req_method r)) (csrf_methods rule)
      then selector_matches (http_lib.truncate L) (csrf_selector rule) r host (csrf_include_subpaths rule) else Inr False)"

definition allows_origin :: "('a) csrf_lib_scheme \<Rightarrow> csrf_rule \<Rightarrow> Origin \<Rightarrow> bool" where
  "allows_origin L rule origin \<longleftrightarrow> list_ex (\<lambda>raw. parse_url L raw True = Some (Inr origin)) (allow_origins rule)"

definition csrf_admits :: "('a) csrf_lib_scheme \<Rightarrow> request \<Rightarrow> string option \<Rightarrow> string \<Rightarrow> nat option \<Rightarrow> csrf_rule \<Rightarrow> bool" where
  "csrf_admits L r host scheme port rule \<longleftrightarrow> (case source L r of
     Some (Inr MissingSource) \<Rightarrow> allow_missing_origin rule
   | Some (Inr (OriginSource origin)) \<Rightarrow>
       allows_origin L rule origin
       \<or> allow_same_origin rule \<and> csrf_destination L r host scheme port = Some (Inr origin)
   | _ \<Rightarrow> False)"

definition csrf_passes :: "('a) csrf_lib_scheme \<Rightarrow> request \<Rightarrow> string option \<Rightarrow> string \<Rightarrow> nat option \<Rightarrow> csrf_rule \<Rightarrow> bool" where
  "csrf_passes L r host scheme port rule \<longleftrightarrow> (case csrf_selects L r host rule of
     Inl _ \<Rightarrow> False
   | Inr selected \<Rightarrow> \<not> selected \<or> csrf_admits L r host scheme port rule)"

text \<open>A compiled rule and its origin.\<close>

definition compiled_from :: "('a) csrf_lib_scheme \<Rightarrow> csrf_rule \<Rightarrow> csrf_compiled \<Rightarrow> bool" where
  "compiled_from L rule c \<longleftrightarrow> cc_selector c = csrf_selector rule \<and> cc_include_subpaths c = csrf_include_subpaths rule
     \<and> cc_methods c = csrf_methods rule \<and> (\<forall>origin. origin \<in> set (cc_allowed c) \<longleftrightarrow> allows_origin L rule origin)
     \<and> cc_same c = allow_same_origin rule \<and> cc_missing c = allow_missing_origin rule"

lemma parse_origins_set:
  "parse_origins L raws = Some (Inr origins) \<Longrightarrow>
   origin \<in> set origins \<longleftrightarrow> list_ex (\<lambda>raw. parse_url L raw True = Some (Inr origin)) raws"
  by (induction raws arbitrary: origins) (auto split: option.splits sum.splits)

lemma compile_csrf_from: "compile_csrf L rule = Some (Inr c) \<Longrightarrow> compiled_from L rule c"
  by (cases "parse_origins L (allow_origins rule)"; cases "the (parse_origins L (allow_origins rule))")
    (auto simp: compile_csrf_def compiled_from_def allows_origin_def parse_origins_set)

lemma compile_csrf_rules_from: "compile_csrf_rules L rules = Some (Inr cs) \<Longrightarrow> list_all2 (compiled_from L) rules cs"
proof (induction rules arbitrary: cs)
  case (Cons rule rules)
  then obtain c cs' where "compile_csrf L rule = Some (Inr c)" "compile_csrf_rules L rules = Some (Inr cs')" "cs = c # cs'"
    by (auto split: option.splits sum.splits)
  then show ?case using Cons.IH compile_csrf_from by auto
qed simp

lemma prepare_csrf_from: "prepare_csrf L rules = Some (Inr cs) \<Longrightarrow> list_all2 (compiled_from L) rules cs"
  by (auto simp: prepare_csrf_def intro: compile_csrf_rules_from split: option.splits sum.splits)

lemma csrf_loop_exact:
  assumes "list_all2 (compiled_from L) rules cs"
    and "observed = None \<or> source L r = Some (Inr (the observed))"
    and "destination = None \<or> csrf_destination L r host scheme port = Some (Inr (the destination))"
  shows "csrf_loop L r host scheme port observed destination cs = Some (Inr ()) \<longleftrightarrow>
    list_all (csrf_passes L r host scheme port) rules"
  using assms
proof (induction rules cs arbitrary: observed destination rule: list_all2_induct)
  case (Cons rule rules c cs)
  have obs: "(case observed of Some s \<Rightarrow> Some (Inr s) | None \<Rightarrow> source L r) = source L r"
    using Cons.prems(1) by (cases observed) auto
  have dest: "(case destination of Some d \<Rightarrow> Some (Inr d) | None \<Rightarrow> csrf_destination L r host scheme port)
      = csrf_destination L r host scheme port"
    using Cons.prems(2) by (cases destination) auto
  note from_rule = Cons.hyps(1) [unfolded compiled_from_def]
  let ?sel = "selector_matches (http_lib.truncate L) (csrf_selector rule) r host (csrf_include_subpaths rule)"
  consider (skipped) "csrf_selects L r host rule = Inr False"
      "csrf_loop L r host scheme port observed destination (c # cs) = csrf_loop L r host scheme port observed destination cs"
    | (failed) e where "csrf_selects L r host rule = Inl e"
      "csrf_loop L r host scheme port observed destination (c # cs) = Some (Inl e)"
    | (selected) "csrf_selects L r host rule = Inr True" "list_ex (\<lambda>m. eq_ignore_ascii_case m (req_method r)) (csrf_methods rule)"
      "?sel = Inr True"
    using from_rule by (cases ?sel; cases "list_ex (\<lambda>m. eq_ignore_ascii_case m (req_method r)) (csrf_methods rule)")
      (auto simp: csrf_selects_def split: bool.splits)
  then show ?case
  proof cases
    case skipped
    then show ?thesis using Cons.IH [OF Cons.prems] by (simp add: csrf_passes_def)
  next
    case failed
    then show ?thesis by (simp add: csrf_passes_def)
  next
    case selected
    have fields: "cc_methods c = csrf_methods rule" "cc_selector c = csrf_selector rule" "cc_include_subpaths c = csrf_include_subpaths rule"
      "cc_missing c = allow_missing_origin rule" "cc_same c = allow_same_origin rule"
      "\<And>origin. origin \<in> set (cc_allowed c) \<longleftrightarrow> allows_origin L rule origin" using from_rule by blast+
    note unfold = csrf_loop.simps obs dest list.pred_inject csrf_passes_def [of L r host scheme port rule]
      csrf_admits_def selected fields
    consider (none) "source L r = None" | (error) e where "source L r = Some (Inl e)"
      | (missing) "source L r = Some (Inr MissingSource)" | (opaque) "source L r = Some (Inr OpaqueSource)"
      | (origin) origin where "source L r = Some (Inr (OriginSource origin))"
      by (metis option.exhaust sum.exhaust Source.exhaust)
    then show ?thesis
    proof cases
      case missing
      then show ?thesis using Cons.IH [of "Some MissingSource" destination] Cons.prems(2) by (simp add: unfold)
    next
      case origin
      have IH: "csrf_loop L r host scheme port (Some (OriginSource origin)) d cs = Some (Inr ())
          \<longleftrightarrow> list_all (csrf_passes L r host scheme port) rules"
        if "d = None \<or> csrf_destination L r host scheme port = Some (Inr (the d))" for d
        using Cons.IH [of "Some (OriginSource origin)" d] origin that by simp
      show ?thesis
        using IH [of destination] IH [of "Some origin"] Cons.prems(2) origin
        by (cases "csrf_destination L r host scheme port"; cases "the (csrf_destination L r host scheme port)") (simp_all add: unfold)
    qed (simp_all add: unfold)
  qed
qed simp

section \<open>No panics\<close>

definition known_ports :: "('a) csrf_lib_scheme \<Rightarrow> bool" where
  "known_ports L \<longleftrightarrow> (\<forall>raw u. url_parse L raw = Inr u \<longrightarrow> url_scheme u = ''http'' \<or> url_scheme u = ''https''
     \<longrightarrow> url_port_or_known_default u \<noteq> None)"

lemma parse_url_total: "known_ports L \<Longrightarrow> parse_url L raw root_only \<noteq> None"
  by (fastforce simp: known_ports_def parse_url_def url_origin_def first_error_def split: sum.splits option.splits)

lemma header_origin_total: "known_ports L \<Longrightarrow> header_origin L v b \<noteq> None"
  using parse_url_total [of L] by (auto simp: header_origin_def split: option.split)

lemma header_origin_status: "header_origin L v b = Some (Inl e) \<Longrightarrow> e = 400"
  by (auto simp: header_origin_def split: option.splits)

lemma source_total: "known_ports L \<Longrightarrow> source L r \<noteq> None"
proof -
  assume L: "known_ports L"
  have "referer_origin L r \<noteq> None"
    using header_origin_total [OF L] by (simp add: referer_origin_def split: list.split)
  then show ?thesis using header_origin_total [OF L] by (auto simp: source_def split: list.split sum.split)
qed

lemma source_status: "source L r = Some (Inl e) \<Longrightarrow> e = 400"
  by (auto simp: source_def referer_origin_def split: if_splits list.splits option.splits sum.splits dest: header_origin_status)

lemma csrf_destination_total: "known_ports L \<Longrightarrow> csrf_destination L r host scheme port \<noteq> None"
  using parse_url_total [of L] by (auto simp: csrf_destination_def split: option.split sum.split)

lemma csrf_destination_status: "csrf_destination L r host scheme port = Some (Inl e) \<Longrightarrow> e = 400"
  by (auto simp: csrf_destination_def with_explicit_port_def split: if_splits option.splits sum.splits)

lemma selector_status: "selector_matches L s r host b = Inl e \<Longrightarrow> e = 400"
  by (auto simp: selector_matches_def split: if_splits sum.splits)

lemma csrf_loop_total:
  assumes "known_ports L"
  shows "\<exists>res. csrf_loop L r host scheme port observed destination cs = Some res \<and> res \<in> {Inr (), Inl 400, Inl 403}"
proof (induction cs arbitrary: observed destination)
  case (Cons c cs)
  let ?obs = "case observed of Some s \<Rightarrow> Some (Inr s) | None \<Rightarrow> source L r"
  let ?dest = "case destination of Some d \<Rightarrow> Some (Inr d) | None \<Rightarrow> csrf_destination L r host scheme port"
  obtain obs where obs: "?obs = Some obs" "obs = Inl e \<Longrightarrow> e = 400" for e
    using source_total [OF assms, of r] source_status [of L r] by (cases observed) auto
  obtain dest where dest: "?dest = Some dest" "dest = Inl e \<Longrightarrow> e = 400" for e
    using csrf_destination_total [OF assms, of r host scheme port] csrf_destination_status [of L r host scheme port] by (cases destination) auto
  show ?case
    unfolding csrf_loop.simps obs(1) dest(1) using Cons.IH obs(2) dest(2) selector_status
    by (auto split: sum.split Source.split bool.split)
qed simp

text \<open>
  C36. For prepared rules the check lets a request through exactly when every rule that selects it
  by method, host and path admits its source: no origin headers and the rule allows that, an
  origin on the rule's list, or the request's own origin. The order of the rules and what earlier
  rules remembered do not matter, an opaque origin never passes a selecting rule, and the only
  other answers are 400 and 403.
\<close>

theorem csrf_check_exact:
  assumes "prepare_csrf L rules = Some (Inr compiled)" "known_ports L"
  shows "(csrf_check L compiled r host scheme port = Some (Inr ()) \<longleftrightarrow> list_all (csrf_passes L r host scheme port) rules)
    \<and> (\<exists>res. csrf_check L compiled r host scheme port = Some res \<and> res \<in> {Inr (), Inl 400, Inl 403})"
  using csrf_loop_exact [OF prepare_csrf_from [OF assms(1)], of None r None host scheme port]
    csrf_loop_total [OF assms(2), of r host scheme port None None compiled]
  by (simp add: csrf_check_def)

text \<open>An instance of the URL parser for the witness: scheme, authority without port, path.\<close>

definition plain_url :: "string \<Rightarrow> string + url" where
  "plain_url raw = (case after_first ''://'' raw of
     None \<Rightarrow> Inl ''relative URL without a base''
   | Some tail \<Rightarrow> Inr \<lparr>url_scheme = takeWhile (\<lambda>c. c \<noteq> CHR '':'') raw,
       url_host_str = Some (takeWhile (\<lambda>c. \<not> authority_end c) tail), url_username = [], url_password = None,
       url_fragment = None, url_path = ''/'', url_query = None,
       url_port_or_known_default = Some (if prefix ''https'' raw then 443 else 80)\<rparr>)"

definition plain_csrf :: csrf_lib where
  "plain_csrf = http_lib.extend plain_http \<lparr>url_parse = plain_url, authority_port = (\<lambda>_. Some None)\<rparr>"

definition demo_csrf_rules :: "csrf_rule list" where
  "demo_csrf_rules = [\<lparr>csrf_path = ''/pay'', csrf_hosts = [], csrf_include_subpaths = True,
     allow_origins = [''https://shop.example''], allow_same_origin = True, allow_missing_origin = False,
     csrf_methods = default_methods\<rparr>]"

definition demo_csrf_request :: "string \<Rightarrow> request" where
  "demo_csrf_request origin = \<lparr>req_method = ''POST'', uri_path = ''/pay/now'', uri_scheme = None, uri_authority = None,
     uri_path_and_query = Some ''/pay/now'',
     req_headers = \<lparr>hm_keys = [''host'', ''origin''],
       hm_values = (\<lambda>n. if n = ''host'' then [''bank.example''] else if n = ''origin'' then [origin] else [])\<rparr>\<rparr>"

definition demo_csrf_compiled :: "csrf_compiled list" where
  "demo_csrf_compiled = [\<lparr>cc_selector = \<lparr>block_path = ''/pay'', block_hosts = []\<rparr>, cc_include_subpaths = True, cc_methods = default_methods,
     cc_allowed = [\<lparr>origin_scheme = ''https'', origin_host = ''shop.example'', origin_port = 443\<rparr>], cc_same = True, cc_missing = False\<rparr>]"

theorem csrf_check_exact_witness:
  "prepare_csrf plain_csrf demo_csrf_rules = Some (Inr demo_csrf_compiled)
   \<and> csrf_check plain_csrf demo_csrf_compiled (demo_csrf_request ''https://shop.example'') None ''https'' None = Some (Inr ())
   \<and> csrf_check plain_csrf demo_csrf_compiled (demo_csrf_request ''https://evil.example'') None ''https'' None \<noteq> Some (Inr ())"
proof -
  have ports: "known_ports plain_csrf"
    by (auto simp: known_ports_def plain_csrf_def plain_url_def http_lib.defs split: option.splits)
  have prep: "prepare_csrf plain_csrf demo_csrf_rules = Some (Inr demo_csrf_compiled)" by code_simp
  note exact = csrf_check_exact [OF prep ports, THEN conjunct1]
  have "list_all (csrf_passes plain_csrf (demo_csrf_request ''https://shop.example'') None ''https'' None) demo_csrf_rules"
    "\<not> list_all (csrf_passes plain_csrf (demo_csrf_request ''https://evil.example'') None ''https'' None) demo_csrf_rules"
    by code_simp+
  then show ?thesis using prep exact by simp
qed

end
