(* ===== verification/ResponseSecurity.thy ===== *)
theory ResponseSecurity
  imports PathCsrf
begin

text \<open>
  Response policies by domain (\<^verbatim>\<open>src/src/response_security.rs\<close>), applied to the final response: upgrade
  of same-host redirects, security headers, and the trailers that must not undo them. A response
  is its status, headers and body frames.
\<close>

text \<open>
  What the code reads of a parsed \<^verbatim>\<open>Authority\<close>, and the parsers of the \<^verbatim>\<open>http\<close> crate:
  \<open>parse_authority\<close> is \<^verbatim>\<open>str::parse::<Authority>\<close>, \<open>header_name\<close> is \<^verbatim>\<open>HeaderName::from_bytes\<close> with its
  \<^verbatim>\<open>as_str\<close>, and \<open>header_value\<close> is \<^verbatim>\<open>HeaderValue::from_str\<close> with its bytes.
\<close>

record authority =
  auth_str :: string
  auth_host :: string
  auth_has_port :: bool
  auth_port_u16 :: "nat option"

record response_lib = csrf_lib +
  parse_authority :: "string \<Rightarrow> string + authority"
  header_name :: "string \<Rightarrow> string + string"
  header_value :: "string \<Rightarrow> string + string"

definition ALLOWED :: "string list" where
  "ALLOWED = [''strict-transport-security'', ''x-content-type-options'', ''referrer-policy'', ''x-frame-options'',
     ''content-security-policy'', ''content-security-policy-report-only'', ''permissions-policy'']"

text \<open>\<open>rs_headers\<close> is the \<^verbatim>\<open>BTreeMap\<close> in its order.\<close>

record response_rule =
  rs_hosts :: "string list"
  upgrade_same_host_redirect :: bool
  rs_headers :: "(string \<times> string) list"

record response_compiled =
  rc_hosts :: "string list"
  rc_upgrade :: bool
  rc_headers :: "(string \<times> string) list"

section \<open>Compilation\<close>

definition compile_security_header ::
  "('a) response_lib_scheme \<Rightarrow> (string \<times> string) list \<times> nat \<Rightarrow> string \<times> string \<Rightarrow> string + (string \<times> string) list \<times> nat" where
  "compile_security_header L st entry =
     (case st of (headers, bytes) \<Rightarrow>
        res_bind (header_name L (fst entry)) (\<lambda>name.
        res_bind (first_error
          [ensure (name \<in> set ALLOWED) ''unsupported security header'',
           ensure (name \<notin> fst ` set headers) ''duplicate security header'',
           ensure (length (snd entry) \<le> 4096 \<and> list_all (\<lambda>c. \<not> (byte c < 32 \<or> byte c = 127)) (snd entry))
             ''invalid security header value'']) (\<lambda>_.
        res_bind (header_value L (snd entry)) (\<lambda>parsed.
          Inr (headers @ [(name, parsed)], bytes + (length name + length (snd entry)))))))"

definition check_response_host :: "string list \<times> nat \<Rightarrow> string \<Rightarrow> string + string list \<times> nat" where
  "check_response_host st host =
     (case st of (seen, bytes) \<Rightarrow>
        res_bind (validate_pattern host) (\<lambda>_.
          if map to_lower host \<in> set seen then Inl ''duplicate response security host''
          else Inr (map to_lower host # seen, bytes + length host)))"

definition compile_response_rule ::
  "('a) response_lib_scheme \<Rightarrow> response_compiled list \<times> nat \<Rightarrow> response_rule \<Rightarrow> string + response_compiled list \<times> nat" where
  "compile_response_rule L st rule =
     (case st of (result, bytes) \<Rightarrow>
        res_bind (ensure (rs_hosts rule \<noteq> [] \<and> length (rs_hosts rule) \<le> 16) ''response security requires1..16 hosts'') (\<lambda>_.
        res_bind (try_fold check_response_host ([], bytes) (rs_hosts rule)) (\<lambda>(_, bytes).
        res_bind (ensure (length (rs_headers rule) \<le> 7) ''too many security headers'') (\<lambda>_.
        res_bind (try_fold (compile_security_header L) ([], bytes) (rs_headers rule)) (\<lambda>(headers, bytes).
          Inr (result @ [\<lparr>rc_hosts = rs_hosts rule, rc_upgrade = upgrade_same_host_redirect rule, rc_headers = headers\<rparr>], bytes))))))"

definition prepare_response :: "('a) response_lib_scheme \<Rightarrow> response_rule list \<Rightarrow> string + response_compiled list" where
  "prepare_response L rules =
     res_bind (ensure (length rules \<le> 128) ''response security allows at most128 rules'') (\<lambda>_.
     res_bind (try_fold (compile_response_rule L) ([], 0) rules) (\<lambda>(result, bytes).
     res_bind (ensure (bytes \<le> 32 * 1024) ''response security exceeds32KiB'') (\<lambda>_. Inr result)))"

definition validate_response :: "('a) response_lib_scheme \<Rightarrow> response_rule list \<Rightarrow> string + unit" where
  "validate_response L rules = map_sum id (\<lambda>_. ()) (prepare_response L rules)"

section \<open>Redirects\<close>

record Context =
  ctx_authority :: authority
  ctx_https :: bool
  ctx_explicit_port :: "nat option"

text \<open>The scheme of an absolute location: the text before a colon that comes before any delimiter.\<close>

definition location_scheme :: "string \<Rightarrow> string option" where
  "location_scheme raw =
     (let before = takeWhile (\<lambda>c. c \<noteq> CHR '':'') raw
      in if CHR '':'' \<in> set raw \<and> \<not> list_ex authority_end before then Some before else None)"

definition ctx_target :: "Context \<Rightarrow> string" where
  "ctx_target ctx =
     (let port = (case auth_port_u16 (ctx_authority ctx) of Some p \<Rightarrow> p
                  | None \<Rightarrow> (case ctx_explicit_port ctx of Some p \<Rightarrow> p | None \<Rightarrow> 443));
          host = auth_host (ctx_authority ctx)
      in if port = 443 then host else host @ '':'' @ nat_text port)"

text \<open>
  \<^verbatim>\<open>upgrade\<close>: \<^term>\<open>None\<close> is an error, which the caller turns into a 502 whatever its message;
  \<^term>\<open>Some None\<close> keeps the location. The rest of the location after its authority is \<open>rest\<close>.
\<close>

definition upgrade :: "('a) response_lib_scheme \<Rightarrow> string \<Rightarrow> Context \<Rightarrow> string option option" where
  "upgrade L v ctx = (case header_to_str L v of
     None \<Rightarrow> None
   | Some raw \<Rightarrow>
       if \<not> (length raw \<le> 8192 \<and> url_bytes_ok raw) then None
       else (case location_scheme raw of
         None \<Rightarrow> Some None
       | Some scheme \<Rightarrow>
           if \<not> eq_ignore_ascii_case scheme ''http'' \<and> \<not> eq_ignore_ascii_case scheme ''https'' then Some None
           else if \<not> prefix ''//'' (drop (length scheme + 1) raw) then None
           else
             (let tail = the (after_first ''://'' raw);
                  scheme = take (length raw - length tail - 3) raw;
                  rest = dropWhile (\<lambda>c. \<not> authority_end c) tail
              in case parse_authority L (takeWhile (\<lambda>c. \<not> authority_end c) tail) of
                   Inl _ \<Rightarrow> None
                 | Inr a \<Rightarrow>
                     if CHR ''@'' \<in> set (auth_str a) then None
                     else if \<not> (\<not> auth_has_port a \<or> (case auth_port_u16 a of Some p \<Rightarrow> p > 0 | None \<Rightarrow> False)) then None
                     else (case url_parse L raw of
                             Inl _ \<Rightarrow> None
                           | Inr u \<Rightarrow>
                               if \<not> (url_host_str u \<noteq> None \<and> url_username u = [] \<and> url_password u = None) then None
                               else if \<not> eq_ignore_ascii_case scheme ''http''
                                 \<or> \<not> eq_ignore_ascii_case (trim_end_matches (CHR ''.'') (auth_host a))
                                      (trim_end_matches (CHR ''.'') (auth_host (ctx_authority ctx)))
                                 \<or> (case auth_port_u16 a of Some p \<Rightarrow> p \<noteq> 80 | None \<Rightarrow> False)
                               then Some None
                               else (case header_value L (''https://'' @ ctx_target ctx @ rest) of
                                       Inl _ \<Rightarrow> None
                                     | Inr out \<Rightarrow> Some (Some out))))))"

section \<open>Responses\<close>

datatype Frame = DataFrame string | TrailersFrame header_map

record response =
  resp_status :: nat
  resp_headers :: header_map
  resp_body :: "Frame list"

definition is_redirection :: "nat \<Rightarrow> bool" where
  "is_redirection status \<longleftrightarrow> 300 \<le> status \<and> status < 400"

definition bad_gateway :: response where
  "bad_gateway = \<lparr>resp_status = 502,
     resp_headers = hm_insert ''cache-control'' ''no-store'' \<lparr>hm_keys = [], hm_values = (\<lambda>_. [])\<rparr>,
     resp_body = [DataFrame ''bad gateway'']\<rparr>"

definition rule_selects_host :: "Context \<Rightarrow> response_compiled \<Rightarrow> bool" where
  "rule_selects_host ctx rule \<longleftrightarrow>
     list_ex (\<lambda>h. host_matches_pattern h (trim_end_matches (CHR ''.'') (auth_host (ctx_authority ctx)))) (rc_hosts rule)"

definition upgrade_redirect :: "('a) response_lib_scheme \<Rightarrow> Context \<Rightarrow> response \<Rightarrow> response" where
  "upgrade_redirect L ctx response =
     (case (case hm_values (resp_headers response) ''location'' of
              [] \<Rightarrow> Some None
            | [v] \<Rightarrow> upgrade L v ctx
            | _ \<Rightarrow> None) of
        Some (Some v) \<Rightarrow> response\<lparr>resp_headers := hm_insert ''location'' v (resp_headers response)\<rparr>
      | Some None \<Rightarrow> response
      | None \<Rightarrow> bad_gateway)"

definition set_security_header :: "Context \<Rightarrow> header_map \<Rightarrow> string \<times> string \<Rightarrow> header_map" where
  "set_security_header ctx h entry =
     (if fst entry \<noteq> ''strict-transport-security'' \<or> ctx_https ctx then hm_insert (fst entry) (snd entry) h
      else hm_remove (fst entry) h)"

text \<open>The names that the \<^verbatim>\<open>Trailer\<close> header lines declare; \<^term>\<open>None\<close> when one of them is not readable.\<close>

definition declared_trailers :: "('a) response_lib_scheme \<Rightarrow> header_map \<Rightarrow> string list option" where
  "declared_trailers L h =
     Option.bind (those (map (header_to_str L) (hm_values h ''trailer'')))
       (\<lambda>vs. those (map (\<lambda>n. case header_name L (str_trim n) of Inr name \<Rightarrow> Some name | Inl _ \<Rightarrow> None)
              (concat (map (split_on (CHR '','')) vs))))"

definition rewrite_trailer :: "('a) response_lib_scheme \<Rightarrow> string list \<Rightarrow> header_map \<Rightarrow> header_map" where
  "rewrite_trailer L protected h =
     (let declared = declared_trailers L h;
          h = hm_remove ''trailer'' h
      in case declared of
           None \<Rightarrow> h
         | Some names \<Rightarrow>
             (let names = join '', '' (filter (\<lambda>n. n \<notin> set protected) names)
              in if names = [] then h
                 else (case header_value L names of Inr v \<Rightarrow> hm_insert ''trailer'' v h | Inl _ \<Rightarrow> h)))"

fun protect_frame :: "string list \<Rightarrow> Frame \<Rightarrow> Frame" where
  "protect_frame protected (TrailersFrame t) = TrailersFrame (fold hm_remove protected t)"
| "protect_frame protected frame = frame"

definition apply_response ::
  "('a) response_lib_scheme \<Rightarrow> response \<Rightarrow> response_compiled list \<Rightarrow> Context option \<Rightarrow> response" where
  "apply_response L response rules context = (case context of
     None \<Rightarrow> response
   | Some ctx \<Rightarrow>
       (let selected = filter (rule_selects_host ctx) rules
        in if selected = [] then response
           else
             let response = (if ctx_https ctx \<and> list_ex rc_upgrade selected \<and> is_redirection (resp_status response)
                             then upgrade_redirect L ctx response else response);
                 entries = concat (map rc_headers selected);
                 protected = map fst entries @ [''location''];
                 headers = foldl (set_security_header ctx) (resp_headers response) entries
             in response\<lparr>resp_headers := rewrite_trailer L protected headers,
                         resp_body := map (protect_frame protected) (resp_body response)\<rparr>))"

section \<open>Policies cannot be undone\<close>

lemma compile_security_header_Inr:
  "compile_security_header L (hs, b) entry = Inr (hs', b') \<Longrightarrow>
     (\<exists>name v. hs' = hs @ [(name, v)] \<and> name \<in> set ALLOWED \<and> name \<notin> fst ` set hs)"
  by (auto simp: compile_security_header_def)

lemma compile_security_headers:
  assumes "try_fold (compile_security_header L) ([], b) es = Inr (hs, b')"
  shows "set (map fst hs) \<subseteq> set ALLOWED \<and> distinct (map fst hs)"
proof -
  let ?P = "\<lambda>(hs, b :: nat). set (map fst hs) \<subseteq> set ALLOWED \<and> distinct (map fst (hs :: (string \<times> string) list))"
  have "?P (hs, b')"
  proof (rule try_fold_invariant [where P = ?P, OF _ _ assms])
    show "?P s'" if "?P s" "compile_security_header L s x = Inr s'" for s x s'
      using that compile_security_header_Inr [of L "fst s" "snd s" x "fst s'" "snd s'"] by (cases s; cases s') (fastforce simp: subset_iff)
  qed simp
  then show ?thesis by simp
qed

lemma prepare_response_allowed:
  assumes "prepare_response L rules = Inr compiled"
  shows "list_all (\<lambda>c. set (map fst (rc_headers c)) \<subseteq> set ALLOWED \<and> distinct (map fst (rc_headers c))) compiled"
proof -
  let ?Q = "\<lambda>c. set (map fst (rc_headers c)) \<subseteq> set ALLOWED \<and> distinct (map fst (rc_headers c))"
  let ?P = "\<lambda>(cs, b :: nat). list_all ?Q cs"
  obtain b where run: "try_fold (compile_response_rule L) ([], 0) rules = Inr (compiled, b)"
    using assms by (auto simp: prepare_response_def)
  have "?P (compiled, b)"
  proof (rule try_fold_invariant [where P = ?P, OF _ _ run])
    show "?P s'" if "?P s" "compile_response_rule L s x = Inr s'" for s x s'
      using that compile_security_headers [of L] by (cases s) (fastforce simp: compile_response_rule_def)
  qed simp
  then show ?thesis by simp
qed

lemma security_header_value:
  "hm_values (set_security_header ctx h e) n = (if n = fst e
     then (if n \<noteq> ''strict-transport-security'' \<or> ctx_https ctx then [snd e] else []) else hm_values h n)"
  by (simp add: set_security_header_def)

lemma security_headers_values:
  "hm_values (foldl (set_security_header ctx) h es) n = (case map_of (rev es) n of
     None \<Rightarrow> hm_values h n
   | Some v \<Rightarrow> if n \<noteq> ''strict-transport-security'' \<or> ctx_https ctx then [v] else [])"
  by (induction es rule: rev_induct) (simp_all add: security_header_value)

lemma rewrite_trailer_values: "n \<noteq> ''trailer'' \<Longrightarrow> hm_values (rewrite_trailer L ps h) n = hm_values h n"
  by (simp add: rewrite_trailer_def Let_def split: option.split sum.split)

lemma fold_remove_values: "hm_values (fold hm_remove ns t) n = (if n \<in> set ns then [] else hm_values t n)"
  by (induction ns arbitrary: t) simp_all

definition frame_trailers :: "Frame \<Rightarrow> string \<Rightarrow> string list" where
  "frame_trailers f n = (case f of TrailersFrame t \<Rightarrow> hm_values t n | DataFrame _ \<Rightarrow> [])"

lemma protect_frame_trailers: "n \<in> set ps \<Longrightarrow> frame_trailers (protect_frame ps f) n = []"
  by (cases f) (simp_all add: frame_trailers_def fold_remove_values)

text \<open>
  C37. With prepared rules, whatever the upstream sent: a security header that a selecting rule
  sets has exactly the value of the last such rule; strict transport security never survives on a
  plaintext connection once a selecting rule names it; and no body trailer carries such a header
  or a location.
\<close>

theorem response_policy_enforced:
  assumes "prepare_response L rules = Inr compiled" "selected = filter (rule_selects_host ctx) compiled"
    and "map_of (rev (concat (map rc_headers selected))) name = Some v"
    and "final = apply_response L response compiled (Some ctx)"
  shows "hm_values (resp_headers final) name = (if name = ''strict-transport-security'' \<and> \<not> ctx_https ctx then [] else [v])
    \<and> list_all (\<lambda>f. frame_trailers f name = [] \<and> frame_trailers f ''location'' = []) (resp_body final)"
proof -
  obtain rule where rule: "rule \<in> set selected" "name \<in> fst ` set (rc_headers rule)"
    using map_of_SomeD [OF assms(3)] by force
  then have "name \<in> set ALLOWED" using prepare_response_allowed [OF assms(1)] assms(2) by (fastforce simp: list_all_iff)
  then have name: "name \<noteq> ''trailer''" by (auto simp: ALLOWED_def)
  have "name \<in> fst ` set (concat (map rc_headers selected))" using rule by auto
  moreover have "selected \<noteq> []" using rule by auto
  ultimately show ?thesis
    using assms(2-4) name by (auto simp: apply_response_def Let_def rewrite_trailer_values security_headers_values
        list_all_iff protect_frame_trailers split: option.splits)
qed

section \<open>Redirect upgrades\<close>

lemma after_first_colon: "CHR '':'' \<notin> set a \<Longrightarrow> after_first ''://'' (a @ ''://'' @ t) = Some t"
  by (induction a) auto

lemma location_scheme_Some:
  assumes "location_scheme raw = Some scheme" "prefix ''//'' (drop (length scheme + 1) raw)"
  obtains t where "raw = scheme @ ''://'' @ t" "CHR '':'' \<notin> set scheme"
proof -
  have s: "scheme = takeWhile (\<lambda>c. c \<noteq> CHR '':'') raw" "CHR '':'' \<in> set raw"
    using assms(1) by (auto simp: location_scheme_def Let_def split: if_splits)
  then obtain u where u: "dropWhile (\<lambda>c. c \<noteq> CHR '':'') raw = CHR '':'' # u"
    using hd_dropWhile [of "\<lambda>c. c \<noteq> CHR '':''" raw]
    by (cases "dropWhile (\<lambda>c. c \<noteq> CHR '':'') raw") (auto simp: dropWhile_eq_Nil_conv)
  then have raw: "raw = scheme @ CHR '':'' # u" using s takeWhile_dropWhile_id [of "\<lambda>c. c \<noteq> CHR '':''" raw] by metis
  then obtain t where "u = ''//'' @ t" using assms(2) by (auto simp: prefix_def)
  moreover have "CHR '':'' \<notin> set scheme" using s(1) set_takeWhileD by fastforce
  ultimately show thesis using raw that by simp
qed

text \<open>
  A rewritten location keeps everything behind its authority; it was an absolute plaintext URL
  of the host the response is for, on the default port, and becomes the secure one on the port of
  that host. Nothing else is rewritten.
\<close>

theorem redirect_upgrade_same_host:
  assumes "upgrade L v ctx = Some (Some out)"
  shows "\<exists>scheme auth rest a. header_to_str L v = Some (scheme @ ''://'' @ auth @ rest)
    \<and> eq_ignore_ascii_case scheme ''http'' \<and> (rest = [] \<or> authority_end (hd rest)) \<and> \<not> list_ex authority_end auth
    \<and> parse_authority L auth = Inr a \<and> auth_port_u16 a \<in> {None, Some 80}
    \<and> eq_ignore_ascii_case (trim_end_matches (CHR ''.'') (auth_host a)) (trim_end_matches (CHR ''.'') (auth_host (ctx_authority ctx)))
    \<and> header_value L (''https://'' @ ctx_target ctx @ rest) = Inr out"
proof -
  from assms obtain raw scheme where raw: "header_to_str L v = Some raw" "location_scheme raw = Some scheme"
    "prefix ''//'' (drop (length scheme + 1) raw)"
    by (auto simp: upgrade_def split: option.splits if_splits)
  obtain t where t: "raw = scheme @ ''://'' @ t" "CHR '':'' \<notin> set scheme" using location_scheme_Some [OF raw(2,3)] .
  let ?host = "\<lambda>c. \<not> authority_end c"
  have tail: "after_first ''://'' raw = Some t" using after_first_colon [OF t(2)] t(1) by simp
  have scheme: "take (length raw - (length t + 3)) raw = scheme" using t(1) by simp
  have rest: "dropWhile ?host t = [] \<or> authority_end (hd (dropWhile ?host t))"
    using hd_dropWhile [of ?host t] by blast
  have auth: "\<not> list_ex authority_end (takeWhile ?host t)" by (auto simp: list_ex_iff dest: set_takeWhileD)
  have split: "raw = scheme @ ''://'' @ takeWhile ?host t @ dropWhile ?host t" using t(1) by simp
  from assms obtain a where "parse_authority L (takeWhile ?host t) = Inr a" "auth_port_u16 a \<in> {None, Some 80}"
    "eq_ignore_ascii_case scheme ''http''" "header_value L (''https://'' @ ctx_target ctx @ dropWhile ?host t) = Inr out"
    "eq_ignore_ascii_case (trim_end_matches (CHR ''.'') (auth_host a)) (trim_end_matches (CHR ''.'') (auth_host (ctx_authority ctx)))"
    by (auto simp: upgrade_def raw(1,2) Let_def tail scheme split: if_splits sum.splits option.splits)
  then show ?thesis using raw(1) split rest auth by metis
qed

definition plain_authority :: "string \<Rightarrow> string + authority" where
  "plain_authority v = (if v = [] then Inl ''empty'' else
     Inr \<lparr>auth_str = v, auth_host = v, auth_has_port = False, auth_port_u16 = None\<rparr>)"

definition plain_response :: response_lib where
  "plain_response = csrf_lib.extend plain_csrf
     \<lparr>parse_authority = plain_authority, header_name = (\<lambda>n. Inr (map to_lower n)), header_value = Inr\<rparr>"

definition demo_context :: Context where
  "demo_context = \<lparr>ctx_authority = \<lparr>auth_str = ''a.example'', auth_host = ''a.example'', auth_has_port = False,
     auth_port_u16 = None\<rparr>, ctx_https = True, ctx_explicit_port = Some 8443\<rparr>"

definition demo_response_rules :: "response_rule list" where
  "demo_response_rules = [\<lparr>rs_hosts = [''*.example''], upgrade_same_host_redirect = True,
     rs_headers = [(''X-Frame-Options'', ''DENY'')]\<rparr>]"

definition demo_response :: response where
  "demo_response = \<lparr>resp_status = 302,
     resp_headers = \<lparr>hm_keys = [''location'', ''x-frame-options''],
       hm_values = (\<lambda>n. if n = ''location'' then [''http://a.example/x?y''] else if n = ''x-frame-options'' then [''ALLOWALL''] else [])\<rparr>,
     resp_body = [TrailersFrame \<lparr>hm_keys = [''x-frame-options''], hm_values = (\<lambda>n. [''ALLOWALL''])\<rparr>]\<rparr>"

theorem redirect_upgrade_same_host_witness:
  "upgrade plain_response ''http://a.example/x?y'' demo_context = Some (Some ''https://a.example:8443/x?y'')
   \<and> (\<exists>scheme auth rest. header_to_str plain_response ''http://a.example/x?y'' = Some (scheme @ ''://'' @ auth @ rest))"
proof -
  have up: "upgrade plain_response ''http://a.example/x?y'' demo_context = Some (Some ''https://a.example:8443/x?y'')"
    by code_simp
  from redirect_upgrade_same_host [OF up] up show ?thesis by blast
qed

theorem response_policy_enforced_witness:
  "\<exists>compiled. prepare_response plain_response demo_response_rules = Inr compiled
   \<and> hm_values (resp_headers (apply_response plain_response demo_response compiled (Some demo_context))) ''x-frame-options'' = [''DENY'']"
proof -
  define compiled where "compiled = [\<lparr>rc_hosts = [''*.example''], rc_upgrade = True, rc_headers = [(''x-frame-options'', ''DENY'')]\<rparr>]"
  have prep: "prepare_response plain_response demo_response_rules = Inr compiled" unfolding compiled_def by code_simp
  have sel: "map_of (rev (concat (map rc_headers (filter (rule_selects_host demo_context) compiled)))) ''x-frame-options'' = Some ''DENY''"
    unfolding compiled_def by code_simp
  from response_policy_enforced [OF prep refl sel refl, of demo_response] prep show ?thesis by auto
qed

end
