(* ===== verification/ProxyHeaders.thy ===== *)
theory ProxyHeaders
  imports ResponseSecurity StdNet
begin

text \<open>
  The header and path hygiene of the request pipeline: the pure functions of \<^verbatim>\<open>src/src/proxy.rs\<close> that
  decide what a client may smuggle past the gateway. Header values are their bytes; the
  sensitivity mark of a \<^verbatim>\<open>HeaderValue\<close>, which only affects debug output, is not modelled.
\<close>

section \<open>Text\<close>

text \<open>\<^verbatim>\<open>str::replace\<close> with a nonempty pattern and \<^verbatim>\<open>str::split\<close> on a set of characters.\<close>

function str_replace :: "string \<Rightarrow> string \<Rightarrow> string \<Rightarrow> string" where
  "str_replace p r [] = []"
| "str_replace p r (c # s) =
     (if p \<noteq> [] \<and> prefix p (c # s) then r @ str_replace p r (drop (length p - 1) s) else c # str_replace p r s)"
  by pat_completeness auto
termination by (relation "measure (\<lambda>(p, r, s). length s)") auto

fun split_by :: "(char \<Rightarrow> bool) \<Rightarrow> string \<Rightarrow> string list" where
  "split_by P [] = [[]]"
| "split_by P (c # s) =
     (if P c then [] # split_by P s
      else (case split_by P s of [] \<Rightarrow> [[c]] | p # ps \<Rightarrow> (c # p) # ps))"

text \<open>\<^verbatim>\<open>str::trim\<close> on any well-formed text: the UTF-8 encodings of Unicode's \<^verbatim>\<open>White_Space\<close>.\<close>

definition WHITE :: "string list" where
  "WHITE = map (map char_of)
     ([[9::nat], [10], [11], [12], [13], [32], [194, 133], [194, 160], [225, 154, 128]]
      @ map (\<lambda>x. [226, 128, x]) [128, 129, 130, 131, 132, 133, 134, 135, 136, 137, 138, 168, 169, 175]
      @ [[226, 129, 159], [227, 128, 128]])"

fun trim_start_fuel :: "nat \<Rightarrow> string \<Rightarrow> string" where
  "trim_start_fuel 0 s = s"
| "trim_start_fuel (Suc n) s = (case find (\<lambda>w. prefix w s) WHITE of
     None \<Rightarrow> s | Some w \<Rightarrow> trim_start_fuel n (drop (length w) s))"

fun trim_end_fuel :: "nat \<Rightarrow> string \<Rightarrow> string" where
  "trim_end_fuel 0 s = s"
| "trim_end_fuel (Suc n) s = (case find (\<lambda>w. suffix w s) WHITE of
     None \<Rightarrow> s | Some w \<Rightarrow> trim_end_fuel n (take (length s - length w) s))"

definition utf8_trim :: "string \<Rightarrow> string" where
  "utf8_trim s = (let s = trim_start_fuel (length s) s in trim_end_fuel (length s) s)"

section \<open>Paths\<close>

definition path_has_dot_segment :: "string \<Rightarrow> bool" where
  "path_has_dot_segment path =
     (let normalized = str_replace ''%5C'' [CHR 0x5C] (str_replace ''%5c'' [CHR 0x5C]
            (str_replace ''%2F'' ''/'' (str_replace ''%2f'' ''/'' path)))
      in list_ex (\<lambda>segment.
           let decoded = str_replace ''%2E'' ''.'' (str_replace ''%2e'' ''.'' segment)
           in decoded = ''.'' \<or> decoded = ''..'')
         (split_by (\<lambda>c. c = CHR ''/'' \<or> c = CHR 0x5C) normalized))"

section \<open>Connection headers\<close>

definition STANDARD_HOP_BY_HOP :: "string list" where
  "STANDARD_HOP_BY_HOP = [''connection'', ''keep-alive'', ''proxy-connection'', ''proxy-authenticate'',
     ''proxy-authorization'', ''te'', ''trailer'', ''transfer-encoding'', ''upgrade'']"

definition connection_tokens :: "('a) response_lib_scheme \<Rightarrow> header_map \<Rightarrow> string list" where
  "connection_tokens L h =
     List.map_filter (\<lambda>v. if utf8_decode v = None then None else parse_header_name L (utf8_trim v))
       (concat (map (split_on (CHR '','')) (hm_values h ''connection'')))"

definition has_duplicate_header :: "header_map \<Rightarrow> string \<Rightarrow> bool" where
  "has_duplicate_header h n \<longleftrightarrow> length (hm_values h n) > 1"

definition is_forwarding_identity_header :: "string \<Rightarrow> bool" where
  "is_forwarding_identity_header n \<longleftrightarrow> n \<in> set [''forwarded'', ''x-real-ip'', ''host''] \<or> prefix ''x-forwarded-'' n"

definition strip_standard_hop_by_hop :: "header_map \<Rightarrow> header_map" where
  "strip_standard_hop_by_hop h = fold hm_remove STANDARD_HOP_BY_HOP h"

definition drop_client_connection_marked_headers :: "('a) response_lib_scheme \<Rightarrow> header_map \<Rightarrow> header_map" where
  "drop_client_connection_marked_headers L h =
     fold hm_remove (filter (\<lambda>n. n \<notin> set STANDARD_HOP_BY_HOP) (connection_tokens L h)) h"

definition strip_hop_by_hop :: "('a) response_lib_scheme \<Rightarrow> header_map \<Rightarrow> header_map" where
  "strip_hop_by_hop L h = strip_standard_hop_by_hop (fold hm_remove (connection_tokens L h) h)"

definition strip_forwarding_headers :: "header_map \<Rightarrow> header_map" where
  "strip_forwarding_headers h =
     fold hm_remove (filter (\<lambda>n. n \<in> set [''forwarded'', ''x-real-ip''] \<or> prefix ''x-forwarded-'' n) (hm_keys h)) h"

section \<open>Framing\<close>

definition parse_content_length :: "string \<Rightarrow> nat option" where
  "parse_content_length v =
     (if v = [] \<or> length v > 20 \<or> \<not> list_all is_ascii_digit v then None else parse_u64 v)"

definition canonicalize_content_length :: "header_map \<Rightarrow> header_map option" where
  "canonicalize_content_length h = (case hm_values h ''content-length'' of
     [] \<Rightarrow> Some h
   | first # values \<Rightarrow>
       (case parse_content_length first of
          None \<Rightarrow> None
        | Some len \<Rightarrow>
            if \<not> list_all (\<lambda>v. parse_content_length v = Some len) values then None
            else if values \<noteq> [] \<or> first \<noteq> nat_text len then Some (hm_insert ''content-length'' (nat_text len) h)
            else Some h))"

section \<open>Cookies\<close>

text \<open>\<^verbatim>\<open>HeaderValue::from_bytes\<close> is \<open>header_value\<close>; allocation failures are not modelled.\<close>

definition join_cookie_headers :: "('a) response_lib_scheme \<Rightarrow> header_map \<Rightarrow> header_map option" where
  "join_cookie_headers L h = (case hm_values h ''cookie'' of
     first # second # values \<Rightarrow>
       if sum_list (map (\<lambda>v. length v + 2) (first # second # values)) \<ge> 2 ^ 64 then None
       else (case header_value L (join ''; '' (first # second # values)) of
               Inl _ \<Rightarrow> None
             | Inr v \<Rightarrow> Some (hm_insert ''cookie'' v h))
   | _ \<Rightarrow> Some h)"

definition is_cookie_token_byte :: "char \<Rightarrow> bool" where
  "is_cookie_token_byte c \<longleftrightarrow> c \<in> set ''!#$%&*+-.^_`|~'' \<or> c = CHR 0x27 \<or> is_ascii_alphanumeric c"

definition contains_cookie_name :: "string \<Rightarrow> string \<Rightarrow> bool" where
  "contains_cookie_name bytes name =
     (if name = [] \<or> length bytes < length name then False
      else list_ex (\<lambda>at.
             take (length name) (drop at bytes) = name
             \<and> (at = 0 \<or> \<not> is_cookie_token_byte (bytes ! (at - 1)))
             \<and> (case drop (at + length name) bytes of [] \<Rightarrow> True | b # _ \<Rightarrow> \<not> is_cookie_token_byte b))
           [0..<Suc (length bytes - length name)])"

text \<open>Splitting on semicolons outside quotes; \<open>pair\<close> is the pair read so far.\<close>

fun split_cookie_loop :: "bool \<Rightarrow> string \<Rightarrow> string \<Rightarrow> string list option" where
  "split_cookie_loop inq pair [] = (if inq then None else Some [pair])"
| "split_cookie_loop inq pair (c # s) =
     (if c = CHR 0x5C \<and> inq
      then (case s of [] \<Rightarrow> None | d # s' \<Rightarrow> split_cookie_loop inq (pair @ [c, d]) s')
      else if c = CHR 0x22 then split_cookie_loop (\<not> inq) (pair @ [c]) s
      else if c = CHR '';'' \<and> \<not> inq then map_option (Cons pair) (split_cookie_loop inq [] s)
      else split_cookie_loop inq (pair @ [c]) s)"

definition split_cookie_pairs :: "string \<Rightarrow> string list option" where
  "split_cookie_pairs v = split_cookie_loop False [] v"

definition cookie_name :: "string \<Rightarrow> string" where
  "cookie_name pair = (if CHR ''='' \<in> set pair then trim_ascii (takeWhile (\<lambda>c. c \<noteq> CHR ''='') pair) else pair)"

definition kept_pairs :: "string list \<Rightarrow> string list \<Rightarrow> string list" where
  "kept_pairs names pairs =
     filter (\<lambda>pair. pair \<noteq> [] \<and> cookie_name pair \<notin> set names) (map trim_ascii pairs)"

definition strip_request_cookies :: "('a) response_lib_scheme \<Rightarrow> string list \<Rightarrow> header_map \<Rightarrow> header_map" where
  "strip_request_cookies L names h =
     (if hm_values h ''cookie'' = [] then h
      else
        let h' = hm_remove ''cookie'' h
        in case those (map split_cookie_pairs (hm_values h ''cookie'')) of
             None \<Rightarrow> h'
           | Some pairs \<Rightarrow>
               (let kept = join ''; '' (kept_pairs names (concat pairs))
                in if list_ex (contains_cookie_name kept) names \<or> kept = [] then h'
                   else (case header_value L kept of Inr v \<Rightarrow> hm_insert ''cookie'' v h' | Inl _ \<Rightarrow> h')))"

section \<open>Identity and policy headers\<close>

definition collapse_duplicate_policy_headers :: "('a) response_lib_scheme \<Rightarrow> header_map \<Rightarrow> header_map option" where
  "collapse_duplicate_policy_headers L h =
     Option.bind (join_cookie_headers L h) (\<lambda>h.
       if list_ex (\<lambda>n. has_duplicate_header h n \<and> n \<notin> set STANDARD_HOP_BY_HOP \<and> \<not> is_forwarding_identity_header n) (hm_keys h)
       then None else Some h)"

definition sensitive_mutation :: "string \<Rightarrow> bool" where
  "sensitive_mutation n \<longleftrightarrow> n \<in> set [''host'', ''connection'', ''keep-alive'', ''proxy-authenticate'', ''proxy-authorization'',
     ''proxy-connection'', ''x-real-ip'', ''te'', ''trailer'', ''transfer-encoding'', ''upgrade'', ''content-length'',
     ''forwarded'', ''authorization'', ''cookie'']
   \<or> prefix ''x-forwarded-'' n \<or> prefix ''sec-websocket-'' n"

text \<open>Applying a policy's mutations; an error leaves the headers as they are at that point, and the caller refuses the request.\<close>

fun apply_policy_headers ::
  "('a) response_lib_scheme \<Rightarrow> header_map \<Rightarrow> (string \<times> string) list \<Rightarrow> string list \<Rightarrow> string option \<Rightarrow> string list \<Rightarrow> header_map option" where
  "apply_policy_headers L h [] protected basic_identity auth_reserved = Some h"
| "apply_policy_headers L h ((name, v) # mutations) protected basic_identity auth_reserved =
     (case parse_header_name L name of
        None \<Rightarrow> None
      | Some name \<Rightarrow>
          if sensitive_mutation name \<or> list_ex (\<lambda>p. eq_ignore_ascii_case p name) protected
             \<or> (case basic_identity of Some p \<Rightarrow> eq_ignore_ascii_case p name | None \<Rightarrow> False)
             \<or> name \<in> set auth_reserved
          then None
          else (case header_value L v of
                  Inl _ \<Rightarrow> None
                | Inr v \<Rightarrow> apply_policy_headers L (hm_insert name v h) mutations protected basic_identity auth_reserved))"

definition reassert_identity_headers :: "(string \<times> string) list \<Rightarrow> string list \<Rightarrow> header_map \<Rightarrow> header_map" where
  "reassert_identity_headers identity auth_reserved h =
     fold (\<lambda>(n, v). hm_insert n v) identity (fold hm_remove (map fst identity) (fold hm_remove auth_reserved h))"

definition apply_response_header_rules ::
  "('a) response_lib_scheme \<Rightarrow> header_map \<Rightarrow> string list \<Rightarrow> (string \<times> string) list \<Rightarrow> string list \<Rightarrow> header_map" where
  "apply_response_header_rules L h global_remove set_rules remove =
     (let h = fold hm_remove global_remove h;
          h = fold (\<lambda>name h. case header_name L name of Inr n \<Rightarrow> hm_remove n h | Inl _ \<Rightarrow> h) remove h
      in fold (\<lambda>(name, v) h.
           (case (header_name L name, header_value L v) of
              (Inr n, Inr v) \<Rightarrow>
                if n \<notin> set STANDARD_HOP_BY_HOP \<and> n \<notin> set [''content-length'', ''content-encoding'', ''content-range'']
                then hm_insert n v h else h
            | _ \<Rightarrow> h)) set_rules h)"

definition bearer_token :: "('a) response_lib_scheme \<Rightarrow> header_map \<Rightarrow> string option" where
  "bearer_token L h = (case hm_values h ''authorization'' of
     [v] \<Rightarrow> Option.bind (header_to_str L v) (\<lambda>text.
       if CHR '' '' \<notin> set text then None
       else
         let scheme = takeWhile (\<lambda>c. c \<noteq> CHR '' '') text;
             token = drop (length scheme + 1) text
         in if eq_ignore_ascii_case scheme ''Bearer'' \<and> token \<noteq> [] \<and> \<not> list_ex is_ascii_whitespace token
            then Some token else None)
   | _ \<Rightarrow> None)"

section \<open>Dot segments\<close>

text \<open>
  The reference: one pass that decodes the escapes a backend may decode before it resolves
  \<^verbatim>\<open>..\<close>. \<open>E a b\<close> is the character that the escape \<^verbatim>\<open>%ab\<close> stands for, if it is decoded.
\<close>

fun decode_with :: "(char \<Rightarrow> char \<Rightarrow> char option) \<Rightarrow> string \<Rightarrow> string" where
  "decode_with E (c # a # b # s) =
     (if c = CHR ''%''
      then (case E a b of Some d \<Rightarrow> d # decode_with E s | None \<Rightarrow> c # decode_with E (a # b # s))
      else c # decode_with E (a # b # s))"
| "decode_with E s = s"

definition escape_of :: "char \<Rightarrow> char \<Rightarrow> char option" where
  "escape_of a b =
     (if a = CHR ''2'' \<and> b \<in> set ''fF'' then Some (CHR ''/'')
      else if a = CHR ''5'' \<and> b \<in> set ''cC'' then Some (CHR 0x5C)
      else if a = CHR ''2'' \<and> b \<in> set ''eE'' then Some (CHR ''.'')
      else None)"

definition one_escape :: "char \<Rightarrow> char \<Rightarrow> char \<Rightarrow> char \<Rightarrow> char \<Rightarrow> char option" where
  "one_escape x y d a b = (if a = x \<and> b = y then Some d else None)"

definition also_escape :: "(char \<Rightarrow> char \<Rightarrow> char option) \<Rightarrow> (char \<Rightarrow> char \<Rightarrow> char option) \<Rightarrow> char \<Rightarrow> char \<Rightarrow> char option" where
  "also_escape E1 E2 a b = (case E2 a b of Some d \<Rightarrow> Some d | None \<Rightarrow> E1 a b)"

lemma str_replace_escape: "str_replace [CHR ''%'', x, y] [d] s = decode_with (one_escape x y d) s"
  by (induction "one_escape x y d" s rule: decode_with.induct) (auto simp: one_escape_def)

text \<open>Decoded characters never start or complete another escape, so the order of decoding does not matter.\<close>

definition plain_escapes :: "(char \<Rightarrow> char \<Rightarrow> char option) \<Rightarrow> (char \<Rightarrow> bool) \<Rightarrow> bool" where
  "plain_escapes E hex \<longleftrightarrow> (\<forall>a b d. E a b = Some d \<longrightarrow> hex a \<and> hex b \<and> \<not> hex d \<and> d \<noteq> CHR ''%'')"

lemma decode_with_head:
  "\<lbrakk>c \<noteq> CHR ''%''\<rbrakk> \<Longrightarrow> decode_with E (c # s) = c # decode_with E s"
  by (cases s; cases "tl s") simp_all

lemma decode_with_first:
  assumes "plain_escapes E hex" "\<not> hex (CHR ''%'')" "decode_with E s = x # u" "hex x"
  obtains r where "s = x # r" "x \<noteq> CHR ''%''" "u = decode_with E r"
proof -
  obtain a r where s: "s = a # r" using assms(3) by (cases s) auto
  have "a \<noteq> CHR ''%''"
  proof
    assume "a = CHR ''%''"
    then show False using assms unfolding s plain_escapes_def
      by (cases r; cases "tl r") (auto split: option.splits)
  qed
  then show thesis using that assms(3) decode_with_head [of a E r] s by auto
qed

lemma decode_with_twice:
  assumes E2: "plain_escapes E2 hex" and E1: "plain_escapes E1 hex" and pct: "\<not> hex (CHR ''%'')"
  shows "decode_with E1 (decode_with E2 s) = decode_with (also_escape E1 E2) s"
proof (induction s rule: length_induct)
  case (1 s)
  let ?D = "decode_with (also_escape E1 E2)"
  show ?case
  proof (cases "\<exists>a b t. s = CHR ''%'' # a # b # t")
    case False
    show ?thesis
    proof (cases s)
      case (Cons c r)
      then consider "c \<noteq> CHR ''%''" | "r = []" | a where "r = [a]" using False by (cases r; cases "tl r") auto
      then show ?thesis
      proof cases
        case 1
        then show ?thesis using "1.IH" [rule_format, of r] Cons by (simp add: decode_with_head)
      qed (simp_all add: Cons)
    qed simp
  next
    case True
    then obtain a b t where s: "s = CHR ''%'' # a # b # t" by blast
    have IH: "decode_with E1 (decode_with E2 t) = ?D t" "decode_with E1 (decode_with E2 (a # b # t)) = ?D (a # b # t)"
      using "1.IH" [rule_format, of t] "1.IH" [rule_format, of "a # b # t"] by (simp_all only: s list.size)
    have D: "?D s = (case E2 a b of Some d \<Rightarrow> d # ?D t
        | None \<Rightarrow> (case E1 a b of Some d \<Rightarrow> d # ?D t | None \<Rightarrow> CHR ''%'' # ?D (a # b # t)))"
      "decode_with E2 s = (case E2 a b of Some d \<Rightarrow> d # decode_with E2 t | None \<Rightarrow> CHR ''%'' # decode_with E2 (a # b # t))"
      unfolding s decode_with.simps(1) also_escape_def [of E1 E2 a b] by (simp_all split: option.split)
    show ?thesis
    proof (cases "E2 a b")
      case (Some d)
      then have "d \<noteq> CHR ''%''" using E2 by (auto simp: plain_escapes_def)
      then show ?thesis unfolding D using Some IH(1) by (simp add: decode_with_head)
    next
      case None
      show ?thesis
      proof (cases "E1 a b")
        case (Some e)
        then have "hex a" "hex b" using E1 by (auto simp: plain_escapes_def)
        then have "a \<noteq> CHR ''%''" "b \<noteq> CHR ''%''" using pct by auto
        then have "decode_with E2 (a # b # t) = a # b # decode_with E2 t" by (simp add: decode_with_head)
        then show ?thesis unfolding D using None Some IH(1) by simp
      next
        case no: None
        have "decode_with E1 (CHR ''%'' # decode_with E2 (a # b # t)) = CHR ''%'' # decode_with E1 (decode_with E2 (a # b # t))"
        proof (cases "\<exists>x y u e. decode_with E2 (a # b # t) = x # y # u \<and> E1 x y = Some e")
          case True
          then obtain x y u e where u: "decode_with E2 (a # b # t) = x # y # u" "E1 x y = Some e" by blast
          then have hex: "hex x" "hex y" using E1 by (auto simp: plain_escapes_def)
          obtain r where r: "a # b # t = x # r" "y # u = decode_with E2 r"
            using decode_with_first [OF E2 pct u(1) hex(1)] by metis
          obtain r' where "r = y # r'" using decode_with_first [OF E2 pct r(2) [symmetric] hex(2)] by metis
          then show ?thesis using no u(2) r(1) by simp
        next
          case False
          then show ?thesis
            by (cases "decode_with E2 (a # b # t)"; cases "tl (decode_with E2 (a # b # t))") (auto split: option.splits)
        qed
        then show ?thesis unfolding D using None no IH(2) by (simp del: decode_with.simps)
      qed
    qed
  qed
qed

lemma split_by_neq_Nil [simp]: "split_by P s \<noteq> []"
  by (cases s) (auto split: list.splits)

lemma split_by_decode:
  assumes E: "plain_escapes E hex" and sep: "\<And>c. P c \<Longrightarrow> \<not> hex c \<and> c \<noteq> CHR ''%''"
    and out: "\<And>a b d. E a b = Some d \<Longrightarrow> \<not> P d" and pct: "\<not> P (CHR ''%'')"
  shows "split_by P (decode_with E s) = map (decode_with E) (split_by P s)"
proof (induction s rule: length_induct)
  case (1 s)
  show ?case
  proof (cases s)
    case (Cons c r)
    obtain p ps where r: "split_by P r = p # ps" by (cases "split_by P r") auto
    have IH: "split_by P (decode_with E r) = decode_with E p # map (decode_with E) ps" using 1 Cons r by simp
    show ?thesis
    proof (cases "c = CHR ''%''")
      case False
      then show ?thesis using IH r by (simp add: Cons decode_with_head)
    next
      case c: True
      show ?thesis
      proof (cases "\<exists>a b t d. r = a # b # t \<and> E a b = Some d")
        case True
        then obtain a b t d where t: "r = a # b # t" "E a b = Some d" by blast
        obtain q qs where q: "split_by P t = q # qs" by (cases "split_by P t") auto
        have "hex a" "hex b" using E t(2) by (auto simp: plain_escapes_def)
        then have "\<not> P a" "\<not> P b" "\<not> P d" using sep out [OF t(2)] by blast+
        moreover have "split_by P (decode_with E t) = decode_with E q # map (decode_with E) qs" using 1 Cons t q by simp
        ultimately show ?thesis using q t(2) pct by (simp add: Cons c t(1))
      next
        case False
        have "decode_with E (c # r) = c # decode_with E r"
          using False c by (cases r; cases "tl r") (auto split: option.splits)
        moreover have "decode_with E (c # p) = c # decode_with E p"
        proof (cases "\<exists>a b q. p = a # b # q")
          case True
          then obtain a b q where "p = a # b # q" by blast
          with r obtain t where "r = a # b # t"
            by (cases r; cases "tl r") (auto split: if_splits list.splits)
          then have "E a b = None" using False by (cases "E a b") auto
          then show ?thesis using \<open>p = a # b # q\<close> by simp
        next
          case False
          then show ?thesis by (cases p; cases "tl p") auto
        qed
        ultimately show ?thesis using IH r pct c by (simp add: Cons)
      qed
    qed
  qed simp
qed

definition escape_char :: "char \<Rightarrow> bool" where
  "escape_char c \<longleftrightarrow> is_ascii_alphanumeric c"

lemma one_escape_plain:
  "escape_char x \<Longrightarrow> escape_char y \<Longrightarrow> \<not> escape_char d \<Longrightarrow> d \<noteq> CHR ''%'' \<Longrightarrow> plain_escapes (one_escape x y d) escape_char"
  by (auto simp: plain_escapes_def one_escape_def)

lemma also_escape_plain: "plain_escapes E1 hex \<Longrightarrow> plain_escapes E2 hex \<Longrightarrow> plain_escapes (also_escape E1 E2) hex"
  by (auto simp: plain_escapes_def also_escape_def split: option.splits)

lemma also_escape_assoc: "also_escape (also_escape A B) C = also_escape A (also_escape B C)"
  by (intro ext) (simp add: also_escape_def split: option.split)

lemma escape_char_simps [simp]:
  "escape_char (CHR ''2'')" "escape_char (CHR ''5'')" "escape_char (CHR ''c'')" "escape_char (CHR ''C'')" "escape_char (CHR ''e'')"
  "escape_char (CHR ''E'')" "escape_char (CHR ''f'')" "escape_char (CHR ''F'')"
  "\<not> escape_char (CHR ''/'')" "\<not> escape_char (CHR 0x5C)" "\<not> escape_char (CHR ''.'')" "\<not> escape_char (CHR ''%'')"
  by code_simp+

definition path_separator :: "char \<Rightarrow> bool" where
  "path_separator c \<longleftrightarrow> c = CHR ''/'' \<or> c = CHR 0x5C"

text \<open>
  C39. A path is refused exactly when, after the escapes of dots and separators are decoded in one
  pass, some segment between slashes or backslashes is \<^verbatim>\<open>.\<close> or \<^verbatim>\<open>..\<close>: the chain of textual
  replacements neither misses a dot segment nor invents one.
\<close>

theorem dot_segments_exact:
  "path_has_dot_segment path \<longleftrightarrow>
     list_ex (\<lambda>segment. segment = ''.'' \<or> segment = ''..'') (split_by path_separator (decode_with escape_of path))"
proof -
  let ?slash = "also_escape (one_escape (CHR ''2'') (CHR ''F'') (CHR ''/'')) (one_escape (CHR ''2'') (CHR ''f'') (CHR ''/''))"
  let ?bs = "also_escape (one_escape (CHR ''5'') (CHR ''C'') (CHR 0x5C)) (one_escape (CHR ''5'') (CHR ''c'') (CHR 0x5C))"
  let ?dot = "also_escape (one_escape (CHR ''2'') (CHR ''E'') (CHR ''.'')) (one_escape (CHR ''2'') (CHR ''e'') (CHR ''.''))"
  have plain: "plain_escapes ?slash escape_char" "plain_escapes ?bs escape_char" "plain_escapes ?dot escape_char"
    by (intro also_escape_plain one_escape_plain; simp)+
  have merge: "str_replace ''%5C'' [CHR 0x5C] (str_replace ''%5c'' [CHR 0x5C]
      (str_replace ''%2F'' ''/'' (str_replace ''%2f'' ''/'' path))) = decode_with (also_escape ?bs ?slash) path"
    "str_replace ''%2E'' ''.'' (str_replace ''%2e'' ''.'' s) = decode_with ?dot s" for s
    unfolding str_replace_escape
    by (simp_all add: decode_with_twice [where hex = escape_char] one_escape_plain also_escape_plain also_escape_assoc)
  have all: "decode_with ?dot (decode_with (also_escape ?bs ?slash) path) = decode_with escape_of path"
  proof -
    have "also_escape ?dot (also_escape ?bs ?slash) = escape_of"
      by (intro ext) (auto simp: also_escape_def one_escape_def escape_of_def)
    then show ?thesis using decode_with_twice [OF also_escape_plain [OF plain(2,1)] plain(3)] by simp
  qed
  have "map (decode_with ?dot) (split_by path_separator (decode_with (also_escape ?bs ?slash) path))
      = split_by path_separator (decode_with escape_of path)"
    unfolding all [symmetric]
    by (rule split_by_decode [OF plain(3), symmetric])
      (auto simp: path_separator_def also_escape_def one_escape_def split: option.splits if_splits)
  moreover have "list_ex (\<lambda>s. decode_with ?dot s = ''.'' \<or> decode_with ?dot s = ''..'') xs
      \<longleftrightarrow> list_ex (\<lambda>s. s = ''.'' \<or> s = ''..'') (map (decode_with ?dot) xs)" for xs
    by (simp add: list_ex_iff)
  ultimately show ?thesis
    unfolding path_has_dot_segment_def merge Let_def path_separator_def [symmetric] by simp
qed

section \<open>Content length\<close>

lemma parse_content_length_Some:
  "parse_content_length v = Some n \<longleftrightarrow>
     v \<noteq> [] \<and> length v \<le> 20 \<and> list_all is_ascii_digit v \<and> digits_value v = n \<and> n < 2 ^ 64"
proof -
  have "v \<noteq> [] \<Longrightarrow> list_all is_ascii_digit v \<Longrightarrow> hd v \<noteq> CHR ''+''"
    by (cases v) (auto simp: is_ascii_digit_def)
  then show ?thesis by (cases v) (auto simp: parse_content_length_def parse_u64_def Let_def split: if_splits)
qed

text \<open>
  A request with length fields goes on only when all of them are decimal numbers of the same
  64-bit value; what goes on has exactly one field with the canonical decimal text of that value,
  and all other headers unchanged. Everything else is refused.
\<close>

theorem content_length_canonical:
  "(case canonicalize_content_length h of
      None \<Rightarrow> hm_values h ''content-length'' \<noteq> []
        \<and> (\<nexists>n. list_all (\<lambda>v. parse_content_length v = Some n) (hm_values h ''content-length''))
    | Some h' \<Rightarrow>
        (hm_values h ''content-length'' = [] \<and> h' = h
         \<or> (\<exists>n. list_all (\<lambda>v. parse_content_length v = Some n) (hm_values h ''content-length'')
              \<and> n < 2 ^ 64 \<and> hm_values h' ''content-length'' = [nat_text n]))
        \<and> (\<forall>m. m = ''content-length'' \<or> hm_values h' m = hm_values h m))"
proof (cases "hm_values h ''content-length''")
  case Nil
  then show ?thesis by (simp add: canonicalize_content_length_def)
next
  case (Cons first rest)
  show ?thesis
  proof (cases "parse_content_length first")
    case None
    then show ?thesis using Cons by (simp add: canonicalize_content_length_def)
  next
    case (Some n)
    then have "n < 2 ^ 64" by (simp add: parse_content_length_Some)
    then show ?thesis using Cons Some by (auto simp: canonicalize_content_length_def)
  qed
qed

section \<open>Removed cookies\<close>

text \<open>
  A backend may split the header at semicolons, with or without regard to quotes, at commas, or at
  white space. A piece is a cookie of the name when its trimmed text is the name or starts with
  the name and an equals sign.
\<close>

definition cookie_boundary :: "char \<Rightarrow> bool" where
  "cookie_boundary c \<longleftrightarrow> \<not> is_cookie_token_byte c"

definition piece_names :: "string \<Rightarrow> string \<Rightarrow> bool" where
  "piece_names p n \<longleftrightarrow> (\<exists>w1 rest. list_all cookie_boundary w1 \<and> p = w1 @ n @ rest \<and> (rest = [] \<or> cookie_boundary (hd rest)))"

lemma contains_cookie_nameI:
  assumes "n \<noteq> []" "v = a @ n @ b" "a = [] \<or> cookie_boundary (last a)" "b = [] \<or> cookie_boundary (hd b)"
  shows "contains_cookie_name v n"
proof -
  have at: "length a \<in> set [0..<Suc (length v - length n)]" "take (length n) (drop (length a) v) = n"
    using assms(2) by auto
  have "length a = 0 \<or> \<not> is_cookie_token_byte (v ! (length a - 1))"
    using assms(2,3) by (cases a rule: rev_cases) (auto simp: nth_append cookie_boundary_def)
  moreover have "case drop (length a + length n) v of [] \<Rightarrow> True | c # _ \<Rightarrow> \<not> is_cookie_token_byte c"
    using assms(2,4) by (cases b) (auto simp: cookie_boundary_def)
  moreover have "\<not> (n = [] \<or> length v < length n)" using assms(1,2) by simp
  ultimately show ?thesis unfolding contains_cookie_name_def list_ex_iff using at
    by (simp only: if_False) (rule bexI [OF _ at(1)], blast)
qed

lemma piece_contains:
  assumes "v = pre @ p @ post" "pre = [] \<or> cookie_boundary (last pre)" "post = [] \<or> cookie_boundary (hd post)"
    and "piece_names p n" "n \<noteq> []"
  shows "contains_cookie_name v n"
proof -
  obtain w rest where p: "list_all cookie_boundary w" "p = w @ n @ rest" "rest = [] \<or> cookie_boundary (hd rest)"
    using assms(4) by (auto simp: piece_names_def)
  show ?thesis
  proof (rule contains_cookie_nameI [OF assms(5)])
    show "v = (pre @ w) @ n @ (rest @ post)" using assms(1) p(2) by simp
    show "pre @ w = [] \<or> cookie_boundary (last (pre @ w))" using assms(2) p(1) by (cases w rule: rev_cases) auto
    show "rest @ post = [] \<or> cookie_boundary (hd (rest @ post))" using assms(3) p(3) by (cases rest) auto
  qed
qed

lemma split_by_first:
  "split_by P s = q # qs \<Longrightarrow> qs = [] \<and> s = q \<or> (\<exists>c s'. P c \<and> s = q @ c # s' \<and> split_by P s' = qs)"
proof (induction s arbitrary: q)
  case (Cons c s)
  obtain r rs where r: "split_by P s = r # rs" by (cases "split_by P s") auto
  show ?case
  proof (cases "P c")
    case False
    then have "q = c # r" "qs = rs" using Cons.prems r by auto
    then show ?thesis using Cons.IH r by fastforce
  qed (use Cons.prems in auto)
qed simp

lemma split_by_context:
  "p \<in> set (split_by P s) \<Longrightarrow> \<exists>pre post. s = pre @ p @ post \<and> (pre = [] \<or> P (last pre)) \<and> (post = [] \<or> P (hd post))"
proof (induction s rule: length_induct)
  case (1 s)
  obtain q qs where q: "split_by P s = q # qs" by (cases "split_by P s") auto
  from split_by_first [OF q] show ?case
  proof
    assume "qs = [] \<and> s = q"
    then have "s = [] @ p @ []" using 1 q by simp
    then show ?thesis by blast
  next
    assume "\<exists>c s'. P c \<and> s = q @ c # s' \<and> split_by P s' = qs"
    then obtain c s' where c: "P c" "s = q @ c # s'" "split_by P s' = qs" by blast
    show ?thesis
    proof (cases "p = q")
      case True
      then have "s = [] @ p @ (c # s')" using c by simp
      then show ?thesis using c(1) by (metis list.sel(1))
    next
      case False
      then have "p \<in> set (split_by P s')" using "1.prems" c(3) q by simp
      moreover have "length s' < length s" using c(2) by simp
      ultimately obtain pre post where *: "s' = pre @ p @ post" "pre = [] \<or> P (last pre)" "post = [] \<or> P (hd post)"
        using "1.IH" by blast
      then have "s = (q @ c # pre) @ p @ post" using c by simp
      moreover have "P (last (q @ c # pre))" using *(2) c(1) by auto
      ultimately show ?thesis using *(3) by blast
    qed
  qed
qed

text \<open>
  After the listed cookies are removed, no backend finds one of them: however it cuts the
  header at characters that cannot be part of a cookie name, no piece of it is a cookie of a
  listed name. The header is dropped or a single field with exactly the unlisted pairs in their
  order, and no other header changes. The parser of header values is assumed to keep the bytes.
\<close>

theorem listed_cookies_removed:
  assumes "h' = strip_request_cookies L names h" "n \<in> set names" "n \<noteq> []"
    and "\<And>v w. header_value L v = Inr w \<Longrightarrow> w = v"
    and "v \<in> set (hm_values h' ''cookie'')"
  shows "(\<forall>P p. (\<forall>c. P c \<longrightarrow> cookie_boundary c) \<longrightarrow> p \<in> set (split_by P v) \<longrightarrow> \<not> piece_names p n)
    \<and> (\<exists>pairs. map split_cookie_pairs (hm_values h ''cookie'') = map Some pairs \<and> v = join ''; '' (kept_pairs names (concat pairs)))
    \<and> (\<forall>m. m = ''cookie'' \<or> hm_values h' m = hm_values h m)"
proof -
  have those: "those xs = Some ys \<longleftrightarrow> xs = map Some ys" for xs :: "string list option list" and ys
    by (induction xs arbitrary: ys) (auto split: option.splits)
  obtain pairs where pairs: "map split_cookie_pairs (hm_values h ''cookie'') = map Some pairs"
    and v: "v = join ''; '' (kept_pairs names (concat pairs))" "\<not> list_ex (contains_cookie_name v) names"
    using assms(1,4,5)
    by (auto simp: strip_request_cookies_def Let_def those [symmetric] split: if_splits option.splits sum.splits)
  have no: "\<not> contains_cookie_name v n" using v(2) assms(2) by (auto simp: list_ex_iff)
  have "\<not> piece_names p n" if P: "\<forall>c. P c \<longrightarrow> cookie_boundary c" and p: "p \<in> set (split_by P v)" for P p
    using split_by_context [OF p] P piece_contains [of v _ p _ n] assms(3) no by metis
  then have all: "\<forall>P p. (\<forall>c. P c \<longrightarrow> cookie_boundary c) \<longrightarrow> p \<in> set (split_by P v) \<longrightarrow> \<not> piece_names p n" by blast
  have other: "\<forall>m. m = ''cookie'' \<or> hm_values h' m = hm_values h m"
    unfolding assms(1) by (auto simp: strip_request_cookies_def Let_def split: option.splits sum.splits)
  show ?thesis using all other pairs v(1) by blast
qed


definition demo_cookies :: header_map where
  "demo_cookies = \<lparr>hm_keys = [''cookie''], hm_values = (\<lambda>n. if n = ''cookie'' then [''a=1; sid=x'', ''b=2''] else [])\<rparr>"

theorem listed_cookies_removed_witness:
  "hm_values (strip_request_cookies plain_response [''sid''] demo_cookies) ''cookie'' = [''a=1; b=2'']
   \<and> \<not> piece_names ''a=1; b=2'' ''sid''"
proof -
  have v: "hm_values (strip_request_cookies plain_response [''sid''] demo_cookies) ''cookie'' = [''a=1; b=2'']" by code_simp
  have "header_value plain_response v = Inr w \<Longrightarrow> w = v" for v w
    by (simp add: plain_response_def plain_csrf_def plain_http_def response_lib.defs csrf_lib.defs http_lib.defs)
  from listed_cookies_removed [where L = plain_response and names = "[''sid'']" and h = demo_cookies, OF refl _ _ this]
  have "\<And>P p. (\<forall>c. P c \<longrightarrow> cookie_boundary c) \<Longrightarrow> p \<in> set (split_by P ''a=1; b=2'') \<Longrightarrow> \<not> piece_names p ''sid''"
    using v by (metis list.set_intros(1) list.distinct(1))
  from this [of "\<lambda>_. False" "''a=1; b=2''"] v show ?thesis by simp
qed

end
