(* ===== verification/TrustedProxy.thy ===== *)
theory TrustedProxy
  imports Http
begin

text \<open>
  \<^verbatim>\<open>src/trusted_proxy.rs\<close>: the client address and scheme that explicitly trusted proxies
  report. \<open>net_contains\<close> is \<^verbatim>\<open>ipnet::IpNet::contains\<close>, a parameter.
\<close>

abbreviation (input) MAX_FORWARDED_HOPS :: nat where
  "MAX_FORWARDED_HOPS \<equiv> 256"

datatype forwarded_error = InvalidForwardedHeader

definition is_trusted :: "('net \<Rightarrow> ip_addr \<Rightarrow> bool) \<Rightarrow> ip_addr \<Rightarrow> 'net list \<Rightarrow> bool" where
  "is_trusted net_contains ip trusted =
     (let ip' = to_canonical ip in list_ex (\<lambda>network. net_contains network ip') trusted)"

text \<open>The body of the inner loop of \<^verbatim>\<open>client_ip_from_forwarded\<close>, over the items of one value.\<close>

definition push_hop :: "ip_addr list \<Rightarrow> string \<Rightarrow> forwarded_error + ip_addr list" where
  "push_hop forwarded raw =
     (let item = str_trim raw
      in if item = [] \<or> length forwarded = MAX_FORWARDED_HOPS then Inl InvalidForwardedHeader
         else res_bind (ok_or InvalidForwardedHeader (parse_ip_addr item))
                (\<lambda>ip. Inr (forwarded @ [to_canonical ip])))"

definition push_value :: "http_lib \<Rightarrow> ip_addr list \<Rightarrow> string \<Rightarrow> forwarded_error + ip_addr list" where
  "push_value L forwarded v =
     res_bind (ok_or InvalidForwardedHeader (header_to_str L v))
       (\<lambda>text_value. try_fold push_hop forwarded (split_on (CHR '','') text_value))"

definition client_ip_from_forwarded ::
  "http_lib \<Rightarrow> ('net \<Rightarrow> ip_addr \<Rightarrow> bool) \<Rightarrow> ip_addr \<Rightarrow> header_map \<Rightarrow> 'net list
   \<Rightarrow> forwarded_error + ip_addr" where
  "client_ip_from_forwarded L net_contains peer headers trusted =
     res_bind (try_fold (push_value L) [] (hm_values headers ''x-forwarded-for'')) (\<lambda>forwarded.
       case find (\<lambda>ip. \<not> is_trusted net_contains ip trusted) (rev forwarded) of
         Some ip \<Rightarrow> Inr ip
       | None \<Rightarrow> (case forwarded of [] \<Rightarrow> Inr (to_canonical peer) | ip # _ \<Rightarrow> Inr ip))"

definition forwarded_proto :: "http_lib \<Rightarrow> header_map \<Rightarrow> bool \<Rightarrow> string" where
  "forwarded_proto L headers transport_tls =
     (case hm_values headers ''x-forwarded-proto'' of
        [] \<Rightarrow> if transport_tls then ''https'' else ''http''
      | [v] \<Rightarrow>
          (case header_to_str L v of
             None \<Rightarrow> ''http''
           | Some s \<Rightarrow> if eq_ignore_ascii_case s ''https'' then ''https'' else ''http'')
      | _ \<Rightarrow> ''http'')"

section \<open>Lemmas\<close>

text \<open>A loop that only appends appends the same items whatever it starts from.\<close>

definition appends :: "('a list \<Rightarrow> 'b \<Rightarrow> 'e + 'a list) \<Rightarrow> bool" where
  "appends f \<longleftrightarrow> (\<forall>s x s'. f s x = Inr s' \<longrightarrow> (\<exists>d. s' = s @ d \<and> (\<forall>t t'. f t x = Inr t' \<longrightarrow> t' = t @ d)))"

lemma appends_try_fold:
  assumes "appends f"
  shows "appends (try_fold f)"
  unfolding appends_def
proof (intro allI impI)
  fix s xs s'
  show "try_fold f s xs = Inr s' \<Longrightarrow>
    \<exists>d. s' = s @ d \<and> (\<forall>t t'. try_fold f t xs = Inr t' \<longrightarrow> t' = t @ d)"
  proof (induction xs arbitrary: s)
    case (Cons x xs)
    obtain m where m: "f s x = Inr m" "try_fold f m xs = Inr s'" using Cons.prems by (auto split: sum.splits)
    obtain d where d: "m = s @ d" "\<And>t t'. f t x = Inr t' \<Longrightarrow> t' = t @ d"
      using assms m(1) unfolding appends_def by blast
    obtain e where e: "s' = m @ e" "\<And>t t'. try_fold f t xs = Inr t' \<Longrightarrow> t' = t @ e"
      using Cons.IH [OF m(2)] by blast
    show ?case
    proof (intro exI conjI allI impI)
      show "s' = s @ (d @ e)" using d e by simp
      fix t t' assume "try_fold f t (x # xs) = Inr t'"
      then obtain n where "f t x = Inr n" "try_fold f n xs = Inr t'" by (auto split: sum.splits)
      then show "t' = t @ (d @ e)" using d(2) e(2) by fastforce
    qed
  qed simp
qed

lemma appends_push_hop: "appends push_hop"
  by (auto simp: appends_def push_hop_def Let_def split: if_splits)

lemma appends_push_value: "appends (push_value L)"
proof -
  have a: "appends (try_fold push_hop)" by (rule appends_try_fold [OF appends_push_hop])
  show ?thesis unfolding appends_def push_value_def
  proof (intro allI impI, goal_cases)
    case (1 s x s')
    then obtain v where v: "header_to_str L x = Some v" "try_fold push_hop s (split_on (CHR '','') v) = Inr s'"
      by auto
    then show ?case using a unfolding appends_def by (auto simp: v(1))
  qed
qed

lemma push_hop_bound:
  assumes "push_hop s x = Inr s'" and "length s \<le> MAX_FORWARDED_HOPS"
  shows "length s' \<le> MAX_FORWARDED_HOPS"
  using assms by (auto simp: push_hop_def Let_def split: if_splits)

lemma push_value_bound:
  assumes "push_value L s x = Inr s'" and "length s \<le> MAX_FORWARDED_HOPS"
  shows "length s' \<le> MAX_FORWARDED_HOPS"
proof -
  obtain v where v: "try_fold push_hop s (split_on (CHR '','') v) = Inr s'"
    using assms(1) by (auto simp: push_value_def)
  show ?thesis
    by (rule try_fold_invariant [OF _ _ v, where P = "\<lambda>s. length s \<le> MAX_FORWARDED_HOPS"])
      (use assms(2) push_hop_bound in auto)
qed

lemma find_rev_Some:
  assumes "find P (rev xs) = Some x"
  shows "\<exists>pre post. xs = pre @ x # post \<and> P x \<and> (\<forall>y\<in>set post. \<not> P y)"
  using assms
proof (induction xs rule: rev_induct)
  case (snoc y xs)
  show ?case
  proof (cases "P y")
    case True
    then show ?thesis using snoc.prems by (intro exI [of _ xs] exI [of _ "[]"]) simp
  next
    case False
    then obtain pre post where "xs = pre @ x # post" "P x" "\<forall>y\<in>set post. \<not> P y"
      using snoc by auto
    then show ?thesis using False by (intro exI [of _ pre] exI [of _ "post @ [y]"]) simp
  qed
qed simp

lemma push_value_nonempty:
  assumes "push_value L s x = Inr s'"
  shows "s' \<noteq> []"
proof -
  obtain v where v: "try_fold push_hop s (split_on (CHR '','') v) = Inr s'"
    using assms by (auto simp: push_value_def)
  show ?thesis
    by (rule try_fold_nonempty [OF _ v]) (auto simp: push_hop_def Let_def split: if_splits)
qed

lemma find_append_Some: "find P xs = Some x \<Longrightarrow> find P (xs @ ys) = Some x"
  by (induction xs) (auto split: if_splits)

section \<open>Properties\<close>

text \<open>
  The selected client address is the rightmost hop that is not trusted: every hop after
  it is a trusted proxy, and only a chain of trusted hops yields its first entry, an absent
  header the socket peer. At most 256 hops are accepted; every hop is canonical.
\<close>

theorem forwarded_client_rightmost:
  assumes "client_ip_from_forwarded L nc peer headers trusted = Inr ip"
  shows "\<exists>hops. try_fold (push_value L) [] (hm_values headers ''x-forwarded-for'') = Inr hops
    \<and> length hops \<le> MAX_FORWARDED_HOPS
    \<and> (hops = [] \<and> ip = to_canonical peer
       \<or> (\<exists>pre post. hops = pre @ ip # post \<and> list_all (\<lambda>h. is_trusted nc h trusted) post
            \<and> (is_trusted nc ip trusted \<longrightarrow> pre = [])))"
proof -
  obtain hops where h: "try_fold (push_value L) [] (hm_values headers ''x-forwarded-for'') = Inr hops"
    using assms by (auto simp: client_ip_from_forwarded_def)
  have len: "length hops \<le> MAX_FORWARDED_HOPS"
    by (rule try_fold_invariant [OF _ _ h, where P = "\<lambda>s. length s \<le> MAX_FORWARDED_HOPS"])
      (auto intro: push_value_bound)
  show ?thesis
  proof (cases "find (\<lambda>ip. \<not> is_trusted nc ip trusted) (rev hops)")
    case (Some x)
    then have "x = ip" using assms h by (simp add: client_ip_from_forwarded_def)
    then obtain pre post where "hops = pre @ ip # post" "\<not> is_trusted nc ip trusted"
      "list_all (\<lambda>h. is_trusted nc h trusted) post"
      using find_rev_Some [OF Some] by (auto simp: list_all_iff)
    then show ?thesis using h len by blast
  next
    case None
    then have all: "list_all (\<lambda>h. is_trusted nc h trusted) hops" by (simp add: find_None_iff list_all_iff)
    have "hops = [] \<and> ip = to_canonical peer \<or> (\<exists>post. hops = ip # post)"
      using assms h None by (cases hops) (auto simp: client_ip_from_forwarded_def)
    then show ?thesis using all h len
      by (elim disjE exE) (auto intro!: exI [of _ "[]"])
  qed
qed

definition demo_forwarded :: "string list \<Rightarrow> header_map" where
  "demo_forwarded vs = \<lparr>hm_keys = [''x-forwarded-for''], hm_values = (\<lambda>n. if n = ''x-forwarded-for'' then vs else [])\<rparr>"

theorem forwarded_client_rightmost_witness:
  "\<exists>hops. try_fold (push_value plain_http) [] [''1.2.3.4, 9.9.9.9''] = Inr hops
    \<and> length hops \<le> MAX_FORWARDED_HOPS
    \<and> (hops = [] \<and> V4 0x01020304 = to_canonical (V4 5)
       \<or> (\<exists>pre post. hops = pre @ V4 0x01020304 # post \<and> list_all (\<lambda>h. is_trusted (=) h [V4 0x09090909]) post
            \<and> (is_trusted (=) (V4 0x01020304) [V4 0x09090909] \<longrightarrow> pre = [])))"
proof -
  have "client_ip_from_forwarded plain_http (=) (V4 5) (demo_forwarded [''1.2.3.4, 9.9.9.9'']) [V4 0x09090909]
      = Inr (V4 0x01020304)" by code_simp
  from forwarded_client_rightmost [OF this] show ?thesis by (simp add: demo_forwarded_def)
qed

text \<open>
  C23. What a client writes in front cannot matter: if a chain selects a hop that is not
  trusted, every accepted chain with more header lines in front of it selects the same hop.
\<close>

theorem forwarded_prefix_irrelevant:
  assumes "client_ip_from_forwarded L nc peer headers trusted = Inr ip" and "\<not> is_trusted nc ip trusted"
    and "hm_values headers ''x-forwarded-for'' = vs" and "vs \<noteq> []"
    and "hm_values headers' ''x-forwarded-for'' = forged @ vs"
    and "client_ip_from_forwarded L nc peer' headers' trusted = Inr ip'"
  shows "ip' = ip"
proof -
  have ap: "appends (try_fold (push_value L))" by (rule appends_try_fold [OF appends_push_value])
  obtain hops where h: "try_fold (push_value L) [] vs = Inr hops"
    using assms(1,3) by (auto simp: client_ip_from_forwarded_def)
  obtain pre all' where p: "try_fold (push_value L) [] forged = Inr pre" "try_fold (push_value L) pre vs = Inr all'"
    using assms(5,6) by (auto simp: client_ip_from_forwarded_def try_fold_append)
  have all': "all' = pre @ hops" using ap h p(2) unfolding appends_def by fastforce
  have "hops \<noteq> []" using try_fold_nonempty [OF push_value_nonempty h] assms(4) by simp
  have "find (\<lambda>ip. \<not> is_trusted nc ip trusted) (rev hops) = Some ip"
  proof (cases "find (\<lambda>ip. \<not> is_trusted nc ip trusted) (rev hops)")
    case None
    then have "ip \<in> set hops" using assms(1,3) h \<open>hops \<noteq> []\<close>
      by (cases hops) (auto simp: client_ip_from_forwarded_def split: option.splits)
    then show ?thesis using None assms(2) by (auto simp: find_None_iff)
  next
    case (Some x)
    then show ?thesis using assms(1,3) h by (simp add: client_ip_from_forwarded_def)
  qed
  then have "find (\<lambda>ip. \<not> is_trusted nc ip trusted) (rev all') = Some ip"
    by (simp add: all' find_append_Some)
  then show ?thesis using assms(5,6) p by (simp add: client_ip_from_forwarded_def try_fold_append)
qed

theorem forwarded_prefix_irrelevant_witness:
  "client_ip_from_forwarded plain_http (=) (V4 5)
     (demo_forwarded [''8.8.8.8, 9.9.9.9'', ''1.2.3.4, 9.9.9.9'']) [V4 0x09090909] = Inr (V4 0x01020304)"
proof -
  have a: "client_ip_from_forwarded plain_http (=) (V4 5) (demo_forwarded [''1.2.3.4, 9.9.9.9'']) [V4 0x09090909]
      = Inr (V4 0x01020304)" by code_simp
  have t: "\<not> is_trusted (=) (V4 0x01020304) [V4 0x09090909]" by code_simp
  have "\<not> isl (client_ip_from_forwarded plain_http (=) (V4 5)
     (demo_forwarded [''8.8.8.8, 9.9.9.9'', ''1.2.3.4, 9.9.9.9'']) [V4 0x09090909])" by code_simp
  then obtain ip' where b: "client_ip_from_forwarded plain_http (=) (V4 5)
     (demo_forwarded [''8.8.8.8, 9.9.9.9'', ''1.2.3.4, 9.9.9.9'']) [V4 0x09090909] = Inr ip'"
    by (metis isl_def sum.exhaust)
  have "ip' = V4 0x01020304"
    by (rule forwarded_prefix_irrelevant [OF a t _ _ _ b, where forged = "[''8.8.8.8, 9.9.9.9'']"])
      (simp_all add: demo_forwarded_def)
  then show ?thesis using b by simp
qed

end
