(* ===== verification/StdNetText.thy ===== *)
theory StdNetText
  imports StdNet
begin

text \<open>
  The text of an address: \<^verbatim>\<open>Display for IpAddr\<close> of Rust's \<^verbatim>\<open>std::net\<close> (a dotted quad; the segments
  of an IPv6 address in hexadecimal with the first longest run of at least two zeros written
  \<^verbatim>\<open>::\<close>, an IPv4-mapped address as \<^verbatim>\<open>::ffff:a.b.c.d\<close>), and that the parser reads it back.
\<close>

section \<open>Printing\<close>

definition ipv4_text :: "nat \<Rightarrow> string" where
  "ipv4_text n = join ''.'' (map nat_text [n div 2 ^ 24 mod 256, n div 2 ^ 16 mod 256, n div 2 ^ 8 mod 256, n mod 256])"

definition segment_char :: "nat \<Rightarrow> char" where
  "segment_char n = (if n < 10 then char_of (48 + n) else char_of (87 + n))"

fun segment_text :: "nat \<Rightarrow> string" where
  "segment_text n = (if n < 16 then [segment_char n] else segment_text (n div 16) @ [segment_char (n mod 16)])"

declare segment_text.simps [simp del]

text \<open>\<^verbatim>\<open>fmt_subslice\<close> from the index \<open>i\<close> on: every segment but the first is preceded by a colon.\<close>

fun fmt_subslice :: "nat \<Rightarrow> nat list \<Rightarrow> string" where
  "fmt_subslice i [] = []"
| "fmt_subslice i (g # gs) = (if i = 0 then [] else '':'') @ segment_text g @ fmt_subslice (Suc i) gs"

definition ipv6_segments :: "nat \<Rightarrow> nat list" where
  "ipv6_segments n = map (\<lambda>i. n div 65536 ^ i mod 65536) (rev [0..<8])"

text \<open>The scan for the longest run: the best span and the current one, as start and length.\<close>

fun zero_span :: "(nat \<times> nat) \<Rightarrow> (nat \<times> nat) \<Rightarrow> nat \<Rightarrow> nat list \<Rightarrow> nat \<times> nat" where
  "zero_span longest current i [] = longest"
| "zero_span longest current i (g # gs) =
     (if g = 0 then
        let current = (if snd current = 0 then i else fst current, snd current + 1)
        in zero_span (if snd current > snd longest then current else longest) current (Suc i) gs
      else zero_span longest (0, 0) (Suc i) gs)"

definition ipv6_text :: "nat \<Rightarrow> string" where
  "ipv6_text n =
     (if n div 2 ^ 32 = 65535 then ''::ffff:'' @ ipv4_text (n mod 2 ^ 32)
      else
        let segments = ipv6_segments n; (start, len) = zero_span (0, 0) (0, 0) 0 segments
        in if len > 1 then fmt_subslice 0 (take start segments) @ ''::'' @ fmt_subslice 0 (drop (start + len) segments)
           else fmt_subslice 0 segments)"

fun ip_text :: "ip_addr \<Rightarrow> string" where
  "ip_text (V4 a) = ipv4_text (unat a)"
| "ip_text (V6 a) = ipv6_text (unat a)"

section \<open>Numbers\<close>

lemma read_digits_append:
  "map (digit_value b) ds = map Some vs \<Longrightarrow> rest = [] \<or> digit_value b (hd rest) = None
   \<Longrightarrow> read_digits b (ds @ rest) = (vs, rest)"
proof (induction ds arbitrary: vs)
  case Nil
  then show ?case by (cases rest) auto
next
  case (Cons d ds)
  then show ?case by (cases vs) auto
qed

lemma digit_value_digit_char: "n < 10 \<Longrightarrow> digit_value 10 (digit_char n) = Some n"
  by (simp add: digit_value_def)

lemma digit_value_segment_char: "n < 16 \<Longrightarrow> digit_value 16 (segment_char n) = Some n"
  by (auto simp: digit_value_def segment_char_def is_ascii_digit_def is_ascii_lower_def of_char_of)

text \<open>The digits \<open>vs\<close> of \<open>n\<close> in base \<open>b\<close>: no leading zero, and no more than the size of \<open>n\<close> allows.\<close>

definition reads_as :: "nat \<Rightarrow> nat \<Rightarrow> string \<Rightarrow> nat list \<Rightarrow> bool" where
  "reads_as b n s vs \<longleftrightarrow> map (digit_value b) s = map Some vs \<and> foldl (\<lambda>acc d. acc * b + d) 0 vs = n
     \<and> vs \<noteq> [] \<and> (hd vs = 0 \<longrightarrow> n = 0) \<and> (\<forall>k. n < b ^ k \<longrightarrow> 0 < k \<longrightarrow> length vs \<le> k)"

lemma reads_as_single: "digit_value b c = Some n \<Longrightarrow> reads_as b n [c] [n]"
  by (auto simp: reads_as_def)

lemma reads_as_snoc:
  assumes "reads_as b m s vs" "digit_value b c = Some d" "0 < m" "1 < b"
  shows "reads_as b (m * b + d) (s @ [c]) (vs @ [d])"
proof -
  have "length (vs @ [d]) \<le> k" if k: "m * b + d < b ^ k" "0 < k" for k
  proof -
    obtain j where j: "k = Suc j" using k(2) by (cases k) auto
    have "m * b < b * b ^ j" using add_lessD1 [OF k(1)] by (simp only: j power_Suc)
    then have "m < b ^ j" by (simp add: mult.commute [of m])
    moreover from this have "0 < j" using assms(3) by (cases j) auto
    ultimately show ?thesis using assms(1) j by (auto simp: reads_as_def)
  qed
  then show ?thesis using assms by (auto simp: reads_as_def)
qed

lemma nat_text_reads: "\<exists>vs. reads_as 10 n (nat_text n) vs"
proof (induction n rule: nat_text.induct)
  case (1 n)
  show ?case
  proof (cases "n < 10")
    case True
    then show ?thesis using reads_as_single [OF digit_value_digit_char [OF True]] by (subst nat_text.simps) auto
  next
    case False
    then obtain vs where "reads_as 10 (n div 10) (nat_text (n div 10)) vs" using 1 by blast
    from reads_as_snoc [OF this, of "digit_char (n mod 10)" "n mod 10"] False
    have "reads_as 10 n (nat_text n) (vs @ [n mod 10])" by (subst nat_text.simps) (simp add: digit_value_digit_char)
    then show ?thesis by blast
  qed
qed

lemma segment_text_reads: "\<exists>vs. reads_as 16 n (segment_text n) vs"
proof (induction n rule: segment_text.induct)
  case (1 n)
  show ?case
  proof (cases "n < 16")
    case True
    then show ?thesis using reads_as_single [OF digit_value_segment_char [OF True]] by (subst segment_text.simps) auto
  next
    case False
    then obtain vs where "reads_as 16 (n div 16) (segment_text (n div 16)) vs" using 1 by blast
    from reads_as_snoc [OF this, of "segment_char (n mod 16)" "n mod 16"] False
    have "reads_as 16 n (segment_text n) (vs @ [n mod 16])" by (subst segment_text.simps) (simp add: digit_value_segment_char)
    then show ?thesis by blast
  qed
qed

definition ends_number :: "nat \<Rightarrow> string \<Rightarrow> bool" where
  "ends_number b rest \<longleftrightarrow> rest = [] \<or> digit_value b (hd rest) = None"

lemma ends_number_simps [simp]:
  "ends_number b []" "ends_number b (CHR ''.'' # r)" "ends_number b (CHR '':'' # r)"
  by (simp_all add: ends_number_def digit_value_def is_ascii_digit_def is_ascii_lower_def is_ascii_upper_def)

lemma read_number_text:
  assumes "reads_as b n s vs" "ends_number b rest" "n < bound" "n < b ^ k" "0 < k" "1 < b"
  shows "read_number b k z bound (s @ rest) = Some (n, rest)"
proof -
  have "read_digits b (s @ rest) = (vs, rest)"
    using read_digits_append assms(1,2) by (simp add: ends_number_def reads_as_def)
  moreover have "length vs \<le> k" using assms(1,4,5) by (simp add: reads_as_def)
  moreover have "\<not> (hd vs = 0 \<and> 1 < length vs)"
  proof
    assume h: "hd vs = 0 \<and> 1 < length vs"
    then have "n < b ^ 1" using assms(1,6) by (simp add: reads_as_def)
    then show False using h assms(1) unfolding reads_as_def by (metis less_numeral_extra(1) not_le)
  qed
  ultimately show ?thesis using assms(1,3) by (auto simp: read_number_def reads_as_def)
qed

lemma read_octet_text: "n < 256 \<Longrightarrow> ends_number 10 rest \<Longrightarrow> read_octet (nat_text n @ rest) = Some (n, rest)"
  using read_number_text [of 10 n "nat_text n" _ rest 256 3] nat_text_reads [of n] by (auto simp: read_octet_def)

lemma read_group_text: "n < 65536 \<Longrightarrow> ends_number 16 rest \<Longrightarrow> read_group (segment_text n @ rest) = Some (n, rest)"
  using read_number_text [of 16 n "segment_text n" _ rest 65536 4] segment_text_reads [of n] by (auto simp: read_group_def)

section \<open>Reading back\<close>

lemma read_four:
  assumes "a < 256" "b < 256" "c < 256" "d < 256" "ends_number 10 rest"
  shows "read_ipv4_addr (nat_text a @ CHR ''.'' # nat_text b @ CHR ''.'' # nat_text c @ CHR ''.'' # nat_text d @ rest)
    = Some (((a * 256 + b) * 256 + c) * 256 + d, rest)"
proof -
  have 4: "(4::nat) = Suc (Suc (Suc (Suc 0)))" by simp
  show ?thesis using assms by (simp add: read_ipv4_addr_def 4 read_sep_def strip_prefix_def read_octet_text)
qed

lemma octets_value: "(n::nat) < 2 ^ 32 \<Longrightarrow>
  ((n div 2 ^ 24 mod 256 * 256 + n div 2 ^ 16 mod 256) * 256 + n div 2 ^ 8 mod 256) * 256 + n mod 256 = n"
proof -
  assume "n < 2 ^ 32"
  then have "n div 2 ^ 24 mod 256 = n div 2 ^ 24" by (simp add: less_mult_imp_div_less)
  moreover have "n div 2 ^ 24 = n div 2 ^ 16 div 256" "n div 2 ^ 16 = n div 2 ^ 8 div 256" "n div 2 ^ 8 = n div 256"
    by (simp_all add: div_mult2_eq [symmetric])
  ultimately show ?thesis by (simp add: mult.commute)
qed

lemma read_ipv4_text:
  assumes "n < 2 ^ 32" "ends_number 10 rest"
  shows "read_ipv4_addr (ipv4_text n @ rest) = Some (n, rest)"
proof -
  have "read_ipv4_addr (ipv4_text n @ rest) =
      Some (((n div 2 ^ 24 mod 256 * 256 + n div 2 ^ 16 mod 256) * 256 + n div 2 ^ 8 mod 256) * 256 + n mod 256, rest)"
    using read_four [OF _ _ _ _ assms(2)] unfolding ipv4_text_def by (simp only: list.map join.simps append_assoc append_Cons append_Nil)
  then show ?thesis by (simp only: octets_value [OF assms(1)])
qed

text \<open>A text without a dot is not an IPv4 address.\<close>

lemma read_digits_suffix: "read_digits b s = (vs, r) \<Longrightarrow> suffix r s"
  by (induction s arbitrary: vs) (auto split: option.splits prod.splits intro: suffix_ConsI)

lemma read_ipv4_needs_dot: "CHR ''.'' \<notin> set s \<Longrightarrow> read_ipv4_addr s = None"
proof -
  assume dot: "CHR ''.'' \<notin> set s"
  have 4: "(4::nat) = Suc (Suc (Suc (Suc 0)))" by simp
  have "strip_prefix ''.'' r = None" if "read_octet s = Some (v, r)" for v r
  proof -
    have "suffix r s" using that by (auto simp: read_octet_def read_number_def Let_def dest: read_digits_suffix split: prod.splits if_splits)
    then have "CHR ''.'' \<notin> set r" using dot set_mono_suffix by blast
    then show ?thesis by (cases r) (auto simp: strip_prefix_def)
  qed
  then show ?thesis by (auto simp: read_ipv4_addr_def 4 read_sep_def split: option.splits)
qed

lemma segment_char_neq: "segment_char n \<noteq> CHR ''.''" if "n < 16"
proof -
  have "byte (segment_char n) \<noteq> 46" using that by (auto simp: segment_char_def of_char_of)
  then show ?thesis by auto
qed

lemma segment_text_no_dot: "CHR ''.'' \<notin> set (segment_text n)"
proof (induction n rule: segment_text.induct)
  case (1 n)
  have "segment_char (n mod 16) \<noteq> CHR ''.''" "n < 16 \<Longrightarrow> segment_char n \<noteq> CHR ''.''" using segment_char_neq by simp_all
  then show ?case using 1 by (subst segment_text.simps) auto
qed

lemma fmt_subslice_no_dot: "CHR ''.'' \<notin> set (fmt_subslice i gs)"
  by (induction gs arbitrary: i) (simp_all add: segment_text_no_dot)

lemma read_group_none: "ends_number 16 rest \<Longrightarrow> read_group rest = None"
  by (cases rest) (auto simp: read_group_def read_number_def ends_number_def)

lemma fmt_subslice_ends: "rest = [] \<or> prefix ''::'' rest \<Longrightarrow> 0 < i \<Longrightarrow> ends_number 16 (fmt_subslice i gs @ rest)"
  by (cases gs) (auto simp: prefix_def)

lemma read_groups_text:
  assumes "rest = [] \<or> prefix ''::'' rest" "CHR ''.'' \<notin> set rest"
  shows "i + length gs \<le> limit \<Longrightarrow> \<forall>g\<in>set gs. g < 65536
    \<Longrightarrow> read_groups limit i (fmt_subslice i gs @ rest) = (gs, False, rest)"
proof (induction gs arbitrary: i)
  case Nil
  have "read_sep_ipv4 i rest = None"
    using read_ipv4_needs_dot assms by (auto simp: read_sep_ipv4_def read_sep_def strip_prefix_def prefix_def split: option.splits)
  moreover have "read_sep_group i rest = None"
    using read_group_none [of rest] read_group_none [of "tl rest"] assms(1)
    by (auto simp: read_sep_group_def read_sep_def strip_prefix_def prefix_def)
  ultimately show ?case by (subst read_groups.simps) auto
next
  case (Cons g gs)
  let ?s = "fmt_subslice i (g # gs) @ rest"
  have dot: "CHR ''.'' \<notin> set ?s" using fmt_subslice_no_dot [of i "g # gs"] assms(2) by (simp del: fmt_subslice.simps)
  have sep: "read_sep (CHR '':'') i ?s = Some (segment_text g @ fmt_subslice (Suc i) gs @ rest)"
    by (simp add: read_sep_def strip_prefix_def)
  then have "read_sep_ipv4 i ?s = None" using dot by (simp add: read_sep_ipv4_def read_ipv4_needs_dot)
  moreover have "read_sep_group i ?s = Some (g, fmt_subslice (Suc i) gs @ rest)"
    using read_group_text fmt_subslice_ends [OF assms(1)] Cons.prems sep by (simp add: read_sep_group_def)
  ultimately show ?case using Cons.IH [of "Suc i"] Cons.prems
    by (subst read_groups.simps) (auto simp del: fmt_subslice.simps)
qed

lemma zero_span_zero:
  assumes "snd longest > 0 \<longrightarrow> fst longest + snd longest \<le> length pre" "\<forall>j < snd longest. pre ! (fst longest + j) = 0"
    and "snd current > 0 \<longrightarrow> fst current + snd current = length pre" "\<forall>j < snd current. pre ! (fst current + j) = 0"
    and "zero_span longest current (length pre) gs = (start, len)"
  shows "(len > 0 \<longrightarrow> start + len \<le> length (pre @ gs)) \<and> (\<forall>j<len. (pre @ gs) ! (start + j) = 0)"
  using assms
proof (induction gs arbitrary: pre longest current)
  case (Cons g gs)
  show ?case
  proof (cases "g = 0")
    case True
    let ?c = "(if snd current = 0 then length pre else fst current, snd current + 1)"
    let ?l = "if snd ?c > snd longest then ?c else longest"
    have c: "fst ?c + snd ?c = length (pre @ [g])" using Cons.prems(3) by auto
    have cz: "\<forall>j < snd ?c. (pre @ [g]) ! (fst ?c + j) = 0"
      using Cons.prems(3,4) True by (auto simp: nth_append less_Suc_eq)
    have lz: "\<forall>j < snd longest. (pre @ [g]) ! (fst longest + j) = 0" using Cons.prems(1,2) by (auto simp: nth_append)
    have "(len > 0 \<longrightarrow> start + len \<le> length ((pre @ [g]) @ gs)) \<and> (\<forall>j<len. ((pre @ [g]) @ gs) ! (start + j) = 0)"
      by (rule Cons.IH [of ?l _ ?c]) (use Cons.prems(1,5) c cz lz True in \<open>auto simp: Let_def\<close>)
    then show ?thesis by simp
  next
    case False
    have "\<forall>j < snd longest. (pre @ [g]) ! (fst longest + j) = 0" using Cons.prems(1,2) by (auto simp: nth_append)
    then have "(len > 0 \<longrightarrow> start + len \<le> length ((pre @ [g]) @ gs)) \<and> (\<forall>j<len. ((pre @ [g]) @ gs) ! (start + j) = 0)"
      by (intro Cons.IH [of longest _ "(0, 0)"]) (use Cons.prems(1,5) False in auto)
    then show ?thesis by simp
  qed
qed auto

lemma groups_value_segments: "groups_value (map (\<lambda>i. n div 65536 ^ i mod 65536) (rev [0..<k])) = n mod 65536 ^ k"
proof (induction k arbitrary: n)
  case (Suc k)
  have "groups_value (map (\<lambda>i. n div 65536 ^ i mod 65536) (rev [0..<Suc k]))
      = groups_value (map (\<lambda>i. n div 65536 div 65536 ^ i mod 65536) (rev [0..<k])) * 65536 + n mod 65536"
    by (simp add: upt_conv_Cons [of 0] map_Suc_upt [symmetric] rev_map comp_def groups_value_def div_mult2_eq del: upt_Suc)
  then show ?case using Suc [of "n div 65536"] by (simp add: mod_mult2_eq mult.commute)
qed (simp add: groups_value_def)


lemma ipv6_segments_bound: "g \<in> set (ipv6_segments n) \<Longrightarrow> g < 65536"
  by (auto simp: ipv6_segments_def)

lemma length_ipv6_segments [simp]: "length (ipv6_segments n) = 8"
  by (simp add: ipv6_segments_def)

lemma groups_value_ipv6: "n < 2 ^ 128 \<Longrightarrow> groups_value (ipv6_segments n) = n"
  using groups_value_segments [of n 8] by (simp add: ipv6_segments_def)

lemma read_ipv6_plain:
  assumes "length gs = 8" "\<forall>g\<in>set gs. g < 65536"
  shows "read_ipv6_addr (fmt_subslice 0 gs) = Some (groups_value gs, [])"
  using read_groups_text [of "[]" 0 gs 8] assms by (simp add: read_ipv6_addr_def)

lemma read_ipv6_span:
  assumes "length a + length b \<le> 6" "\<forall>g\<in>set (a @ b). g < 65536"
  shows "read_ipv6_addr (fmt_subslice 0 a @ ''::'' @ fmt_subslice 0 b)
    = Some (groups_value (a @ replicate (8 - length a - length b) 0 @ b), [])"
proof -
  have "read_groups 8 0 (fmt_subslice 0 a @ ''::'' @ fmt_subslice 0 b) = (a, False, ''::'' @ fmt_subslice 0 b)"
    using read_groups_text [of "''::'' @ fmt_subslice 0 b" 0 a 8] fmt_subslice_no_dot [of 0 b] assms by simp
  moreover have "read_groups (8 - (length a + 1)) 0 (fmt_subslice 0 b @ []) = (b, False, [])"
    using assms by (intro read_groups_text) auto
  ultimately show ?thesis using assms(1) by (simp add: read_ipv6_addr_def strip_prefix_def)
qed

lemma groups_value_zeros: "groups_value (replicate k 0 @ gs) = groups_value gs"
  by (induction k) (simp_all add: groups_value_def)

lemma read_ipv4_no_digit: "digit_value 10 c = None \<Longrightarrow> read_ipv4_addr (c # t) = None"
  by (simp add: read_ipv4_addr_def numeral_eq_Suc read_sep_def read_octet_def read_number_def)

lemma no_digit: "digit_value 10 (CHR ''f'') = None" "digit_value 10 (CHR '':'') = None"
  by (simp_all add: digit_value_def is_ascii_digit_def is_ascii_lower_def is_ascii_upper_def)

lemma read_ipv6_mapped:
  assumes "a < 2 ^ 32"
  shows "read_ipv6_addr (''::ffff:'' @ ipv4_text a) = Some (65535 * 2 ^ 32 + a, [])"
proof -
  have group: "read_group (''ffff:'' @ t) = Some (65535, '':'' @ t)" for t
    by (simp add: read_group_def read_number_def digit_value_def is_ascii_digit_def is_ascii_lower_def is_ascii_upper_def)
  have head: "read_groups 8 0 (''::ffff:'' @ ipv4_text a) = ([], False, ''::ffff:'' @ ipv4_text a)"
    by (subst read_groups.simps) (simp add: read_sep_ipv4_def read_sep_group_def read_sep_def read_ipv4_no_digit no_digit read_group_none)
  have "read_groups 7 (Suc 0) ('':'' @ ipv4_text a) = ([a div 65536, a mod 65536], True, [])"
    using read_ipv4_text [OF assms, of "[]"]
    by (subst read_groups.simps) (simp add: read_sep_ipv4_def read_sep_def strip_prefix_def)
  then have tail: "read_groups 7 0 (''ffff:'' @ ipv4_text a) = ([65535, a div 65536, a mod 65536], True, [])"
    using group [of "ipv4_text a"]
    by (subst read_groups.simps) (simp add: read_sep_ipv4_def read_sep_group_def read_sep_def read_ipv4_no_digit no_digit)
  have "groups_value [65535, a div 65536, a mod 65536] = 65535 * 2 ^ 32 + a" by (simp add: groups_value_def)
  then show ?thesis using head tail by (simp add: read_ipv6_addr_def strip_prefix_def groups_value_zeros)
qed

lemma read_ipv6_text: "n < 2 ^ 128 \<Longrightarrow> read_ipv6_addr (ipv6_text n) = Some (n, [])"
proof -
  assume n: "n < 2 ^ 128"
  obtain start len where z: "zero_span (0, 0) (0, 0) 0 (ipv6_segments n) = (start, len)" by (cases "zero_span (0, 0) (0, 0) 0 (ipv6_segments n)")
  have zeros: "len > 0 \<longrightarrow> start + len \<le> 8" "\<forall>j<len. ipv6_segments n ! (start + j) = 0"
    using zero_span_zero [of "(0, 0)" "[]" "(0, 0)" "ipv6_segments n"] z by simp_all
  consider "n div 2 ^ 32 = 65535" | "n div 2 ^ 32 \<noteq> 65535" "len > 1" | "n div 2 ^ 32 \<noteq> 65535" "\<not> len > 1" by blast
  then show ?thesis
  proof cases
    case 1
    then have "65535 * 2 ^ 32 + n mod 2 ^ 32 = n" by (metis div_mult_mod_eq)
    then show ?thesis using read_ipv6_mapped [of "n mod 2 ^ 32"] 1 by (simp add: ipv6_text_def)
  next
    case 2
    let ?s = "ipv6_segments n" and ?a = "take start (ipv6_segments n)" and ?b = "drop (start + len) (ipv6_segments n)"
    have "take len (drop start ?s) = replicate len 0"
      using zeros 2 by (intro nth_equalityI) auto
    then have s: "?a @ replicate len 0 @ ?b = ?s" by (metis append_take_drop_id drop_drop add.commute)
    have "length ?a + length ?b \<le> 6" "8 - length ?a - length ?b = len" using zeros(1) 2 by auto
    moreover have "\<forall>g\<in>set (?a @ ?b). g < 65536" using ipv6_segments_bound by (auto dest: in_set_takeD in_set_dropD)
    ultimately have "read_ipv6_addr (ipv6_text n) = Some (groups_value (?a @ replicate len 0 @ ?b), [])"
      using read_ipv6_span [of ?a ?b] 2 z by (simp add: ipv6_text_def Let_def)
    then show ?thesis using s groups_value_ipv6 [OF n] by simp
  next
    case 3
    then show ?thesis using read_ipv6_plain [of "ipv6_segments n"] ipv6_segments_bound groups_value_ipv6 [OF n] z
      by (simp add: ipv6_text_def)
  qed
qed

lemma ipv6_text_not_ipv4: "read_ipv4_addr (ipv6_text n) = None"
proof (cases "n div 2 ^ 32 = 65535")
  case True
  then show ?thesis by (simp add: ipv6_text_def read_ipv4_no_digit no_digit)
next
  case False
  then have "CHR ''.'' \<notin> set (ipv6_text n)" by (auto simp: ipv6_text_def Let_def fmt_subslice_no_dot split: prod.splits if_splits)
  then show ?thesis by (rule read_ipv4_needs_dot)
qed

theorem parse_ip_text: "parse_ip_addr (ip_text ip) = Some ip"
proof (cases ip)
  case (V4 a)
  have "unat a < 2 ^ 32" using unsigned_less [of a] by simp
  then show ?thesis using read_ipv4_text [of "unat a" "[]"] V4 by (simp add: parse_ip_addr_def)
next
  case (V6 a)
  have "unat a < 2 ^ 128" using unsigned_less [of a] by simp
  then show ?thesis using read_ipv6_text ipv6_text_not_ipv4 V6 by (simp add: parse_ip_addr_def)
qed

text \<open>The text of an address is printable ASCII without blanks or commas.\<close>

definition ip_char :: "char \<Rightarrow> bool" where
  "ip_char c \<longleftrightarrow> is_ascii_digit c \<or> is_ascii_lower c \<or> c = CHR ''.'' \<or> c = CHR '':''"

lemma segment_text_chars: "list_all ip_char (segment_text n)"
proof (induction n rule: segment_text.induct)
  case (1 n)
  have "ip_char (segment_char m)" if "m < 16" for m
    using that by (auto simp: ip_char_def segment_char_def is_ascii_digit_def is_ascii_lower_def of_char_of)
  then show ?case using 1 by (subst segment_text.simps) auto
qed

lemma nat_text_chars: "list_all ip_char (nat_text n)"
  using nat_text_digits [of n] by (auto simp: list_all_iff ip_char_def)

lemma fmt_subslice_chars: "list_all ip_char (fmt_subslice i gs)"
  by (induction gs arbitrary: i) (simp_all add: segment_text_chars, simp add: ip_char_def)

lemma ip_text_chars: "list_all ip_char (ip_text ip)"
proof -
  have 4: "list_all ip_char (ipv4_text n)" for n
    by (simp add: ipv4_text_def nat_text_chars) (simp add: ip_char_def)
  have sep: "list_all ip_char ''::ffff:''" "list_all ip_char ''::''"
    by (simp_all add: ip_char_def is_ascii_digit_def is_ascii_lower_def)
  show ?thesis using 4 sep fmt_subslice_chars
    by (cases ip) (auto simp: ipv6_text_def Let_def split: prod.splits)
qed

end
