(* ===== verification/ProxyEdge.thy ===== *)
theory ProxyEdge
  imports ProxyHeaders TrustedProxy StdNetText
begin

text \<open>
  The edge of the request pipeline of \<^verbatim>\<open>src/src/proxy.rs\<close>: who the client is, over which scheme it came
  and which host it asked for (\<^verbatim>\<open>resolve_edge\<close>), and everything the gateway writes from that answer:
  the forwarding headers, the context of an authorization request, the context of the response
  policies, and redirects. The parsers of the \<^verbatim>\<open>http\<close> crate are the parameter \<open>L\<close>, \<open>net_contains\<close> is
  \<^verbatim>\<open>ipnet::IpNet::contains\<close>.
\<close>

section \<open>Authorities\<close>

text \<open>\<^verbatim>\<open>str::parse::<u16>\<close> of a text of ASCII digits.\<close>

definition parse_u16_digits :: "string \<Rightarrow> nat option" where
  "parse_u16_digits s = (if s \<noteq> [] \<and> list_all is_ascii_digit s \<and> digits_value s < 65536 then Some (digits_value s) else None)"

definition port_text_ok :: "string \<Rightarrow> bool" where
  "port_text_ok digits \<longleftrightarrow> digits \<noteq> [] \<and> length digits \<le> 5 \<and> list_all is_ascii_digit digits \<and> parse_u16_digits digits \<noteq> None"

text \<open>A bracketed host must be an IPv6 literal, another host has no colon, percent sign or bracket.\<close>

definition host_syntax_refused :: "string \<Rightarrow> bool" where
  "host_syntax_refused host = (case strip_prefix ''['' host of
     Some inner \<Rightarrow>
       (case strip_suffix '']'' inner of
          None \<Rightarrow> True
        | Some inner \<Rightarrow> (case read_ipv6_addr inner of Some (_, rest) \<Rightarrow> rest \<noteq> [] | None \<Rightarrow> True))
   | None \<Rightarrow> list_ex (\<lambda>c. c \<in> set '':%[]'') host)"

definition valid_authority :: "('a) response_lib_scheme \<Rightarrow> string \<Rightarrow> bool" where
  "valid_authority L v = (case header_to_str L v of
     None \<Rightarrow> False
   | Some text \<Rightarrow>
       (case parse_authority L text of
          Inl _ \<Rightarrow> False
        | Inr authority \<Rightarrow>
            (let host = auth_host authority
             in if host = [] \<or> CHR ''@'' \<in> set text \<or> auth_str authority \<noteq> text then False
                else if host_syntax_refused host then False
                else length text > length host \<longrightarrow>
                  (case strip_prefix '':'' (drop (length host) text) of None \<Rightarrow> False | Some digits \<Rightarrow> port_text_ok digits))))"

text \<open>\<^verbatim>\<open>rsplit_once(':')\<close>: the part after the last colon and the part before it.\<close>

definition host_has_port :: "string \<Rightarrow> bool" where
  "host_has_port host =
     (if CHR '':'' \<notin> set host then False
      else
        let port = rev (takeWhile (\<lambda>c. c \<noteq> CHR '':'') (rev host));
            head = take (length host - length port - 1) host
        in port \<noteq> [] \<and> list_all is_ascii_digit port
           \<and> (CHR '':'' \<notin> set head \<or> (prefix ''['' host \<and> suffix '']'' head)))"

section \<open>The edge\<close>

record transport_info =
  tls :: bool
  local_port :: nat

record EdgeContext =
  client_ip :: ip_addr
  proto :: string
  forwarded_host :: "string option"
  forwarded_port :: nat
  explicit_forwarded_port :: "nat option"

definition default_forwarded_port :: "string \<Rightarrow> nat \<Rightarrow> nat" where
  "default_forwarded_port scheme port = (if port \<noteq> 0 then port else if scheme = ''https'' then 443 else 80)"

text \<open>The first \<^verbatim>\<open>Host\<close> field, else the authority of the request target.\<close>

definition client_host :: "('a) response_lib_scheme \<Rightarrow> request \<Rightarrow> string option" where
  "client_host L request = (case hm_values (req_headers request) ''host'' of
     v # _ \<Rightarrow> Some v
   | [] \<Rightarrow> (case uri_authority request of
       None \<Rightarrow> None
     | Some a \<Rightarrow> (case header_value L (fst a) of Inr v \<Rightarrow> Some v | Inl _ \<Rightarrow> None)))"

definition host_refused :: "('a) response_lib_scheme \<Rightarrow> string option \<Rightarrow> bool" where
  "host_refused L host = (case host of None \<Rightarrow> False | Some v \<Rightarrow> \<not> valid_authority L v)"

text \<open>The \<^verbatim>\<open>X-Forwarded-Port\<close> of a trusted peer, if there is one.\<close>

definition forwarded_port_field :: "('a) response_lib_scheme \<Rightarrow> header_map \<Rightarrow> forwarded_error + nat option" where
  "forwarded_port_field L headers = (case hm_values headers ''x-forwarded-port'' of
     [] \<Rightarrow> Inr None
   | v # others \<Rightarrow>
       if others \<noteq> [] then Inl InvalidForwardedHeader
       else res_bind (ok_or InvalidForwardedHeader (header_to_str L v)) (\<lambda>text.
         if text = [] \<or> length text > 5 \<or> \<not> list_all is_ascii_digit text then Inl InvalidForwardedHeader
         else (case parse_u16_digits text of
                 Some port \<Rightarrow> if port \<noteq> 0 then Inr (Some port) else Inl InvalidForwardedHeader
               | None \<Rightarrow> Inl InvalidForwardedHeader)))"

definition resolve_edge ::
  "('a) response_lib_scheme \<Rightarrow> ('net \<Rightarrow> ip_addr \<Rightarrow> bool) \<Rightarrow> transport_info \<Rightarrow> request \<Rightarrow> ip_addr \<Rightarrow> 'net list
   \<Rightarrow> forwarded_error + EdgeContext" where
  "resolve_edge L net_contains transport request peer trusted_proxies =
     (let headers = req_headers request;
          host = client_host L request
      in if length (hm_values headers ''host'') > 1 then Inl InvalidForwardedHeader
         else if host_refused L host then Inl InvalidForwardedHeader
         else if \<not> (trusted_proxies \<noteq> [] \<and> is_trusted net_contains peer trusted_proxies) then
           (let scheme = (if tls transport then ''https'' else ''http'')
            in Inr \<lparr>client_ip = peer, proto = scheme, forwarded_host = host,
                 forwarded_port = default_forwarded_port scheme (local_port transport), explicit_forwarded_port = None\<rparr>)
         else
           res_bind (client_ip_from_forwarded (http_lib.truncate L) net_contains peer headers trusted_proxies) (\<lambda>ip.
             let scheme = forwarded_proto (http_lib.truncate L) headers (tls transport);
                 fhosts = hm_values headers ''x-forwarded-host'';
                 fhost = (case fhosts of v # _ \<Rightarrow> Some v | [] \<Rightarrow> host)
             in if length fhosts > 1 then Inl InvalidForwardedHeader
                else if host_refused L fhost then Inl InvalidForwardedHeader
                else res_bind (forwarded_port_field L headers) (\<lambda>explicit.
                  Inr \<lparr>client_ip = ip, proto = scheme, forwarded_host = fhost,
                    forwarded_port = (case explicit of Some p \<Rightarrow> p | None \<Rightarrow> default_forwarded_port scheme (local_port transport)),
                    explicit_forwarded_port = explicit\<rparr>)))"

section \<open>What is written from the edge\<close>

definition insert_text :: "('a) response_lib_scheme \<Rightarrow> string \<Rightarrow> string \<Rightarrow> header_map \<Rightarrow> header_map" where
  "insert_text L n text h = (case header_value L text of Inr v \<Rightarrow> hm_insert n v h | Inl _ \<Rightarrow> h)"

definition set_forwarding_headers ::
  "('a) response_lib_scheme \<Rightarrow> header_map \<Rightarrow> ip_addr \<Rightarrow> string \<Rightarrow> string option \<Rightarrow> nat \<Rightarrow> header_map" where
  "set_forwarding_headers L h ip scheme host port =
     (let h = (case header_value L (ip_text ip) of
                 Inr v \<Rightarrow> hm_insert ''x-forwarded-for'' v (hm_insert ''x-real-ip'' v h) | Inl _ \<Rightarrow> h);
          h = insert_text L ''x-forwarded-proto'' scheme h;
          h = (case host of Some v \<Rightarrow> hm_insert ''x-forwarded-host'' v h | None \<Rightarrow> h)
      in if port \<noteq> 0 then insert_text L ''x-forwarded-port'' (nat_text port) h else h)"

definition request_target :: "request \<Rightarrow> string" where
  "request_target request = (case uri_path_and_query request of Some pq \<Rightarrow> pq | None \<Rightarrow> ''/'')"

text \<open>The host with the forwarded port, unless it has a port or the port is the default of the scheme.\<close>

definition original_authority :: "EdgeContext \<Rightarrow> string \<Rightarrow> string" where
  "original_authority edge host =
     (let default_port = (proto edge = ''http'' \<and> forwarded_port edge = 80 \<or> proto edge = ''https'' \<and> forwarded_port edge = 443)
      in if default_port \<or> host_has_port host then host else host @ '':'' @ nat_text (forwarded_port edge))"

definition forward_auth_context :: "('a) response_lib_scheme \<Rightarrow> request \<Rightarrow> EdgeContext \<Rightarrow> (string \<times> string) list" where
  "forward_auth_context L original edge =
     (let method = req_method original;
          uri = request_target original;
          ip = ip_text (client_ip edge);
          host = Option.bind (forwarded_host edge) (header_to_str L);
          context = [(''x-original-method'', method), (''x-original-uri'', uri), (''x-original-client-ip'', ip),
            (''x-forwarded-method'', method), (''x-forwarded-uri'', uri), (''x-forwarded-proto'', proto edge),
            (''x-forwarded-port'', nat_text (forwarded_port edge)), (''x-forwarded-for'', ip), (''x-real-ip'', ip)]
      in case host of
           None \<Rightarrow> context
         | Some host \<Rightarrow>
             context @ [(''x-forwarded-host'', host), (''x-original-url'', proto edge @ ''://'' @ original_authority edge host @ uri)])"

text \<open>
  The headers of the request to the authorization service: the configured client headers, then
  the generated context, then the static headers. \<open>names\<close> is \<^verbatim>\<open>auth.request_headers\<close>.
\<close>

definition hm_append :: "string \<Rightarrow> string \<Rightarrow> header_map \<Rightarrow> header_map" where
  "hm_append n v h = h\<lparr>hm_keys := (if n \<in> set (hm_keys h) then hm_keys h else hm_keys h @ [n]),
     hm_values := (hm_values h)(n := hm_values h n @ [v])\<rparr>"

definition hm_empty :: header_map where
  "hm_empty = \<lparr>hm_keys = [], hm_values = (\<lambda>_. [])\<rparr>"

definition auth_request_headers ::
  "('a) response_lib_scheme \<Rightarrow> string list \<Rightarrow> (string \<times> string) list \<Rightarrow> request \<Rightarrow> EdgeContext \<Rightarrow> nat + header_map" where
  "auth_request_headers L names static_headers original edge =
     res_bind (try_fold (\<lambda>h name.
         (case hm_values (req_headers original) (map to_lower name) of
            [] \<Rightarrow> Inr h
          | values \<Rightarrow> (case header_name L name of Inl _ \<Rightarrow> Inl 503 | Inr n \<Rightarrow> Inr (fold (hm_append n) values h))))
         hm_empty names) (\<lambda>h.
       res_bind (try_fold (\<lambda>h (n, text). (case header_value L text of Inl _ \<Rightarrow> Inl 503 | Inr v \<Rightarrow> Inr (hm_insert n v h)))
         h (forward_auth_context L original edge)) (\<lambda>h.
       Inr (fold (\<lambda>(n, v). hm_insert n v) static_headers h)))"

section \<open>Responses about the edge\<close>

definition eq_host :: "string \<Rightarrow> string \<Rightarrow> bool" where
  "eq_host a b \<longleftrightarrow> eq_ignore_ascii_case (trim_end_matches (CHR ''.'') a) (trim_end_matches (CHR ''.'') b)"

text \<open>
  The authority for the response policies: an unambiguous \<^verbatim>\<open>Host\<close> and request-target authority. The
  target's authority is known by its text; \<open>parse_authority\<close> gives the fields of it.
\<close>

definition read_authority :: "('a) response_lib_scheme \<Rightarrow> string \<Rightarrow> authority option" where
  "read_authority L text = (case parse_authority L text of Inr a \<Rightarrow> Some a | Inl _ \<Rightarrow> None)"

definition response_security_authority :: "('a) response_lib_scheme \<Rightarrow> header_map \<Rightarrow> (string \<times> string) option \<Rightarrow> bool \<Rightarrow> authority option" where
  "response_security_authority L headers uri_auth transport_tls =
     (let default_port = (if transport_tls then 443 else 80);
          port = (\<lambda>a. case auth_port_u16 a of Some p \<Rightarrow> p | None \<Rightarrow> default_port);
          host = (case hm_values headers ''host'' of
                    [] \<Rightarrow> Some None
                  | v # others \<Rightarrow>
                      if others \<noteq> [] \<or> \<not> valid_authority L v then None
                      else map_option Some (Option.bind (header_to_str L v) (read_authority L)))
      in case host of
           None \<Rightarrow> None
         | Some host \<Rightarrow>
             (case (case uri_auth of
                      None \<Rightarrow> Some None
                    | Some a \<Rightarrow>
                        (case header_value L (fst a) of
                           Inl _ \<Rightarrow> None
                         | Inr v \<Rightarrow> if \<not> valid_authority L v then None else map_option Some (read_authority L (fst a)))) of
                None \<Rightarrow> None
              | Some authority \<Rightarrow>
                  (case (host, authority) of
                     (Some h, Some a) \<Rightarrow>
                       if \<not> eq_host (auth_host h) (auth_host a) \<or> port h \<noteq> port a then None else Some h
                   | (Some h, None) \<Rightarrow> Some h
                   | (None, _) \<Rightarrow> authority)))"

text \<open>The response context built by \<^verbatim>\<open>handle\<close>; \<open>retired\<close> is whether the listener's configuration is retired.\<close>

definition response_context ::
  "('a) response_lib_scheme \<Rightarrow> ('net \<Rightarrow> ip_addr \<Rightarrow> bool) \<Rightarrow> transport_info \<Rightarrow> bool \<Rightarrow> request \<Rightarrow> ip_addr \<Rightarrow> 'net list \<Rightarrow> Context option" where
  "response_context L net_contains transport retired request peer trusted =
     (let authority = response_security_authority L (req_headers request) (uri_authority request) (tls transport);
          context =
            (if retired \<or> authority = None \<or> list_ex is_forwarding_identity_header (connection_tokens L (req_headers request))
             then None
             else (case resolve_edge L net_contains transport request peer trusted of
                     Inl _ \<Rightarrow> None
                   | Inr edge \<Rightarrow>
                       (case (case Option.bind (Option.bind (forwarded_host edge) (header_to_str L)) (read_authority L) of
                                Some a \<Rightarrow> Some a | None \<Rightarrow> authority) of
                          None \<Rightarrow> None
                        | Some a \<Rightarrow> Some \<lparr>ctx_authority = a, ctx_https = (proto edge = ''https''),
                            ctx_explicit_port = explicit_forwarded_port edge\<rparr>)))
      in if context = None \<and> \<not> retired
         then map_option (\<lambda>a. \<lparr>ctx_authority = a, ctx_https = tls transport, ctx_explicit_port = None\<rparr>) authority
         else context)"

text \<open>A plain text reply; every status the code passes is a valid one.\<close>

definition text_response :: "nat \<Rightarrow> string \<Rightarrow> response" where
  "text_response status text = \<lparr>resp_status = status,
     resp_headers = hm_insert ''content-type'' ''text/plain; charset=utf-8'' hm_empty, resp_body = [DataFrame text]\<rparr>"

definition with_header :: "string \<Rightarrow> string \<Rightarrow> response \<Rightarrow> response" where
  "with_header n v response = response\<lparr>resp_headers := hm_insert n v (resp_headers response)\<rparr>"

definition https_redirect :: "('a) response_lib_scheme \<Rightarrow> request \<Rightarrow> EdgeContext \<Rightarrow> nat \<Rightarrow> response" where
  "https_redirect L request edge code =
     (if code = 426
      then with_header ''connection'' ''Upgrade'' (with_header ''upgrade'' ''TLS/1.2, HTTP/1.1'' (text_response 426 ''TLS required''))
      else
        let host = (case Option.bind (forwarded_host edge) (header_to_str L) of
                      Some h \<Rightarrow> h
                    | None \<Rightarrow> (case hm_values (req_headers request) ''host'' of
                        v # _ \<Rightarrow> (case header_to_str L v of Some h \<Rightarrow> h | None \<Rightarrow> []) | [] \<Rightarrow> []))
        in case read_authority L host of
             None \<Rightarrow> text_response 400 ''invalid Host''
           | Some a \<Rightarrow>
               if auth_host a = [] \<or> CHR ''@'' \<in> set (auth_str a) then text_response 400 ''invalid Host''
               else
                 let redirect = text_response code ''redirecting to https''
                 in (case header_value L (''https://'' @ auth_host a @ request_target request) of
                       Inr v \<Rightarrow> with_header ''location'' v redirect
                     | Inl _ \<Rightarrow> redirect))"

record CanonicalDomain =
  cd_enabled :: bool
  cd_host :: string
  cd_https :: bool
  cd_status :: nat
  path_prefixes :: "string list"
  exclude_path_prefixes :: "string list"
  cd_methods :: "string list"

definition canonical_prefix_matches :: "string \<Rightarrow> string \<Rightarrow> bool" where
  "canonical_prefix_matches p path \<longleftrightarrow>
     p = ''/'' \<or> path = p
     \<or> (prefix p path \<and> (suffix ''/'' p \<or> (length p < length path \<and> path ! length p = CHR ''/'')))"

definition canonical_domain_redirect ::
  "('a) response_lib_scheme \<Rightarrow> request \<Rightarrow> EdgeContext \<Rightarrow> string \<Rightarrow> CanonicalDomain \<Rightarrow> response option" where
  "canonical_domain_redirect L request edge path policy =
     (if \<not> cd_enabled policy \<or> req_method request \<notin> set (cd_methods policy)
         \<or> \<not> list_ex (\<lambda>p. canonical_prefix_matches p path) (path_prefixes policy)
         \<or> list_ex (\<lambda>p. canonical_prefix_matches p path) (exclude_path_prefixes policy)
      then None
      else Option.bind (Option.bind (Option.bind (forwarded_host edge) (header_to_str L)) (read_authority L)) (\<lambda>current.
        if eq_ignore_ascii_case (auth_host current) (cd_host policy) then None
        else (case header_value L ((if cd_https policy then ''https'' else ''http'') @ ''://'' @ cd_host policy @ request_target request) of
                Inl _ \<Rightarrow> None
              | Inr location \<Rightarrow>
                  Some (with_header ''x-hangang-canonical-redirect'' ''true'' (with_header ''cache-control'' ''no-store''
                    (with_header ''location'' location (text_response (cd_status policy) ''redirecting to canonical domain'')))))))"

definition security_denied :: "nat \<Rightarrow> response" where
  "security_denied status =
     (let denied = with_header ''cache-control'' ''no-store'' (text_response status
            (if status = 429 then ''too many requests'' else if status = 404 then ''not found''
             else if status = 403 then ''forbidden'' else if status = 400 then ''bad request'' else ''service unavailable''))
      in if status = 429 then with_header ''retry-after'' ''1'' denied else denied)"

section \<open>Trust\<close>

text \<open>Whether the peer is a proxy the configuration trusts, as \<open>resolve_edge\<close> decides it.\<close>

definition trusted_peer :: "('net \<Rightarrow> ip_addr \<Rightarrow> bool) \<Rightarrow> ip_addr \<Rightarrow> 'net list \<Rightarrow> bool" where
  "trusted_peer net_contains peer trusted \<longleftrightarrow> trusted \<noteq> [] \<and> is_trusted net_contains peer trusted"

lemma resolve_edge_untrusted:
  "\<not> trusted_peer nc peer trusted \<Longrightarrow> resolve_edge L nc t r peer trusted =
     (if length (hm_values (req_headers r) ''host'') > 1 \<or> host_refused L (client_host L r) then Inl InvalidForwardedHeader
      else Inr \<lparr>client_ip = peer, proto = (if tls t then ''https'' else ''http''), forwarded_host = client_host L r,
        forwarded_port = default_forwarded_port (if tls t then ''https'' else ''http'') (local_port t), explicit_forwarded_port = None\<rparr>)"
  unfolding resolve_edge_def trusted_peer_def [symmetric] Let_def by simp

lemma resolve_edge_trusted:
  assumes "trusted_peer nc peer trusted" "resolve_edge L nc t r peer trusted = Inr e"
  shows "\<not> host_refused L (forwarded_host e)
    \<and> client_ip_from_forwarded (http_lib.truncate L) nc peer (req_headers r) trusted = Inr (client_ip e)
    \<and> proto e = forwarded_proto (http_lib.truncate L) (req_headers r) (tls t)
    \<and> forwarded_port_field L (req_headers r) = Inr (explicit_forwarded_port e)
    \<and> forwarded_port e = (case explicit_forwarded_port e of Some p \<Rightarrow> p | None \<Rightarrow> default_forwarded_port (proto e) (local_port t))"
proof -
  have d: "\<not> \<not> (trusted \<noteq> [] \<and> is_trusted nc peer trusted)" using assms(1) by (simp add: trusted_peer_def)
  define fhost where "fhost = (case hm_values (req_headers r) ''x-forwarded-host'' of v # _ \<Rightarrow> Some v | [] \<Rightarrow> client_host L r)"
  define scheme where "scheme = forwarded_proto (http_lib.truncate L) (req_headers r) (tls t)"
  obtain ip explicit where e: "client_ip_from_forwarded (http_lib.truncate L) nc peer (req_headers r) trusted = Inr ip"
      "\<not> host_refused L fhost" "forwarded_port_field L (req_headers r) = Inr explicit"
      "e = \<lparr>client_ip = ip, proto = scheme, forwarded_host = fhost,
         forwarded_port = (case explicit of Some p \<Rightarrow> p | None \<Rightarrow> default_forwarded_port scheme (local_port t)),
         explicit_forwarded_port = explicit\<rparr>"
    using assms(2) unfolding resolve_edge_def Let_def if_not_P [OF d] fhost_def [symmetric] scheme_def [symmetric]
    by (auto split: if_split_asm)
  then show ?thesis by (cases explicit) (simp_all add: scheme_def)
qed

lemma resolve_edge_host: "resolve_edge L nc t r peer trusted = Inr e \<Longrightarrow> \<not> host_refused L (forwarded_host e)"
  by (cases "trusted_peer nc peer trusted") (auto simp: resolve_edge_trusted resolve_edge_untrusted split: if_splits)

lemma resolve_edge_proto:
  "resolve_edge L nc t r peer trusted = Inr e \<Longrightarrow>
   proto e = (if trusted_peer nc peer trusted then forwarded_proto (http_lib.truncate L) (req_headers r) (tls t)
              else if tls t then ''https'' else ''http'')"
  by (cases "trusted_peer nc peer trusted") (auto simp: resolve_edge_trusted resolve_edge_untrusted split: if_splits)

lemma proto_values: "resolve_edge L nc t r peer trusted = Inr e \<Longrightarrow> proto e \<in> {''http'', ''https''}"
  by (auto simp: resolve_edge_proto forwarded_proto_def split: list.splits option.splits)

lemma forwarded_port_field_bound: "forwarded_port_field L h = Inr (Some p) \<Longrightarrow> 0 < p \<and> p < 65536"
  by (auto simp: forwarded_port_field_def parse_u16_digits_def split: list.splits if_splits option.splits)

text \<open>
  C25. A peer that is not a trusted proxy cannot lie about itself: the edge of its requests depends
  only on the transport, the peer address, the \<^verbatim>\<open>Host\<close> field and the request target, never on a
  forwarding header, and the client is the peer over the scheme of the transport.
\<close>

theorem edge_untrusted_peer:
  assumes "\<not> trusted_peer nc peer trusted" "\<not> trusted_peer nc peer trusted'"
    and "hm_values (req_headers r) ''host'' = hm_values (req_headers r') ''host''" "uri_authority r = uri_authority r'"
  shows "resolve_edge L nc t r peer trusted = resolve_edge L nc t r' peer trusted'
    \<and> (\<forall>e. resolve_edge L nc t r peer trusted = Inr e \<longrightarrow>
         client_ip e = peer \<and> proto e = (if tls t then ''https'' else ''http'') \<and> explicit_forwarded_port e = None)"
proof
  have "client_host L r = client_host L r'" by (simp only: client_host_def assms(3,4))
  then show "resolve_edge L nc t r peer trusted = resolve_edge L nc t r' peer trusted'"
    by (simp add: resolve_edge_untrusted assms(1,2,3))
  show "\<forall>e. resolve_edge L nc t r peer trusted = Inr e \<longrightarrow>
      client_ip e = peer \<and> proto e = (if tls t then ''https'' else ''http'') \<and> explicit_forwarded_port e = None"
    by (auto simp: resolve_edge_untrusted assms(1))
qed

definition demo_edge_request :: "(string \<times> string) list \<Rightarrow> request" where
  "demo_edge_request hs = \<lparr>req_method = ''GET'', uri_path = ''/a'', uri_scheme = None, uri_authority = None,
     uri_path_and_query = Some ''/a?b'',
     req_headers = \<lparr>hm_keys = map fst hs, hm_values = (\<lambda>n. map snd (filter (\<lambda>f. fst f = n) hs))\<rparr>\<rparr>"

theorem edge_untrusted_peer_witness:
  "resolve_edge plain_response (=) \<lparr>tls = False, local_port = 8080\<rparr>
      (demo_edge_request [(''host'', ''a.example''), (''x-forwarded-for'', ''6.6.6.6''), (''x-forwarded-proto'', ''https'')])
      (V4 7) [V4 9]
    = Inr \<lparr>client_ip = V4 7, proto = ''http'', forwarded_host = Some ''a.example'', forwarded_port = 8080, explicit_forwarded_port = None\<rparr>
   \<and> \<not> trusted_peer (=) (V4 7) [V4 9]"
proof -
  have n: "\<not> trusted_peer (=) (V4 7) [V4 9]" by code_simp
  have "resolve_edge plain_response (=) \<lparr>tls = False, local_port = 8080\<rparr> (demo_edge_request [(''host'', ''a.example'')]) (V4 7) [V4 9]
      = Inr \<lparr>client_ip = V4 7, proto = ''http'', forwarded_host = Some ''a.example'', forwarded_port = 8080, explicit_forwarded_port = None\<rparr>"
    by code_simp
  moreover have "hm_values (req_headers (demo_edge_request [(''host'', ''a.example''), (''x-forwarded-for'', ''6.6.6.6''), (''x-forwarded-proto'', ''https'')])) ''host''
      = hm_values (req_headers (demo_edge_request [(''host'', ''a.example'')])) ''host''" by code_simp
  moreover have "uri_authority (demo_edge_request hs) = uri_authority (demo_edge_request hs')" for hs hs' by (simp add: demo_edge_request_def)
  ultimately show ?thesis using n edge_untrusted_peer [OF n n] by metis
qed

text \<open>
  A response is treated as secure only on evidence: when the response policies see HTTPS, the
  connection itself is TLS, or the peer is a trusted proxy whose only \<^verbatim>\<open>X-Forwarded-Proto\<close> field says so.
\<close>

theorem response_context_https:
  assumes "response_context L nc t retired r peer trusted = Some ctx" "ctx_https ctx"
  shows "tls t \<or> (trusted_peer nc peer trusted \<and> (\<exists>v s. hm_values (req_headers r) ''x-forwarded-proto'' = [v]
    \<and> header_to_str L v = Some s \<and> eq_ignore_ascii_case s ''https''))"
proof (rule disjCI)
  assume "\<not> (trusted_peer nc peer trusted \<and> (\<exists>v s. hm_values (req_headers r) ''x-forwarded-proto'' = [v]
    \<and> header_to_str L v = Some s \<and> eq_ignore_ascii_case s ''https''))"
  then have "tls t" if "resolve_edge L nc t r peer trusted = Inr e" "proto e = ''https''" for e
    using that(2) unfolding resolve_edge_proto [OF that(1)]
    by (auto simp: forwarded_proto_def http_lib.defs split: list.splits option.splits if_splits)
  then show "tls t" using assms unfolding response_context_def
    by (auto simp: Let_def split: if_splits sum.splits option.splits)
qed

theorem response_context_https_witness:
  "\<exists>ctx. response_context plain_response (=) \<lparr>tls = False, local_port = 0\<rparr> False
      (demo_edge_request [(''host'', ''a.example''), (''x-forwarded-proto'', ''HTTPS'')]) (V4 9) [V4 9] = Some ctx
    \<and> ctx_https ctx \<and> trusted_peer (=) (V4 9) [V4 9]"
proof -
  let ?r = "demo_edge_request [(''host'', ''a.example''), (''x-forwarded-proto'', ''HTTPS'')]"
  let ?c = "response_context plain_response (=) \<lparr>tls = False, local_port = 0\<rparr> False ?r (V4 9) [V4 9]"
  have "map_option ctx_https ?c = Some True" by code_simp
  then obtain ctx where ctx: "?c = Some ctx" "ctx_https ctx" by auto
  from response_context_https [OF this] ctx show ?thesis by auto
qed

section \<open>The next hop and the authorization service\<close>

text \<open>The grammar of an \<^verbatim>\<open>Authority\<close>: no delimiter of the path, the query or the fragment is part of one.\<close>

definition authority_grammar :: "('a) response_lib_scheme \<Rightarrow> bool" where
  "authority_grammar L \<longleftrightarrow> (\<forall>text a. parse_authority L text = Inr a \<longrightarrow> auth_str a = text \<longrightarrow> \<not> list_ex authority_end text)"

text \<open>Printable ASCII is a header value and its own text.\<close>

definition plain_values :: "('a) response_lib_scheme \<Rightarrow> bool" where
  "plain_values L \<longleftrightarrow> (\<forall>s. list_all is_ascii_graphic s \<longrightarrow> header_value L s = Inr s \<and> header_to_str L s = Some s)"

lemma valid_authority_text:
  "valid_authority L v \<Longrightarrow> authority_grammar L \<Longrightarrow> header_to_str L v = Some host
   \<Longrightarrow> \<not> list_ex authority_end host \<and> CHR ''@'' \<notin> set host"
  by (auto simp: valid_authority_def authority_grammar_def Let_def split: sum.splits if_splits)

lemma nat_text_not_end: "\<not> list_ex authority_end (nat_text n)"
proof -
  have "\<not> authority_end c" if "is_ascii_digit c" for c
    using that by (auto simp: authority_end_def is_ascii_digit_def)
  then show ?thesis using nat_text_digits [of n] by (auto simp: list_ex_iff list_all_iff)
qed

lemma after_first_scheme: "after_first ''://'' (''http://'' @ t) = Some t" "after_first ''://'' (''https://'' @ t) = Some t"
  by simp_all

lemma authority_cut:
  assumes "\<not> list_ex authority_end a" "u = CHR ''/'' # u'"
  shows "takeWhile (\<lambda>c. \<not> authority_end c) (a @ u) = a \<and> dropWhile (\<lambda>c. \<not> authority_end c) (a @ u) = u"
proof -
  have "authority_end (CHR ''/'')" by (simp add: authority_end_def)
  then show ?thesis using assms by (induction a) auto
qed

text \<open>
  C26. A client cannot choose the path an authorization service sees: whatever the \<^verbatim>\<open>Host\<close> and the
  forwarding headers say, cutting \<^verbatim>\<open>x-original-url\<close> at the first delimiter after its scheme gives an
  authority without user information and then exactly the request target.
\<close>

theorem auth_url_unambiguous:
  assumes "resolve_edge L nc t r peer trusted = Inr edge" "authority_grammar L"
    and "uri_path_and_query r = Some (CHR ''/'' # target)"
    and "(''x-original-url'', url) \<in> set (forward_auth_context L r edge)"
  shows "\<exists>rest host. after_first ''://'' url = Some rest
    \<and> Option.bind (forwarded_host edge) (header_to_str L) = Some host
    \<and> takeWhile (\<lambda>c. \<not> authority_end c) rest \<in> {host, host @ '':'' @ nat_text (forwarded_port edge)}
    \<and> CHR ''@'' \<notin> set (takeWhile (\<lambda>c. \<not> authority_end c) rest)
    \<and> dropWhile (\<lambda>c. \<not> authority_end c) rest = CHR ''/'' # target"
proof -
  obtain host where h: "Option.bind (forwarded_host edge) (header_to_str L) = Some host"
      and u: "url = proto edge @ ''://'' @ original_authority edge host @ CHR ''/'' # target"
    using assms(3,4) by (auto simp: forward_auth_context_def request_target_def Let_def split: option.splits)
  define a where "a = original_authority edge host"
  have a: "a \<in> {host, host @ '':'' @ nat_text (forwarded_port edge)}" "url = proto edge @ ''://'' @ a @ CHR ''/'' # target"
    using u by (simp_all add: a_def original_authority_def Let_def)
  have "\<not> host_refused L (forwarded_host edge)" by (rule resolve_edge_host [OF assms(1)])
  then have host: "\<not> list_ex authority_end host" "CHR ''@'' \<notin> set host"
    using h valid_authority_text [OF _ assms(2), of _ host] by (auto simp: host_refused_def bind_eq_Some_conv)
  have "\<not> authority_end (CHR '':'')" by (simp add: authority_end_def)
  then have end': "\<not> list_ex authority_end a" using a(1) host(1) nat_text_not_end by auto
  have "CHR ''@'' \<notin> set (nat_text p)" for p
    using nat_text_digits [of p] by (auto simp: list_all_iff is_ascii_digit_def)
  then have at: "CHR ''@'' \<notin> set a" using a(1) host(2) by auto
  have "after_first ''://'' url = Some (a @ CHR ''/'' # target)"
    using proto_values [OF assms(1)] after_first_scheme a(2) by auto
  then show ?thesis using h a(1) at authority_cut [OF end' refl, of target] by auto
qed

theorem auth_url_unambiguous_witness:
  "\<exists>edge url. resolve_edge (plain_response\<lparr>parse_authority := (\<lambda>v. if list_ex authority_end v then Inl [] else plain_authority v)\<rparr>)
      (=) \<lparr>tls = True, local_port = 8443\<rparr> (demo_edge_request [(''host'', ''a.example'')]) (V4 7) [] = Inr edge
    \<and> (''x-original-url'', url) \<in> set (forward_auth_context plain_response (demo_edge_request [(''host'', ''a.example'')]) edge)
    \<and> url = ''https://a.example:8443/a?b''
    \<and> after_first ''://'' url = Some ''a.example:8443/a?b''"
proof -
  let ?L = "plain_response\<lparr>parse_authority := (\<lambda>v. if list_ex authority_end v then Inl [] else plain_authority v)\<rparr>"
  let ?r = "demo_edge_request [(''host'', ''a.example'')]" and ?url = "''https://a.example:8443/a?b''"
  define edge where "edge = \<lparr>client_ip = V4 7, proto = ''https'', forwarded_host = Some ''a.example'', forwarded_port = 8443, explicit_forwarded_port = None\<rparr>"
  have e: "resolve_edge ?L (=) \<lparr>tls = True, local_port = 8443\<rparr> ?r (V4 7) [] = Inr edge" unfolding edge_def by code_simp
  have g: "authority_grammar ?L" by (auto simp: authority_grammar_def split: if_splits)
  have c: "forward_auth_context ?L ?r edge = forward_auth_context plain_response ?r edge"
    by (simp add: forward_auth_context_def)
  have u: "(''x-original-url'', ?url) \<in> set (forward_auth_context ?L ?r edge)" unfolding edge_def by code_simp
  from auth_url_unambiguous [OF e g _ u, of "''a?b''"] have "\<exists>rest. after_first ''://'' ?url = Some rest"
    by (auto simp: demo_edge_request_def)
  then have "after_first ''://'' ?url = Some ''a.example:8443/a?b''" by simp
  then show ?thesis using e u c by auto
qed

lemma ip_char_props:
  "ip_char c \<Longrightarrow> is_ascii_graphic c \<and> \<not> ascii_white c \<and> c \<noteq> CHR '',''"
  by (auto simp: ip_char_def is_ascii_graphic_def ascii_white_def is_ascii_digit_def is_ascii_lower_def)

lemma str_trim_none: "list_all (\<lambda>c. \<not> ascii_white c) s \<Longrightarrow> str_trim s = s"
proof -
  have id: "list_all (\<lambda>c. \<not> ascii_white c) t \<Longrightarrow> dropWhile ascii_white t = t" for t by (cases t) auto
  assume "list_all (\<lambda>c. \<not> ascii_white c) s"
  then show ?thesis using id [of s] id [of "rev s"] by (simp add: str_trim_def list_all_rev)
qed

lemma ip_text_value:
  "list_all is_ascii_graphic (ip_text ip)" "str_trim (ip_text ip) = ip_text ip" "split_on (CHR '','') (ip_text ip) = [ip_text ip]"
proof -
  have c: "\<forall>c\<in>set (ip_text ip). is_ascii_graphic c \<and> \<not> ascii_white c \<and> c \<noteq> CHR '',''"
    using ip_text_chars [of ip] ip_char_props by (auto simp: list_all_iff)
  then show "list_all is_ascii_graphic (ip_text ip)" by (auto simp: list_all_iff)
  show "str_trim (ip_text ip) = ip_text ip" using c by (intro str_trim_none) (auto simp: list_all_iff)
  show "split_on (CHR '','') (ip_text ip) = [ip_text ip]" using c by (intro split_on_no_sep) auto
qed

lemma ip_text_neq_Nil [simp]: "ip_text ip \<noteq> []"
proof
  assume "ip_text ip = []"
  moreover have "parse_ip_addr [] = None" by code_simp
  ultimately show False using parse_ip_text [of ip] by simp
qed

lemma digits_graphic: "list_all is_ascii_graphic (nat_text n)"
  using nat_text_digits [of n] by (auto simp: list_all_iff is_ascii_graphic_def is_ascii_digit_def)

lemma nat_text_length: "n < 65536 \<Longrightarrow> length (nat_text n) \<le> 5"
proof -
  assume "n < 65536"
  moreover obtain vs where "reads_as 10 n (nat_text n) vs" using nat_text_reads by blast
  ultimately have "map (digit_value 10) (nat_text n) = map Some vs" "length vs \<le> 5"
    unfolding reads_as_def by auto
  then show ?thesis by (metis length_map)
qed

lemma client_from_single:
  assumes "plain_values L" "hm_values h ''x-forwarded-for'' = [ip_text ip]" "to_canonical ip = ip"
  shows "client_ip_from_forwarded (http_lib.truncate L) nc peer h trusted = Inr ip"
  using assms ip_text_value [of ip] parse_ip_text [of ip]
  by (simp add: client_ip_from_forwarded_def push_value_def push_hop_def plain_values_def http_lib.defs ok_or_def Let_def)

text \<open>
  C38. Gateways chain: the forwarding headers one gateway writes for a client are read by the next
  gateway, which trusts the first one, as the same client address and scheme.
\<close>

theorem forwarding_chain:
  assumes "plain_values L" "to_canonical ip = ip" "scheme \<in> {''http'', ''https''}"
    and "h' = set_forwarding_headers L h ip scheme host port"
  shows "client_ip_from_forwarded (http_lib.truncate L) nc peer h' trusted = Inr ip
    \<and> forwarded_proto (http_lib.truncate L) h' transport_tls = scheme
    \<and> (0 < port \<and> port < 65536 \<longrightarrow> forwarded_port_field L h' = Inr (Some port))
    \<and> (\<forall>v. host = Some v \<longrightarrow> hm_values h' ''x-forwarded-host'' = [v])"
proof -
  have for': "hm_values h' ''x-forwarded-for'' = [ip_text ip]"
    using assms(1) ip_text_value [of ip] digits_graphic [of port] unfolding assms(4)
    by (simp add: set_forwarding_headers_def insert_text_def plain_values_def Let_def split: option.splits sum.splits)
  have g: "list_all is_ascii_graphic scheme" using assms(3) by (auto simp: is_ascii_graphic_def)
  have proto': "hm_values h' ''x-forwarded-proto'' = [scheme]"
    using assms(1) g ip_text_value [of ip] digits_graphic [of port] unfolding assms(4)
    by (simp add: set_forwarding_headers_def insert_text_def plain_values_def Let_def split: option.splits sum.splits)
  have port': "hm_values h' ''x-forwarded-port'' = [nat_text port]" if "0 < port"
    using that assms(1) digits_graphic [of port] unfolding assms(4)
    by (simp add: set_forwarding_headers_def insert_text_def plain_values_def Let_def)
  have host': "hm_values h' ''x-forwarded-host'' = [v]" if "host = Some v" for v
    using that unfolding assms(4)
    by (simp add: set_forwarding_headers_def insert_text_def Let_def split: sum.splits)
  have "forwarded_proto (http_lib.truncate L) h' transport_tls = scheme"
    using assms(1,3) g proto' by (auto simp: forwarded_proto_def plain_values_def http_lib.defs eq_ignore_ascii_case_def)
  moreover have "forwarded_port_field L h' = Inr (Some port)" if "0 < port" "port < 65536"
    using port' that assms(1) digits_graphic [of port] nat_text_digits [of port] nat_text_length [OF that(2)]
    by (simp add: forwarded_port_field_def plain_values_def ok_or_def parse_u16_digits_def digits_value_nat_text)
  ultimately show ?thesis using client_from_single [OF assms(1) for' assms(2)] host' by blast
qed

theorem forwarding_chain_witness:
  "set_forwarding_headers plain_response (req_headers (demo_edge_request [(''x-forwarded-for'', ''6.6.6.6'')])) (V6 1) ''https'' None 443
     = set_forwarding_headers plain_response (req_headers (demo_edge_request [(''x-forwarded-for'', ''6.6.6.6'')])) (V6 1) ''https'' None 443
   \<and> client_ip_from_forwarded (http_lib.truncate plain_response) (=) (V4 9)
       (set_forwarding_headers plain_response (req_headers (demo_edge_request [(''x-forwarded-for'', ''6.6.6.6'')])) (V6 1) ''https'' None 443)
       [V4 9] = Inr (V6 1)"
proof -
  have plain: "plain_values plain_response"
    unfolding plain_values_def plain_response_def plain_csrf_def plain_http_def response_lib.defs csrf_lib.defs http_lib.defs
    by (fastforce simp: is_ascii_graphic_def list_all_iff)
  have "to_canonical (V6 1) = V6 1" by code_simp
  from forwarding_chain [OF plain this _ refl] show ?thesis by blast
qed

lemma static_headers_last:
  "hm_values (fold (\<lambda>(n, v). hm_insert n v) static h) n =
     (case map_of (rev static) n of Some v \<Rightarrow> [v] | None \<Rightarrow> hm_values h n)"
  by (induction static rule: rev_induct) (auto split: prod.splits)

lemma context_headers_last:
  assumes "try_fold (\<lambda>h (n, text). (case header_value L text of Inl _ \<Rightarrow> Inl e | Inr v \<Rightarrow> Inr (hm_insert n v h))) h ctx = Inr h'"
  shows "case map_of (rev ctx) n of Some text \<Rightarrow> \<exists>v. header_value L text = Inr v \<and> hm_values h' n = [v] | None \<Rightarrow> hm_values h' n = hm_values h n"
  using assms
proof (induction ctx arbitrary: h)
  case (Cons c ctx)
  obtain m w where c: "c = (m, w)" by (cases c)
  obtain v where v: "header_value L w = Inr v" using Cons.prems c by (cases "header_value L w") auto
  then have "try_fold (\<lambda>h (n, text). (case header_value L text of Inl _ \<Rightarrow> Inl e | Inr v \<Rightarrow> Inr (hm_insert n v h))) (hm_insert m v h) ctx = Inr h'"
    using Cons.prems c by simp
  from Cons.IH [OF this] show ?case using c v by (auto simp: map_add_def split: option.splits)
qed simp

lemma hm_values_append: "hm_values (fold (hm_append n) vs h) m = (if m = n then hm_values h m @ vs else hm_values h m)"
  by (induction vs arbitrary: h) (auto simp: hm_append_def)

text \<open>
  C27. What the authorization service reads cannot be forged: in the request sent to it, a header
  with a configured static value has exactly that value, a header of the generated context has
  exactly the generated value, and every other header was copied from the client's request.
\<close>

theorem auth_headers_unforgeable:
  assumes "auth_request_headers L names static original edge = Inr h"
    and "\<And>name n. name \<in> set names \<Longrightarrow> header_name L name = Inr n \<Longrightarrow> n = map to_lower name"
  shows "case map_of (rev static) n of
      Some v \<Rightarrow> hm_values h n = [v]
    | None \<Rightarrow>
        (case map_of (rev (forward_auth_context L original edge)) n of
           Some text \<Rightarrow> \<exists>v. header_value L text = Inr v \<and> hm_values h n = [v]
         | None \<Rightarrow> set (hm_values h n) \<subseteq> set (hm_values (req_headers original) n))"
proof -
  define copy where "copy = (\<lambda>h name. case hm_values (req_headers original) (map to_lower name) of
            [] \<Rightarrow> Inr h
          | values \<Rightarrow> (case header_name L name of Inl _ \<Rightarrow> Inl (503::nat) | Inr n \<Rightarrow> Inr (fold (hm_append n) values h)))"
  obtain h1 h2 where h1: "try_fold copy hm_empty names = Inr h1"
      and h2: "try_fold (\<lambda>h (n, text). (case header_value L text of Inl _ \<Rightarrow> Inl (503::nat) | Inr v \<Rightarrow> Inr (hm_insert n v h)))
        h1 (forward_auth_context L original edge) = Inr h2"
      and h: "h = fold (\<lambda>(n, v). hm_insert n v) static h2"
    using assms(1) unfolding auth_request_headers_def copy_def by auto
  have "set (hm_values h' n) \<subseteq> set (hm_values (req_headers original) n)"
    if "try_fold copy h0 ns = Inr h'" "set ns \<subseteq> set names" "set (hm_values h0 n) \<subseteq> set (hm_values (req_headers original) n)" for h0 h' ns
    using that
  proof (induction ns arbitrary: h0)
    case (Cons name ns)
    obtain h'' where h'': "copy h0 name = Inr h''" "try_fold copy h'' ns = Inr h'" using Cons.prems(1) by (auto split: sum.splits)
    have "set (hm_values h'' n) \<subseteq> set (hm_values (req_headers original) n)"
      using h''(1) Cons.prems(2,3) assms(2) [of name] by (auto simp: copy_def hm_values_append hm_append_def split: list.splits sum.splits if_splits)
    then show ?case using Cons.IH [OF h''(2)] Cons.prems(2) by simp
  qed simp
  from this [OF h1] have "set (hm_values h1 n) \<subseteq> set (hm_values (req_headers original) n)" by (simp add: hm_empty_def)
  then show ?thesis using context_headers_last [OF h2, of n] unfolding h static_headers_last by (auto split: option.splits)
qed

lemma auth_request_headers_total:
  assumes "\<And>x. \<exists>n. header_name L x = Inr n" "\<And>x. \<exists>v. header_value L x = Inr v"
  shows "\<exists>h. auth_request_headers L names static original edge = Inr h"
proof -
  let ?copy = "\<lambda>h name. case hm_values (req_headers original) (map to_lower name) of
      [] \<Rightarrow> Inr h | values \<Rightarrow> (case header_name L name of Inl _ \<Rightarrow> Inl (503::nat) | Inr n \<Rightarrow> Inr (fold (hm_append n) values h))"
  let ?put = "\<lambda>h (n, text). (case header_value L text of Inl _ \<Rightarrow> Inl (503::nat) | Inr v \<Rightarrow> Inr (hm_insert n v h))"
  have "\<exists>s'. ?copy s x = Inr s'" for s x
    using assms(1) [of x] by (auto split: list.splits)
  then obtain h1 where h1: "try_fold ?copy hm_empty names = Inr h1" using try_fold_total [of ?copy hm_empty names] by blast
  have "\<exists>s'. ?put s x = Inr s'" for s x
    using assms(2) [of "snd x"] by (auto split: prod.splits)
  then obtain h2 where "try_fold ?put h1 (forward_auth_context L original edge) = Inr h2" using try_fold_total [of ?put h1] by blast
  then show ?thesis using h1 by (simp add: auth_request_headers_def)
qed

theorem auth_headers_unforgeable_witness:
  "\<exists>h. auth_request_headers plain_response [''x-real-ip'', ''accept'', ''x-key''] [(''x-key'', ''secret'')]
      (demo_edge_request [(''x-real-ip'', ''6.6.6.6''), (''accept'', ''a''), (''x-key'', ''guess'')])
      \<lparr>client_ip = V4 7, proto = ''https'', forwarded_host = None, forwarded_port = 443, explicit_forwarded_port = None\<rparr> = Inr h
    \<and> hm_values h ''x-key'' = [''secret''] \<and> hm_values h ''x-real-ip'' = [''0.0.0.7'']"
proof -
  let ?r = "demo_edge_request [(''x-real-ip'', ''6.6.6.6''), (''accept'', ''a''), (''x-key'', ''guess'')]"
  let ?e = "\<lparr>client_ip = V4 7, proto = ''https'', forwarded_host = None, forwarded_port = 443, explicit_forwarded_port = None\<rparr>"
  let ?h = "auth_request_headers plain_response [''x-real-ip'', ''accept'', ''x-key''] [(''x-key'', ''secret'')] ?r ?e"
  have lib: "header_name plain_response x = Inr (map to_lower x)" "header_value plain_response x = Inr x" for x
    by (simp_all add: plain_response_def plain_csrf_def plain_http_def response_lib.defs csrf_lib.defs http_lib.defs)
  then obtain h where h: "?h = Inr h" using auth_request_headers_total by blast
  have name: "header_name plain_response x = Inr n \<Longrightarrow> n = map to_lower x"
    and val: "header_value plain_response x = Inr v \<Longrightarrow> v = x" for x n v using lib by simp_all
  have s: "map_of (rev [(''x-key'', ''secret'')]) ''x-key'' = Some ''secret''"
    "map_of (rev [(''x-key'', ''secret'')]) ''x-real-ip'' = None" by simp_all
  have c: "map_of (rev (forward_auth_context plain_response ?r ?e)) ''x-real-ip'' = Some ''0.0.0.7''" by code_simp
  have "hm_values h ''x-key'' = [''secret'']"
    using auth_headers_unforgeable [OF h name, of "''x-key''"] by (simp only: s option.case)
  moreover have "\<exists>v. header_value plain_response ''0.0.0.7'' = Inr v \<and> hm_values h ''x-real-ip'' = [v]"
    using auth_headers_unforgeable [OF h name, of "''x-real-ip''"] by (simp only: s c option.case)
  ultimately show ?thesis using h val by metis
qed

end
