(* ===== verification/WorkloadAuth.thy ===== *)
theory WorkloadAuth
  imports ResponseSecurity
begin

text \<open>
  \<^verbatim>\<open>src/src/workload_auth.rs\<close>: route authorization by the identity of a mutual-TLS listener, with the
  identity-header check of \<^verbatim>\<open>src/src/jwt_runtime.rs\<close> that it shares with token authentication.
\<close>

section \<open>Policies\<close>

record workload_policy =
  wp_listener_ids :: "string list"
  allowed_uri_sans :: "string list"
  identity_header :: "string option"

definition is_protected_response_header :: "string \<Rightarrow> bool" where
  "is_protected_response_header n \<longleftrightarrow> list_ex (\<lambda>p. eq_ignore_ascii_case p n)
     [''content-length'', ''content-encoding'', ''transfer-encoding'', ''connection'', ''keep-alive'', ''trailer'',
      ''upgrade'', ''te'', ''content-range'']"

text \<open>The parse error of a header name is the http crate's, whatever its text; \<open>unparsable\<close> stands for it.\<close>

definition validate_identity_header :: "('a) response_lib_scheme \<Rightarrow> string \<Rightarrow> string \<Rightarrow> string + string" where
  "validate_identity_header L unparsable name = (case parse_header_name L name of
     None \<Rightarrow> Inl unparsable
   | Some n \<Rightarrow>
       if length n \<le> 128 \<and> \<not> is_protected_response_header n
          \<and> n \<notin> set [''host'', ''authorization'', ''proxy-authorization'', ''proxy-authenticate'', ''proxy-connection'',
               ''cookie'', ''set-cookie'', ''forwarded'', ''x-real-ip'', ''x-hangang-auth-terminal'']
          \<and> \<not> prefix ''x-forwarded-'' n \<and> \<not> prefix ''x-original-'' n \<and> \<not> prefix ''sec-websocket-'' n
       then Inr n else Inl ''unsafe JWT identity header'')"

definition listener_id_ok :: "string \<Rightarrow> bool" where
  "listener_id_ok i \<longleftrightarrow> i \<noteq> [] \<and> length i \<le> 128 \<and> list_all (\<lambda>c. is_ascii_alphanumeric c \<or> c \<in> set ''._-:'') i"

definition validate_workload :: "('a) response_lib_scheme \<Rightarrow> string \<Rightarrow> workload_policy \<Rightarrow> string + unit" where
  "validate_workload L unparsable p = first_error
     [ensure (wp_listener_ids p \<noteq> [] \<and> length (wp_listener_ids p) \<le> 64) ''workload_auth listener_ids must contain 1..=64 listeners'',
      check_distinct (\<lambda>i. ensure (listener_id_ok i) ''invalid workload_auth listener ID'')
        ''duplicate workload_auth listener ID'' [] (wp_listener_ids p),
      ensure (allowed_uri_sans p \<noteq> [] \<and> length (allowed_uri_sans p) \<le> 128) ''workload_auth allowed_uri_sans must contain 1..=128 identities'',
      check_distinct validate_spiffe_id ''duplicate workload_auth URI SAN'' [] (allowed_uri_sans p),
      (case identity_header p of
         None \<Rightarrow> Inr () | Some name \<Rightarrow> map_sum id (\<lambda>_. ()) (validate_identity_header L unparsable name))]"

section \<open>Prepared authorization\<close>

text \<open>\<open>ev_current\<close> is what \<^verbatim>\<open>Evidence::current\<close> answers when the request is authorized.\<close>

record workload_connection =
  ev_listener :: string
  ev_uri :: string
  ev_current :: bool

record workload_runtime =
  wr_listeners :: "string list"
  wr_identities :: "string list"
  wr_reserved :: "string list"

datatype Denial = Forbidden | Retired

definition workload_runtime_new :: "('a) response_lib_scheme \<Rightarrow> string \<Rightarrow> workload_policy option \<Rightarrow> string + workload_runtime" where
  "workload_runtime_new L unparsable policy = (case policy of
     None \<Rightarrow> Inl ''route has no workload_auth policy''
   | Some p \<Rightarrow> res_bind (validate_workload L unparsable p) (\<lambda>_.
       res_bind (case identity_header p of None \<Rightarrow> Inr [] | Some name \<Rightarrow> map_sum id (\<lambda>n. [n]) (validate_identity_header L unparsable name))
         (\<lambda>reserved. Inr \<lparr>wr_listeners = wp_listener_ids p, wr_identities = allowed_uri_sans p, wr_reserved = reserved\<rparr>)))"

definition workload_authorize :: "workload_runtime \<Rightarrow> workload_connection option \<Rightarrow> Denial + string" where
  "workload_authorize rt evidence = (case evidence of
     None \<Rightarrow> Inl Forbidden
   | Some ev \<Rightarrow>
       if \<not> ev_current ev then Inl Retired
       else if ev_listener ev \<notin> set (wr_listeners rt) \<or> ev_uri ev \<notin> set (wr_identities rt) then Inl Forbidden
       else Inr (ev_uri ev))"

lemma first_error_Inr: "first_error rs = Inr u \<longleftrightarrow> (\<forall>r\<in>set rs. r = Inr ())"
  by (induction rs) auto

lemma workload_runtime_newD:
  assumes "workload_runtime_new L unparsable (Some p) = Inr rt"
  shows "wr_listeners rt = wp_listener_ids p" "wr_identities rt = allowed_uri_sans p" "list_all (\<lambda>u. validate_spiffe_id u = Inr ()) (allowed_uri_sans p)"
  using assms by (auto simp: workload_runtime_new_def validate_workload_def check_distinct_Inr list_all_iff)

text \<open>
  A prepared route authorizes a connection exactly when its evidence is current and names a
  configured listener and a configured, well-formed SPIFFE identity, and then as that identity.
\<close>

lemma workload_authorize_exact:
  assumes "workload_runtime_new L unparsable (Some p) = Inr rt"
  shows "workload_authorize rt evidence = Inr uri \<longleftrightarrow>
    (\<exists>ev. evidence = Some ev \<and> ev_current ev \<and> ev_listener ev \<in> set (wp_listener_ids p) \<and> ev_uri ev = uri
       \<and> uri \<in> set (allowed_uri_sans p) \<and> validate_spiffe_id uri = Inr ())"
  using workload_runtime_newD [OF assms]
  by (auto simp: workload_authorize_def list_all_iff split: option.splits)

end
