(* ===== verification/FailureBanLeases.thy ===== *)
theory FailureBanLeases
  imports FailureBanRuns
begin

text \<open>
  The failure bans of a whole configuration (\<^verbatim>\<open>src/path_failure_bans.rs\<close>): the heap of buckets with
  the leases outstanding on each, and what \<^verbatim>\<open>check\<close> and \<^verbatim>\<open>Observation::record\<close> do to them.
\<close>

definition heap_inv :: "ban_bucket list \<Rightarrow> (nat \<Rightarrow> lease multiset) \<Rightarrow> bool" where
  "heap_inv heap M \<longleftrightarrow> (\<forall>a<length heap. ban_inv (heap ! a, M a))"

text \<open>The leases of an observation that belong to one bucket.\<close>

definition leases_at :: "observation_leases \<Rightarrow> nat \<Rightarrow> lease multiset" where
  "leases_at ls a = mset (map snd (filter (\<lambda>e. fst e = a) ls))"

definition with_leases :: "(nat \<Rightarrow> lease multiset) \<Rightarrow> observation_leases \<Rightarrow> nat \<Rightarrow> lease multiset" where
  "with_leases M ls a = M a + leases_at ls a"

lemma leases_at_simps [simp]:
  "leases_at [] a = {#}" "leases_at ((b, l) # ls) a = (if b = a then add_mset l (leases_at ls a) else leases_at ls a)"
  "leases_at (ls @ ls') a = leases_at ls a + leases_at ls' a"
  by (simp_all add: leases_at_def)

lemma with_leases_Nil [simp]: "with_leases M [] = M"
  by (rule ext) (simp add: with_leases_def)

lemma heap_inv_update:
  assumes "heap_inv heap M" "a < length heap \<Longrightarrow> ban_inv (b, M' a)" "\<And>c. c \<noteq> a \<Longrightarrow> M' c = M c"
  shows "heap_inv (heap[a := b]) M'"
  unfolding heap_inv_def
proof (intro allI impI)
  fix c assume "c < length (heap[a := b])"
  then show "ban_inv (heap[a := b] ! c, M' c)" using assms by (cases "c = a") (auto simp: heap_inv_def)
qed

lemma length_drop_leases [simp]: "length (drop_leases ls heap) = length heap"
  by (induction ls arbitrary: heap) (auto simp: drop_leases_def split: prod.splits)

text \<open>Dropping an observation gives its leases back.\<close>

lemma drop_leases_inv: "heap_inv heap (with_leases M ls) \<Longrightarrow> heap_inv (drop_leases ls heap) M"
proof (induction ls arbitrary: heap)
  case Nil
  then show ?case by (simp add: drop_leases_def)
next
  case (Cons e ls)
  obtain a l where e: "e = (a, l)" by (cases e)
  have "heap_inv (heap[a := drop_lease (heap ! a) l]) (with_leases M ls)"
  proof (rule heap_inv_update [OF Cons.prems])
    assume "a < length heap"
    then have "ban_inv (heap ! a, with_leases M (e # ls) a)" using Cons.prems by (simp add: heap_inv_def)
    from drop_lease_inv(1) [OF this, of l] show "ban_inv (drop_lease (heap ! a) l, with_leases M ls a)"
      by (simp add: with_leases_def e)
  qed (simp add: with_leases_def e)
  from Cons.IH [OF this] show ?case by (simp add: drop_leases_def e)
qed

lemma record_leases_inv:
  "record_leases ls status now heap = (events, heap') \<Longrightarrow> heap_inv heap M \<Longrightarrow> heap_inv heap' M \<and> length heap' = length heap"
proof (induction ls arbitrary: heap events)
  case (Cons e ls)
  obtain a l where e: "e = (a, l)" by (cases e)
  obtain hit b where r: "record_response (heap ! a) l status now = (hit, b)" by fastforce
  obtain events' where ev: "record_leases ls status now (heap[a := b]) = (events', heap')"
    using Cons.prems(1) r by (auto simp: e split: prod.splits)
  have "heap_inv (heap[a := b]) M"
    using record_response_inv [of "heap ! a" "M a" l status now] r Cons.prems(2)
    by (intro heap_inv_update [OF Cons.prems(2)]) (auto simp: heap_inv_def)
  from Cons.IH [OF ev this] show ?case by simp
qed simp

lemma record_at_inv:
  "heap_inv heap (with_leases M ls) \<Longrightarrow> heap_inv (snd (record_at ls status now heap)) M"
proof -
  assume inv: "heap_inv heap (with_leases M ls)"
  obtain events heap' where "record_leases ls status now heap = (events, heap')" by fastforce
  with record_leases_inv [OF this inv] drop_leases_inv show ?thesis by (simp add: record_at_def)
qed

text \<open>A reservation loop holds exactly the leases it returns, and none when it refuses.\<close>

lemma reserve_loop_inv:
  "reserve_loop L as r host ip now ls heap = (result, heap') \<Longrightarrow> heap_inv heap (with_leases M ls)
   \<Longrightarrow> \<forall>a\<in>set as. a < length heap
   \<Longrightarrow> heap_inv heap' (case result of Inl _ \<Rightarrow> M | Inr ls' \<Rightarrow> with_leases M ls') \<and> length heap' = length heap"
proof (induction as arbitrary: ls heap)
  case (Cons a as)
  let ?m = "selector_matches L (bb_selector (heap ! a)) r host (br_include_subpaths (bb_rule (heap ! a)))"
  have a: "a < length heap" using Cons.prems(3) by simp
  consider (err) e where "?m = Inl e" | (skip) "?m = Inr False" | (hit) "?m = Inr True" by (cases ?m) auto
  then show ?case
  proof cases
    case err
    then show ?thesis using Cons.prems drop_leases_inv by auto
  next
    case skip
    then show ?thesis using Cons.IH [of ls heap] Cons.prems by auto
  next
    case hit
    obtain res b where res: "reserve (heap ! a) ip now = (res, b)" by fastforce
    have ai: "ban_inv (heap ! a, with_leases M ls a)" using Cons.prems(2) a by (simp add: heap_inv_def)
    show ?thesis
    proof (cases res)
      case (Inl e)
      have "heap_inv (heap[a := b]) (with_leases M ls)"
        using reserve_inv [OF res ai] Inl by (intro heap_inv_update [OF Cons.prems(2)]) auto
      then show ?thesis using Cons.prems(1) hit res Inl drop_leases_inv by auto
    next
      case (Inr l)
      have "heap_inv (heap[a := b]) (with_leases M (ls @ [(a, l)]))"
        using reserve_inv [OF res ai] Inr by (intro heap_inv_update [OF Cons.prems(2)]) (auto simp: with_leases_def)
      then show ?thesis using Cons.IH [of "ls @ [(a, l)]" "heap[a := b]"] Cons.prems hit res Inr by auto
    qed
  qed
qed (auto split: sum.split)

lemma ban_check_inv:
  assumes "ban_check L as r host ip scope now heap = (result, heap')" "heap_inv heap M" "\<forall>a\<in>set as. a < length heap"
  shows "heap_inv heap' (case result of Inl _ \<Rightarrow> M | Inr ls \<Rightarrow> with_leases M ls)"
proof (cases "precheck_at L as r host (to_canonical ip) scope now heap")
  case (Inl e)
  then show ?thesis using assms(1,2) by (auto simp: ban_check_def check_scope_at_def)
next
  case (Inr u)
  then have loop: "reserve_loop L as r host (to_canonical ip) now [] heap = (result, heap')"
    using assms(1) by (simp add: ban_check_def check_scope_at_def)
  show ?thesis using reserve_loop_inv [OF loop, of M] assms(2,3) by simp
qed

end
