(* ===== verification/ProxyAdmission.thy ===== *)
theory ProxyAdmission
  imports ProxyEdge WorkloadAuth FailureBanLeases PathRateLimits PathAllowlists ResourceGuard RouteAdmission LanguagePolicy CachePolicy
begin

text \<open>
  The admission of a request, \<^verbatim>\<open>handle_unfinalized\<close> and \<^verbatim>\<open>handle_inner\<close> of \<^verbatim>\<open>src/src/proxy.rs\<close> from the
  listener to the cache: the order in which the policies modelled in the other theories run, what
  each of them sees, and the state they share. What follows (cache, authentication, Lua,
  upstream) is the parameter \<open>upstream\<close> of \<open>handle_unfinalized\<close>.

  The state is that of a gateway with local counters (\<^verbatim>\<open>security_redis\<close> unset). Metrics, traffic
  records and security events are not modelled; a request is its head, its body is known to the
  parameters of \<open>services\<close> only.
\<close>

section \<open>Configuration, state and surroundings\<close>

text \<open>A route of the snapshot: the parts of \<^verbatim>\<open>HttpRuntime\<close> and its \<^verbatim>\<open>HttpRoute\<close> that admission reads.\<close>

record ('rx, 'net, 'j) proxy_route =
  pr_runtime :: "'rx http_runtime"
  pr_headers :: "(string \<times> string) list"
  pr_json :: "(string \<times> 'j) list"
  auth_unavailable :: bool
  enforced_resource :: "string option" \<comment> \<open>the \<^verbatim>\<open>resource_id\<close> of an enforced \<^verbatim>\<open>resource_policy\<close>\<close>
  pr_workload :: "workload_runtime option"
  pr_canonical_domain :: "CanonicalDomain option"
  require_tls :: bool
  pr_redirect_code :: "nat option"
  max_requests :: "u64 option"
  admission_counter :: nat \<comment> \<open>address of the shared counter of the route\<close>
  deny_cidrs :: "'net list"
  pr_country :: "compiled_country_policy option"
  pr_language :: "CompiledLanguagePolicy option" \<comment> \<open>\<^term>\<open>None\<close> unless the policy is enforced\<close>

record ('rx, 'net, 'j) snapshot_view =
  identity_headers :: "string list"
  snap_health_path :: "string option"
  allow_dot_segments :: bool
  http_match_headers :: "string list"
  trusted_proxy_cidrs :: "'net list"
  path_failure_bans :: "nat list"
  failure_ban_scope :: ban_scope
  path_csrf :: "csrf_compiled list"
  path_blocks :: "block_rule list"
  path_allowlists :: "'net compiled_allowlist list"
  path_rate_limits :: "nat list"
  resource_guards :: "'rx http_runtime list"
  authentication_path_guards :: "'rx http_runtime list"
  snap_http :: "('rx, 'net, 'j) proxy_route list"
  https_redirect_code :: nat
  response_security :: "response_compiled list"
  debug_gateway_header :: bool

text \<open>The connection a request arrived on: its transport, its peer and the evidence of its listener.\<close>

record 'net connection =
  conn_transport :: transport_info
  conn_peer :: ip_addr
  conn_workload :: "workload_connection option"
  conn_public :: "(string \<times> 'net list) option" \<comment> \<open>listener id and its trusted proxies\<close>
  conn_retired :: bool \<comment> \<open>the public listener's configuration is no longer current\<close>

text \<open>
  The parts admission calls and this theory does not open: the external guard, the ACME
  responder, the inspection of request bodies and whether its policy is still current, and JSON.
\<close>

record 'j services =
  serving :: bool \<comment> \<open>ready and not shutting down\<close>
  guard_admission :: "ip_addr \<Rightarrow> string \<Rightarrow> nat option"
  acme_serve :: "request \<Rightarrow> response option"
  request_blocks_check :: "request \<Rightarrow> string option \<Rightarrow> nat + unit"
  fences_current :: bool
  json_permit :: bool
  inspect_json_body :: "request \<Rightarrow> (nat \<times> string) + 'j"
  json_pointer :: "'j \<Rightarrow> string \<Rightarrow> 'j option"
  geo_capture :: "ip_addr \<Rightarrow> observation"

record gateway =
  gw_bans :: "ban_bucket list"
  gw_rates :: "rate_bucket list"
  gw_counters :: "u64 list"
  gw_permits :: nat \<comment> \<open>free permits of the request semaphore\<close>

definition evidence_of :: "'net connection \<Rightarrow> listener_evidence" where
  "evidence_of conn = \<lparr>workload_evidence = (conn_workload conn \<noteq> None), public_listener = map_option fst (conn_public conn)\<rparr>"

text \<open>The proxies trusted on a connection: none behind a workload listener, else the listener's or the document's.\<close>

definition trusted_for :: "('rx, 'net, 'j) snapshot_view \<Rightarrow> 'net connection \<Rightarrow> 'net list" where
  "trusted_for S conn =
     (if conn_workload conn \<noteq> None then []
      else case conn_public conn of Some (_, nets) \<Rightarrow> nets | None \<Rightarrow> trusted_proxy_cidrs S)"

definition forwarded_text :: "('a) response_lib_scheme \<Rightarrow> EdgeContext \<Rightarrow> string option" where
  "forwarded_text L edge = Option.bind (forwarded_host edge) (header_to_str L)"

section \<open>Sanitizing the request\<close>

definition sanitize_request ::
  "('a) response_lib_scheme \<Rightarrow> ('rx, 'net, 'j) snapshot_view \<Rightarrow> bool \<Rightarrow> request \<Rightarrow> response + request" where
  "sanitize_request L S workload r =
     (if \<not> allow_dot_segments S \<and> path_has_dot_segment (uri_path r)
      then Inl (text_response 400 ''path must not contain dot segments'')
      else (case canonicalize_content_length (req_headers r) of
        None \<Rightarrow> Inl (text_response 400 ''invalid or conflicting Content-Length'')
      | Some h \<Rightarrow>
          if list_ex is_forwarding_identity_header (connection_tokens L h)
          then Inl (text_response 400 ''forwarding identity header cannot be hop-by-hop'')
          else (case join_cookie_headers L (drop_client_connection_marked_headers L h) of
            None \<Rightarrow> Inl (text_response 400 ''invalid Cookie header'')
          | Some h \<Rightarrow>
              let h = (if workload then strip_forwarding_headers h else h);
                  h = hm_remove ''x-hangang-auth-terminal'' h
              in if list_ex (\<lambda>n. n \<in> set (http_match_headers S) \<and> has_duplicate_header h n) (hm_keys h)
                 then Inl (text_response 400 ''ambiguous duplicate route-match header'')
                 else Inr (r\<lparr>req_headers := h\<rparr>))))"

section \<open>Policies before routing\<close>

text \<open>The failure bans, when there are any: a reservation per matching bucket, kept for the response.\<close>

definition ban_gate ::
  "('a) response_lib_scheme \<Rightarrow> ('rx, 'net, 'j) snapshot_view \<Rightarrow> instant \<Rightarrow> EdgeContext \<Rightarrow> request \<Rightarrow> ban_bucket list
   \<Rightarrow> (response + observation_leases option) \<times> ban_bucket list" where
  "ban_gate L S now edge r heap =
     (if path_failure_bans S = [] then (Inr None, heap)
      else (case ban_check (http_lib.truncate L) (path_failure_bans S) r (forwarded_text L edge) (client_ip edge)
                   (failure_ban_scope S) now heap of
              (Inr held, heap') \<Rightarrow> (Inr (Some held), heap')
            | (Inl status, heap') \<Rightarrow> (Inl (security_denied status), heap')))"

definition rate_denied :: "nat \<Rightarrow> response" where
  "rate_denied status =
     (let denied = text_response status (if status = 429 then ''too many requests'' else ''bad request'');
          denied = (if status = 429 then with_header ''retry-after'' ''1'' denied else denied)
      in with_header ''cache-control'' ''no-store'' denied)"

text \<open>
  CSRF, path blocks, allow lists, rate limits, ACME, request blocks and their fences, in this order.
  The result is the country observed by the allow lists; \<^term>\<open>None\<close> is a panic.
\<close>

definition policy_gate ::
  "('a) response_lib_scheme \<Rightarrow> ('net \<Rightarrow> ip_addr \<Rightarrow> bool) \<Rightarrow> ('rx, 'net, 'j) snapshot_view \<Rightarrow> 'j services \<Rightarrow> instant
   \<Rightarrow> EdgeContext \<Rightarrow> request \<Rightarrow> rate_bucket list \<Rightarrow> ((response + observation option) \<times> rate_bucket list) option" where
  "policy_gate L net_contains S svc now edge r rates =
     (let host = forwarded_text L edge in
      case csrf_check L (path_csrf S) r host (proto edge) (explicit_forwarded_port edge) of
        None \<Rightarrow> None
      | Some (Inl status) \<Rightarrow> Some (Inl (security_denied status), rates)
      | Some (Inr _) \<Rightarrow>
     (case path_blocks_check (http_lib.truncate L) (path_blocks S) r host of
        Inl status \<Rightarrow> Some (Inl (with_header ''cache-control'' ''no-store''
            (text_response status (if status = 404 then ''not found'' else ''bad request''))), rates)
      | Inr _ \<Rightarrow>
     (case allowlists_check (http_lib.truncate L) net_contains (path_allowlists S) r host (client_ip edge) (geo_capture svc) of
        Inl status \<Rightarrow> Some (Inl (security_denied status), rates)
      | Inr country \<Rightarrow>
     (case rate_check (http_lib.truncate L) (path_rate_limits S) r host now rates of
        (Inl status, rates') \<Rightarrow> Some (Inl (rate_denied status), rates')
      | (Inr _, rates') \<Rightarrow>
     (case acme_serve svc r of
        Some reply \<Rightarrow> Some (Inl reply, rates')
      | None \<Rightarrow>
     (case request_blocks_check svc r host of
        Inl status \<Rightarrow> Some (Inl (security_denied status), rates')
      | Inr _ \<Rightarrow> if \<not> fences_current svc then Some (Inl (security_denied 503), rates') else Some (Inr country, rates')))))))"

section \<open>Routing\<close>

definition basic_match_path ::
  "('a) response_lib_scheme \<Rightarrow> ('rx \<Rightarrow> string \<Rightarrow> bool) \<Rightarrow> ('rx, 'net, 'j) proxy_route \<Rightarrow> listener_evidence \<Rightarrow> request \<Rightarrow> string \<Rightarrow> bool" where
  "basic_match_path L is_match pr evidence r path =
     (let rt = route (pr_runtime pr); rx = host_regex (pr_runtime pr);
          constrained_host = (route_host rt \<noteq> None \<or> route_hosts rt \<noteq> [] \<or> rx \<noteq> None)
      in if \<not> listener_matches rt evidence then False
         else if (constrained_host \<and> \<not> host_matches is_match rt rx (request_host (http_lib.truncate L) r)) \<or> \<not> path_matches rt path
         then False
         else list_all (\<lambda>(n, v). case hm_values (req_headers r) (map to_lower n) of a # _ \<Rightarrow> a = v | [] \<Rightarrow> False) (pr_headers pr))"

definition json_match :: "'j services \<Rightarrow> (string \<times> 'j) list \<Rightarrow> 'j \<Rightarrow> bool" where
  "json_match svc rules v \<longleftrightarrow> list_all (\<lambda>(pointer, expected). json_pointer svc v pointer = Some expected) rules"

text \<open>The loop over the routes; the body is inspected at most once, when the first route asks for it.\<close>

fun select_route ::
  "('a) response_lib_scheme \<Rightarrow> ('rx \<Rightarrow> string \<Rightarrow> bool) \<Rightarrow> 'j services \<Rightarrow> listener_evidence \<Rightarrow> request \<Rightarrow> string \<Rightarrow> 'j option
   \<Rightarrow> ('rx, 'net, 'j) proxy_route list \<Rightarrow> response + ('rx, 'net, 'j) proxy_route" where
  "select_route L is_match svc evidence r path inspected [] = Inl (text_response 404 ''no matching route'')"
| "select_route L is_match svc evidence r path inspected (pr # prs) =
     (if \<not> route_enabled (route (pr_runtime pr)) \<or> \<not> basic_match_path L is_match pr evidence r path
      then select_route L is_match svc evidence r path inspected prs
      else if pr_json pr = [] then Inr pr
      else if (case hm_values (req_headers r) ''content-encoding'' of v # _ \<Rightarrow> \<not> eq_ignore_ascii_case v ''identity'' | [] \<Rightarrow> False)
      then Inl (text_response 415 ''compressed JSON inspection is unsupported'')
      else
        (case (case inspected of
                 Some v \<Rightarrow> Inr v
               | None \<Rightarrow>
                   if \<not> json_permit svc then Inl (text_response 503 ''JSON inspection capacity exhausted'')
                   else (case inspect_json_body svc r of Inl (status, text) \<Rightarrow> Inl (text_response status text) | Inr v \<Rightarrow> Inr v)) of
           Inl reply \<Rightarrow> Inl reply
         | Inr v \<Rightarrow>
             if json_match svc (pr_json pr) v then Inr pr
             else select_route L is_match svc evidence r path (Some v) prs))"

section \<open>Policies of the route\<close>

text \<open>The checks before the permit of the route: authorization material, resource namespace, workload, redirects.\<close>

definition route_precheck ::
  "('a) response_lib_scheme \<Rightarrow> ('rx, 'net, 'j) snapshot_view \<Rightarrow> 'net connection \<Rightarrow> EdgeContext \<Rightarrow> request
   \<Rightarrow> string option \<Rightarrow> string \<Rightarrow> ('rx, 'net, 'j) proxy_route \<Rightarrow> response + string option" where
  "route_precheck L S conn edge r protected_resource path pr =
     (if auth_unavailable pr then Inl (text_response 503 ''route authorization unavailable'')
      else if (case protected_resource of Some i \<Rightarrow> enforced_resource pr \<noteq> Some i | None \<Rightarrow> False)
      then Inl (text_response 403 ''resource namespace refused'')
      else if conn_workload conn \<noteq> None \<and> pr_workload pr = None
      then Inl (text_response 403 ''route is not bound to this workload listener'')
      else
        (case (case pr_workload pr of
                 None \<Rightarrow> Inr None
               | Some prepared \<Rightarrow>
                   (case workload_authorize prepared (conn_workload conn) of
                      Inr uri \<Rightarrow> Inr (Some uri)
                    | Inl Forbidden \<Rightarrow> Inl (text_response 403 ''workload identity is not allowed'')
                    | Inl Retired \<Rightarrow> Inl (text_response 503 ''workload listener generation retired''))) of
           Inl reply \<Rightarrow> Inl reply
         | Inr identity \<Rightarrow>
             (case Option.bind (pr_canonical_domain pr) (canonical_domain_redirect L r edge path) of
                Some redirect \<Rightarrow> Inl redirect
              | None \<Rightarrow>
                  if require_tls pr \<and> proto edge \<noteq> ''https''
                  then Inl (https_redirect L r edge (case pr_redirect_code pr of Some c \<Rightarrow> c | None \<Rightarrow> https_redirect_code S))
                  else Inr identity)))"

definition country_refused :: "compiled_country_policy option \<Rightarrow> observation \<Rightarrow> response option" where
  "country_refused policy country = (case policy of
     None \<Rightarrow> None
   | Some p \<Rightarrow>
       if \<not> cc_enforce p then None
       else (case policy_country country of
               Inr c \<Rightarrow> if evaluate_code p c then None else Some (text_response 403 ''client country denied'')
             | Inl _ \<Rightarrow> Some (text_response 503 ''country database unavailable'')))"

definition language_refused :: "CompiledLanguagePolicy option \<Rightarrow> header_map \<Rightarrow> response option" where
  "language_refused policy h = (case policy of
     None \<Rightarrow> None
   | Some p \<Rightarrow>
       (case parse_values (hm_values h ''accept-language'') of
          Inl _ \<Rightarrow> Some (text_response 400 ''invalid Accept-Language preference'')
        | Inr language \<Rightarrow> if language_allows p language then None else Some (text_response 403 ''language preference denied'')))"

text \<open>The checks that hold the permit of the route: a refusal returns it.\<close>

definition route_refused ::
  "('net \<Rightarrow> ip_addr \<Rightarrow> bool) \<Rightarrow> EdgeContext \<Rightarrow> request \<Rightarrow> observation \<Rightarrow> ('rx, 'net, 'j) proxy_route \<Rightarrow> response option" where
  "route_refused net_contains edge r country pr =
     (if list_ex (\<lambda>net. net_contains net (client_ip edge)) (deny_cidrs pr) then Some (text_response 403 ''client address denied'')
      else (case country_refused (pr_country pr) country of
        Some reply \<Rightarrow> Some reply
      | None \<Rightarrow>
          (case language_refused (pr_language pr) (req_headers r) of
             Some reply \<Rightarrow> Some reply
           | None \<Rightarrow>
               if only_if_cached (req_headers r) \<and> \<not> is_protected (route (pr_runtime pr))
                  \<and> \<not> has_jwt_auth (route (pr_runtime pr)) \<and> pr_workload pr = None
               then Some (text_response 504 ''only-if-cached cannot be satisfied'')
               else None)))"

text \<open>The permit is taken first; a refusal drops it, and so do the response's owners later on.\<close>

definition route_admit ::
  "('net \<Rightarrow> ip_addr \<Rightarrow> bool) \<Rightarrow> EdgeContext \<Rightarrow> request \<Rightarrow> observation \<Rightarrow> ('rx, 'net, 'j) proxy_route \<Rightarrow> u64 list
   \<Rightarrow> (response + unit option) \<times> u64 list" where
  "route_admit net_contains edge r country pr counters =
     (let a = admission_counter pr in
      case acquire (counters ! a) (max_requests pr) of
        (Inl _, c) \<Rightarrow> (Inl (text_response 503 ''route capacity exhausted''), counters[a := c])
      | (Inr permit, c) \<Rightarrow>
          (case route_refused net_contains edge r country pr of
             Some reply \<Rightarrow> (Inl reply, counters[a := (if permit = None then c else drop_inner c)])
           | None \<Rightarrow> (Inr permit, counters[a := c])))"

section \<open>handle\_inner\<close>

record ('rx, 'net, 'j) admitted =
  ad_request :: request
  ad_edge :: EdgeContext
  ad_route :: "('rx, 'net, 'j) proxy_route"
  ad_path :: string
  ad_identity :: "string option"
  ad_country :: observation
  ad_permit :: "unit option"

text \<open>Routing and the route's policies for a request that passed the policies before them.\<close>

definition route_request ::
  "('a) response_lib_scheme \<Rightarrow> ('net \<Rightarrow> ip_addr \<Rightarrow> bool) \<Rightarrow> ('rx \<Rightarrow> string \<Rightarrow> bool) \<Rightarrow> ('rx, 'net, 'j) snapshot_view \<Rightarrow> 'j services
   \<Rightarrow> 'net connection \<Rightarrow> EdgeContext \<Rightarrow> request \<Rightarrow> observation option \<Rightarrow> u64 list
   \<Rightarrow> ((response + ('rx, 'net, 'j) admitted) \<times> u64 list) option" where
  "route_request L net_contains is_match S svc conn edge r country counters =
     (case check (http_lib.truncate L) is_match (resource_guards S) (authentication_path_guards S) (evidence_of conn) r (forwarded_text L edge) of
        None \<Rightarrow> None
      | Some (Inl status) \<Rightarrow> Some (Inl (text_response status ''resource namespace refused''), counters)
      | Some (Inr (protected_resource, canonical)) \<Rightarrow>
          (let path = (case canonical of Some p \<Rightarrow> p | None \<Rightarrow> uri_path r) in
           case select_route L is_match svc (evidence_of conn) r path None (snap_http S) of
             Inl reply \<Rightarrow> Some (Inl reply, counters)
           | Inr pr \<Rightarrow>
               (case route_precheck L S conn edge r protected_resource path pr of
                  Inl reply \<Rightarrow> Some (Inl reply, counters)
                | Inr identity \<Rightarrow>
                    (let country = (case country of Some c \<Rightarrow> c | None \<Rightarrow> geo_capture svc (client_ip edge)) in
                     case route_admit net_contains edge r country pr counters of
                       (Inl reply, counters') \<Rightarrow> Some (Inl reply, counters')
                     | (Inr permit, counters') \<Rightarrow>
                         Some (Inr \<lparr>ad_request = r, ad_edge = edge, ad_route = pr, ad_path = path, ad_identity = identity,
                                 ad_country = country, ad_permit = permit\<rparr>, counters')))))"

text \<open>
  The whole of \<^verbatim>\<open>handle_inner\<close> up to the cache: the outcome, the failure observation left in the
  capture, and the state. \<open>conn_peer\<close> is already canonical here.
\<close>

definition handle_inner ::
  "('a) response_lib_scheme \<Rightarrow> ('net \<Rightarrow> ip_addr \<Rightarrow> bool) \<Rightarrow> ('rx \<Rightarrow> string \<Rightarrow> bool) \<Rightarrow> ('rx, 'net, 'j) snapshot_view \<Rightarrow> 'j services
   \<Rightarrow> 'net connection \<Rightarrow> instant \<Rightarrow> request \<Rightarrow> gateway
   \<Rightarrow> ((response + ('rx, 'net, 'j) admitted) \<times> observation_leases option \<times> gateway) option" where
  "handle_inner L net_contains is_match S svc conn now r gw =
     (case sanitize_request L S (conn_workload conn \<noteq> None) r of
        Inl reply \<Rightarrow> Some (Inl reply, None, gw)
      | Inr r \<Rightarrow>
     (case resolve_edge L net_contains (conn_transport conn) r (conn_peer conn) (trusted_for S conn) of
        Inl _ \<Rightarrow> Some (Inl (text_response 400 ''invalid Host or forwarded client address''), None, gw)
      | Inr edge \<Rightarrow>
     (case guard_admission svc (client_ip edge) (uri_path r) of
        Some status \<Rightarrow> Some (Inl (security_denied status), None, gw)
      | None \<Rightarrow>
     (case ban_gate L S now edge r (gw_bans gw) of
        (Inl reply, bans) \<Rightarrow> Some (Inl reply, None, gw\<lparr>gw_bans := bans\<rparr>)
      | (Inr held, bans) \<Rightarrow>
     (let gw = gw\<lparr>gw_bans := bans\<rparr> in
      case policy_gate L net_contains S svc now edge r (gw_rates gw) of
        None \<Rightarrow> None
      | Some (Inl reply, rates) \<Rightarrow> Some (Inl reply, held, gw\<lparr>gw_rates := rates\<rparr>)
      | Some (Inr country, rates) \<Rightarrow>
     (let gw = gw\<lparr>gw_rates := rates\<rparr> in
      case route_request L net_contains is_match S svc conn edge r country (gw_counters gw) of
        None \<Rightarrow> None
      | Some (outcome, counters) \<Rightarrow> Some (outcome, held, gw\<lparr>gw_counters := counters\<rparr>)))))))"

section \<open>handle\_unfinalized and handle\<close>

text \<open>A ban wider than one URL is enforced before anything else is answered, the health probe included.\<close>

definition early_ban ::
  "('a) response_lib_scheme \<Rightarrow> ('net \<Rightarrow> ip_addr \<Rightarrow> bool) \<Rightarrow> ('rx, 'net, 'j) snapshot_view \<Rightarrow> 'net connection \<Rightarrow> instant \<Rightarrow> request
   \<Rightarrow> ban_bucket list \<Rightarrow> response option" where
  "early_ban L net_contains S conn now r heap =
     (if failure_ban_scope S = UrlScope \<or> path_failure_bans S = [] then None
      else if list_ex is_forwarding_identity_header (connection_tokens L (req_headers r)) then Some (security_denied 400)
      else (case resolve_edge L net_contains (conn_transport conn) r (conn_peer conn) (trusted_for S conn) of
              Inl _ \<Rightarrow> Some (security_denied 400)
            | Inr edge \<Rightarrow>
                (case ban_precheck (http_lib.truncate L) (path_failure_bans S) r (forwarded_text L edge) (client_ip edge)
                        (failure_ban_scope S) now heap of
                   Inl status \<Rightarrow> Some (security_denied status)
                 | Inr _ \<Rightarrow> None)))"

definition health_reply :: "('rx, 'net, 'j) snapshot_view \<Rightarrow> 'j services \<Rightarrow> request \<Rightarrow> response option" where
  "health_reply S svc r =
     (if snap_health_path S \<noteq> Some (uri_path r) then None
      else Some (if req_method r \<in> {''GET'', ''HEAD''}
                 then (if serving svc then text_response 200 ''ok'' else text_response 503 ''draining'')
                 else text_response 405 ''method not allowed''))"

definition hide_gateway :: "response \<Rightarrow> response" where
  "hide_gateway response =
     response\<lparr>resp_headers := hm_remove ''x-hangang-gateway'' (resp_headers response),
       resp_body := map (\<lambda>f. case f of TrailersFrame t \<Rightarrow> TrailersFrame (hm_remove ''x-hangang-gateway'' t) | DataFrame d \<Rightarrow> DataFrame d)
         (resp_body response)\<rparr>"

text \<open>What happens to every response of \<^verbatim>\<open>handle_inner\<close>: response policies, the failure observation, the gateway header.\<close>

definition finish_response ::
  "('a) response_lib_scheme \<Rightarrow> ('rx, 'net, 'j) snapshot_view \<Rightarrow> Context option \<Rightarrow> instant \<Rightarrow> observation_leases option \<Rightarrow> response
   \<Rightarrow> gateway \<Rightarrow> response \<times> gateway" where
  "finish_response L S context now held response gw =
     (let response = apply_response L response (response_security S) context;
          gw = (case held of
                  None \<Rightarrow> gw
                | Some ls \<Rightarrow> gw\<lparr>gw_bans := snd (record_at ls (resp_status response) now (gw_bans gw))\<rparr>)
      in (if debug_gateway_header S then response else hide_gateway response, gw))"

text \<open>
  \<open>upstream\<close> answers an admitted request; \<open>others\<close> is what the rest of the gateway does meanwhile,
  \<open>later\<close> the time of the response. The second component says whether the response is finalized.
\<close>

definition handle_unfinalized ::
  "('a) response_lib_scheme \<Rightarrow> ('net \<Rightarrow> ip_addr \<Rightarrow> bool) \<Rightarrow> ('rx \<Rightarrow> string \<Rightarrow> bool) \<Rightarrow> ('rx, 'net, 'j) snapshot_view \<Rightarrow> 'j services
   \<Rightarrow> (('rx, 'net, 'j) admitted \<Rightarrow> response) \<Rightarrow> (gateway \<Rightarrow> gateway) \<Rightarrow> 'net connection \<Rightarrow> instant \<Rightarrow> instant \<Rightarrow> Context option
   \<Rightarrow> request \<Rightarrow> gateway \<Rightarrow> (response \<times> bool \<times> gateway) option" where
  "handle_unfinalized L net_contains is_match S svc upstream others conn now later context r gw =
     (let conn = conn\<lparr>conn_peer := to_canonical (conn_peer conn)\<rparr>
      in if conn_retired conn then Some (text_response 503 ''public listener configuration retired'', False, gw)
         else
           let r = r\<lparr>req_headers := fold hm_remove (identity_headers S) (req_headers r)\<rparr>
           in case early_ban L net_contains S conn now r (gw_bans gw) of
                Some reply \<Rightarrow> Some (reply, False, gw)
              | None \<Rightarrow>
                  (case health_reply S svc r of
                     Some reply \<Rightarrow> Some (reply, False, gw)
                   | None \<Rightarrow>
                       if gw_permits gw = 0 then Some (text_response 503 ''request capacity exhausted'', False, gw)
                       else (case handle_inner L net_contains is_match S svc conn now r (gw\<lparr>gw_permits := gw_permits gw - 1\<rparr>) of
                               None \<Rightarrow> None
                             | Some (outcome, held, gw) \<Rightarrow>
                                 (let reply = (case outcome of Inl reply \<Rightarrow> reply | Inr a \<Rightarrow> upstream a);
                                      (reply, gw) = finish_response L S context later held reply (others gw)
                                  in Some (reply, True, gw)))))"

definition handle ::
  "('a) response_lib_scheme \<Rightarrow> ('net \<Rightarrow> ip_addr \<Rightarrow> bool) \<Rightarrow> ('rx \<Rightarrow> string \<Rightarrow> bool) \<Rightarrow> ('rx, 'net, 'j) snapshot_view \<Rightarrow> 'j services
   \<Rightarrow> (('rx, 'net, 'j) admitted \<Rightarrow> response) \<Rightarrow> (gateway \<Rightarrow> gateway) \<Rightarrow> 'net connection \<Rightarrow> instant \<Rightarrow> instant
   \<Rightarrow> request \<Rightarrow> gateway \<Rightarrow> (response \<times> gateway) option" where
  "handle L net_contains is_match S svc upstream others conn now later r gw =
     (let conn = conn\<lparr>conn_peer := to_canonical (conn_peer conn)\<rparr>;
          context = response_context L net_contains (conn_transport conn) (conn_retired conn) r (conn_peer conn) (trusted_for S conn)
      in case handle_unfinalized L net_contains is_match S svc upstream others conn now later context r gw of
           None \<Rightarrow> None
         | Some (response, finalized, gw) \<Rightarrow>
             Some (if finalized then response else apply_response L response (response_security S) context, gw))"

section \<open>What each stage leaves\<close>

text \<open>Every header with a value is listed among the keys, as in a \<^verbatim>\<open>HeaderMap\<close>.\<close>

definition hm_ok :: "header_map \<Rightarrow> bool" where
  "hm_ok h \<longleftrightarrow> (\<forall>n. hm_values h n \<noteq> [] \<longrightarrow> n \<in> set (hm_keys h))"

lemma hm_ok_insert [intro]: "hm_ok h \<Longrightarrow> hm_ok (hm_insert n v h)"
  by (auto simp: hm_ok_def hm_insert_def)

lemma hm_ok_remove [intro]: "hm_ok h \<Longrightarrow> hm_ok (hm_remove n h)"
  by (auto simp: hm_ok_def hm_remove_def)

lemma hm_ok_removes [intro]: "hm_ok h \<Longrightarrow> hm_ok (fold hm_remove ns h)"
  by (induction ns arbitrary: h) auto

lemma canonicalize_content_length_Some:
  assumes "canonicalize_content_length h = Some h'"
  shows "length (hm_values h' ''content-length'') \<le> 1" "hm_ok h \<Longrightarrow> hm_ok h'" "n \<noteq> ''content-length'' \<Longrightarrow> hm_values h' n = hm_values h n"
  using assms by (auto simp: canonicalize_content_length_def split: list.splits option.splits if_splits)

lemma join_cookie_headers_Some:
  assumes "join_cookie_headers L h = Some h'"
  shows "length (hm_values h' ''cookie'') \<le> 1" "hm_ok h \<Longrightarrow> hm_ok h'" "n \<noteq> ''cookie'' \<Longrightarrow> hm_values h' n = hm_values h n"
  using assms by (auto simp: join_cookie_headers_def split: list.splits sum.splits if_splits)

lemma connection_tokens_cong: "hm_values h ''connection'' = hm_values h' ''connection'' \<Longrightarrow> connection_tokens L h = connection_tokens L h'"
  by (simp add: connection_tokens_def)

lemma dropped_values:
  "hm_values (drop_client_connection_marked_headers L h) n =
     (if n \<in> set (connection_tokens L h) \<and> n \<notin> set STANDARD_HOP_BY_HOP then [] else hm_values h n)"
  by (simp add: drop_client_connection_marked_headers_def fold_remove_values)

text \<open>A sanitized request has the head of the request but for its headers, and those are unambiguous.\<close>

definition clean_headers :: "('a) response_lib_scheme \<Rightarrow> ('rx, 'net, 'j) snapshot_view \<Rightarrow> header_map \<Rightarrow> bool" where
  "clean_headers L S h \<longleftrightarrow>
     length (hm_values h ''content-length'') \<le> 1 \<and> length (hm_values h ''cookie'') \<le> 1
     \<and> hm_values h ''x-hangang-auth-terminal'' = []
     \<and> list_all (\<lambda>n. length (hm_values h n) \<le> 1) (http_match_headers S)
     \<and> list_all (\<lambda>n. \<not> is_forwarding_identity_header n \<and> (n \<in> set STANDARD_HOP_BY_HOP \<or> hm_values h n = [])) (connection_tokens L h)"

lemma sanitize_request_clean:
  assumes "sanitize_request L S workload r = Inr q" "hm_ok (req_headers r)"
  shows "clean_headers L S (req_headers q)" "q = r\<lparr>req_headers := req_headers q\<rparr>"
    "path_has_dot_segment (uri_path q) \<Longrightarrow> allow_dot_segments S"
    "workload \<Longrightarrow> is_forwarding_identity_header n \<Longrightarrow> n \<noteq> ''host'' \<Longrightarrow> hm_values (req_headers q) n = []"
proof -
  obtain h1 h2 where h1: "canonicalize_content_length (req_headers r) = Some h1"
      and id: "\<not> list_ex is_forwarding_identity_header (connection_tokens L h1)"
      and h2: "join_cookie_headers L (drop_client_connection_marked_headers L h1) = Some h2"
      and q: "q = r\<lparr>req_headers := hm_remove ''x-hangang-auth-terminal'' (if workload then strip_forwarding_headers h2 else h2)\<rparr>"
      and dup: "\<not> list_ex (\<lambda>n. n \<in> set (http_match_headers S) \<and> has_duplicate_header (req_headers q) n) (hm_keys (req_headers q))"
    and dot: "path_has_dot_segment (uri_path r) \<longrightarrow> allow_dot_segments S"
    using assms(1) by (auto simp: sanitize_request_def Let_def split: if_splits option.splits)
  let ?h = "req_headers q"
  have ok2: "hm_ok h2" using assms(2) canonicalize_content_length_Some(2) [OF h1] join_cookie_headers_Some(2) [OF h2]
    by (auto simp: drop_client_connection_marked_headers_def)
  have ok: "hm_ok ?h" using ok2 by (auto simp: q strip_forwarding_headers_def)
  have sub: "hm_values ?h n = [] \<or> hm_values ?h n = hm_values h2 n" for n
    by (simp add: q strip_forwarding_headers_def fold_remove_values)
  have sub1: "hm_values h2 n = [] \<or> hm_values h2 n = hm_values h1 n" if "n \<noteq> ''cookie''" for n
    using join_cookie_headers_Some(3) [OF h2 that] by (simp add: dropped_values)
  have conn: "hm_values ?h ''connection'' = hm_values h1 ''connection''"
    using join_cookie_headers_Some(3) [OF h2, of "''connection''"]
    by (simp add: q strip_forwarding_headers_def fold_remove_values dropped_values STANDARD_HOP_BY_HOP_def)
  have tokens: "connection_tokens L ?h = connection_tokens L h1" by (rule connection_tokens_cong) (rule conn)
  show "clean_headers L S ?h"
    unfolding clean_headers_def tokens
  proof (intro conjI)
    show "length (hm_values ?h ''content-length'') \<le> 1"
      using sub [of "''content-length''"] sub1 [of "''content-length''"] canonicalize_content_length_Some(1) [OF h1] by auto
    show "length (hm_values ?h ''cookie'') \<le> 1"
      using sub [of "''cookie''"] join_cookie_headers_Some(1) [OF h2] by auto
    show "hm_values ?h ''x-hangang-auth-terminal'' = []" by (simp add: q)
    show "list_all (\<lambda>n. length (hm_values ?h n) \<le> 1) (http_match_headers S)"
      unfolding list_all_iff
    proof (rule ballI, rule ccontr)
      fix n assume n: "n \<in> set (http_match_headers S)" "\<not> length (hm_values ?h n) \<le> 1"
      then have "hm_values ?h n \<noteq> []" by auto
      then have "n \<in> set (hm_keys ?h)" using ok by (simp add: hm_ok_def)
      then show False using dup n by (auto simp: list_ex_iff has_duplicate_header_def)
    qed
    have "n \<in> set STANDARD_HOP_BY_HOP \<or> hm_values ?h n = []" if "n \<in> set (connection_tokens L h1)" for n
    proof (cases "n = ''cookie''")
      case True
      have "hm_values h2 ''cookie'' = []" if "n \<notin> set STANDARD_HOP_BY_HOP"
        using h2 that True \<open>n \<in> _\<close> by (auto simp: join_cookie_headers_def dropped_values split: list.splits)
      then show ?thesis using sub [of n] True by metis
    next
      case False
      then show ?thesis using sub [of n] join_cookie_headers_Some(3) [OF h2 False] that by (auto simp: dropped_values split: if_splits)
    qed
    then show "list_all (\<lambda>n. \<not> is_forwarding_identity_header n \<and> (n \<in> set STANDARD_HOP_BY_HOP \<or> hm_values ?h n = [])) (connection_tokens L h1)"
      using id by (auto simp: list_all_iff list_ex_iff)
  qed
  show "q = r\<lparr>req_headers := ?h\<rparr>" by (simp add: q)
  show "allow_dot_segments S" if "path_has_dot_segment (uri_path q)" using that dot by (simp add: q)
  show "hm_values ?h n = []" if "workload" "is_forwarding_identity_header n" "n \<noteq> ''host''"
    using that ok2 by (auto simp: q strip_forwarding_headers_def fold_remove_values is_forwarding_identity_header_def hm_ok_def)
qed

text \<open>The stages a request has gone through when \<open>handle_inner\<close> answers.\<close>

lemma handle_inner_cases:
  assumes "handle_inner L nc im S svc conn now r gw = Some (outcome, held, gw')"
  obtains (early) reply where "outcome = Inl reply" "held = None" "gw' = gw"
  | (banned) q edge reply bans where "sanitize_request L S (conn_workload conn \<noteq> None) r = Inr q"
      "resolve_edge L nc (conn_transport conn) q (conn_peer conn) (trusted_for S conn) = Inr edge"
      "ban_gate L S now edge q (gw_bans gw) = (Inl reply, bans)"
      "outcome = Inl reply" "held = None" "gw' = gw\<lparr>gw_bans := bans\<rparr>"
  | (refused) q edge bans reply rates where "sanitize_request L S (conn_workload conn \<noteq> None) r = Inr q"
      "resolve_edge L nc (conn_transport conn) q (conn_peer conn) (trusted_for S conn) = Inr edge"
      "ban_gate L S now edge q (gw_bans gw) = (Inr held, bans)"
      "policy_gate L nc S svc now edge q (gw_rates gw) = Some (Inl reply, rates)"
      "outcome = Inl reply" "gw' = gw\<lparr>gw_bans := bans, gw_rates := rates\<rparr>"
  | (routed) q edge bans country rates counters where "sanitize_request L S (conn_workload conn \<noteq> None) r = Inr q"
      "resolve_edge L nc (conn_transport conn) q (conn_peer conn) (trusted_for S conn) = Inr edge"
      "guard_admission svc (client_ip edge) (uri_path q) = None"
      "ban_gate L S now edge q (gw_bans gw) = (Inr held, bans)"
      "policy_gate L nc S svc now edge q (gw_rates gw) = Some (Inr country, rates)"
      "route_request L nc im S svc conn edge q country (gw_counters gw) = Some (outcome, counters)"
      "gw' = gw\<lparr>gw_bans := bans, gw_rates := rates, gw_counters := counters\<rparr>"
proof -
  show thesis
  proof (cases "sanitize_request L S (conn_workload conn \<noteq> None) r")
    case (Inl reply)
    then show ?thesis using assms by (auto simp: handle_inner_def intro: early)
  next
    case q: (Inr q)
    show ?thesis
    proof (cases "resolve_edge L nc (conn_transport conn) q (conn_peer conn) (trusted_for S conn)")
      case (Inl e)
      then show ?thesis using assms q by (auto simp: handle_inner_def intro: early)
    next
      case e: (Inr edge)
      show ?thesis
      proof (cases "guard_admission svc (client_ip edge) (uri_path q)")
        case (Some status)
        then show ?thesis using assms q e by (auto simp: handle_inner_def intro: early)
      next
        case g: None
        obtain res bans where b: "ban_gate L S now edge q (gw_bans gw) = (res, bans)" by fastforce
        show ?thesis
        proof (cases res)
          case (Inl reply)
          then show ?thesis using assms q e g b by (intro banned [of q edge reply bans]) (auto simp: handle_inner_def)
        next
          case h: (Inr held')
          obtain out rates where p: "policy_gate L nc S svc now edge q (gw_rates gw) = Some (out, rates)"
            using assms q e g b h by (cases "policy_gate L nc S svc now edge q (gw_rates gw)") (auto simp: handle_inner_def)
          show ?thesis
          proof (cases out)
            case (Inl reply)
            then show ?thesis using assms q e g b h p by (intro refused [of q edge bans reply rates]) (auto simp: handle_inner_def)
          next
            case (Inr country)
            then show ?thesis using assms q e g b h p
              by (intro routed [of q edge bans country rates "gw_counters gw'"]) (auto simp: handle_inner_def split: option.splits)
          qed
        qed
      qed
    qed
  qed
qed

lemma policy_gate_cases:
  assumes "policy_gate L nc S svc now edge q rates = Some (out, rates')"
  shows "(rates' = rates \<and> (\<exists>reply. out = Inl reply)) \<or>
    (csrf_check L (path_csrf S) q (forwarded_text L edge) (proto edge) (explicit_forwarded_port edge) = Some (Inr ())
     \<and> path_blocks_check (http_lib.truncate L) (path_blocks S) q (forwarded_text L edge) = Inr ()
     \<and> (\<exists>country u. allowlists_check (http_lib.truncate L) nc (path_allowlists S) q (forwarded_text L edge) (client_ip edge) (geo_capture svc) = Inr country
         \<and> rate_check (http_lib.truncate L) (path_rate_limits S) q (forwarded_text L edge) now rates = (u, rates')
         \<and> (\<forall>c. out = Inr c \<longrightarrow> c = country \<and> u = Inr ())))"
  using assms unfolding policy_gate_def Let_def
  by (auto split: option.splits sum.splits prod.splits if_splits)

text \<open>A refusal gives its permit back, so the counters only change for an admitted request.\<close>

lemma drop_acquired: "acquire c m = (Inr permit, c') \<Longrightarrow> (if permit = None then c' else drop_inner c') = c"
  by (auto simp: acquire_def drop_inner_def split: option.splits if_splits)

lemma route_admit_refused: "route_admit nc edge q country pr counters = (Inl reply, counters') \<Longrightarrow> counters' = counters"
  using drop_acquired
  by (auto simp: route_admit_def Let_def acquire_def drop_inner_def split: option.splits if_splits prod.splits sum.splits)

lemma route_request_refused:
  "route_request L nc im S svc conn edge q country counters = Some (Inl reply, counters') \<Longrightarrow> counters' = counters"
  by (auto simp: route_request_def Let_def dest: route_admit_refused split: option.splits sum.splits prod.splits)

lemma route_request_admitted:
  assumes "route_request L nc im S svc conn edge q country counters = Some (Inr a, counters')"
  shows "\<exists>resource canonical.
    check (http_lib.truncate L) im (resource_guards S) (authentication_path_guards S) (evidence_of conn) q (forwarded_text L edge)
      = Some (Inr (resource, canonical))
    \<and> ad_path a = (case canonical of Some p \<Rightarrow> p | None \<Rightarrow> uri_path q)
    \<and> select_route L im svc (evidence_of conn) q (ad_path a) None (snap_http S) = Inr (ad_route a)
    \<and> route_precheck L S conn edge q resource (ad_path a) (ad_route a) = Inr (ad_identity a)
    \<and> ad_country a = (case country of Some c \<Rightarrow> c | None \<Rightarrow> geo_capture svc (client_ip edge))
    \<and> route_admit nc edge q (ad_country a) (ad_route a) counters = (Inr (ad_permit a), counters')
    \<and> ad_request a = q \<and> ad_edge a = edge"
proof -
  obtain resource canonical where c: "check (http_lib.truncate L) im (resource_guards S) (authentication_path_guards S) (evidence_of conn) q
      (forwarded_text L edge) = Some (Inr (resource, canonical))"
    using assms by (auto simp: route_request_def split: option.splits sum.splits)
  show ?thesis
    by (rule exI [of _ resource], rule exI [of _ canonical])
      (use assms c in \<open>auto simp: route_request_def Let_def split: sum.splits prod.splits\<close>)
qed

lemma select_route_first:
  "select_route L im svc ev q path inspected prs = Inr pr \<Longrightarrow>
   \<exists>pre post. prs = pre @ pr # post \<and> route_enabled (route (pr_runtime pr)) \<and> basic_match_path L im pr ev q path
     \<and> list_all (\<lambda>p. route_enabled (route (pr_runtime p)) \<and> basic_match_path L im p ev q path \<longrightarrow> pr_json p \<noteq> []) pre"
proof (induction prs arbitrary: inspected)
  case (Cons p prs)
  show ?case
  proof (cases "p = pr \<and> route_enabled (route (pr_runtime p)) \<and> basic_match_path L im p ev q path")
    case True
    then show ?thesis by (intro exI [of _ "[]"] exI [of _ prs]) auto
  next
    case False
    then obtain inspected' where rec: "select_route L im svc ev q path inspected' prs = Inr pr"
        and skip: "route_enabled (route (pr_runtime p)) \<and> basic_match_path L im p ev q path \<longrightarrow> pr_json p \<noteq> []"
      using Cons.prems by (auto split: if_splits sum.splits)
    from Cons.IH [OF rec] obtain pre post where "prs = pre @ pr # post" "route_enabled (route (pr_runtime pr))"
        "basic_match_path L im pr ev q path"
        "list_all (\<lambda>p. route_enabled (route (pr_runtime p)) \<and> basic_match_path L im p ev q path \<longrightarrow> pr_json p \<noteq> []) pre"
      by blast
    with skip show ?thesis by (intro exI [of _ "p # pre"] exI [of _ post]) auto
  qed
qed simp

lemma check_owner:
  assumes "check L im guards auths ev q host = Some (Inr (resource, canonical))"
    and "g \<in> set guards" "listener_matches (route g) ev" "scope_host im g (request_host L q)"
  shows "\<exists>path. canonical_path (uri_path q) = Inr path \<and> canonical = Some path
    \<and> (path_matches (route g) path \<longrightarrow> resource = policy_resource_id (route g) \<and> resource \<noteq> None)"
proof -
  let ?raw = "request_host L q"
  have scoped: "list_ex (\<lambda>g. listener_matches (route g) ev \<and> list_ex (scope_host im g)
      [?raw, Option.bind host (authority_host L), map_option snd (uri_authority q)]) (guards @ auths)" "guards \<noteq> []"
    using assms(2-4) by (auto simp: list_ex_iff)
  then obtain path where "canonical_path (uri_path q) = Inr path" "canonical = Some path"
      and f: "find_resource (\<lambda>g. listener_matches (route g) ev \<and> scope_host im g ?raw \<and> path_matches (route g) path) guards None
        = Some (Inr resource)"
    using assms(1) by (auto simp: check_def Let_def split: if_splits sum.splits option.splits)
  then show ?thesis using find_resource_Inr [OF f] assms(2-4) by auto
qed

lemma check_total:
  assumes "\<forall>g\<in>set guards. policy_resource_id (route g) \<noteq> None"
  shows "check L im guards auths ev q host \<noteq> None"
proof -
  have f: "find_resource sel guards r = None \<longleftrightarrow> False" for sel r using find_resource_total [OF assms] by simp
  show ?thesis by (simp add: check_def Let_def f split: sum.split option.split)
qed

lemma path_blocks_passed:
  assumes "validate_path_blocks rules = Inr ()" "path_blocks_check L rules q host = Inr ()"
    and "rule \<in> set rules" "scope_host_matches L rule q host"
  shows "\<exists>path. canonical_path (uri_path q) = Inr path \<and> \<not> prefix (path_segments (block_path rule)) (tl (split_on (CHR ''/'') path))"
proof -
  have "rules \<noteq> []" "list_ex (\<lambda>rule. scope_host_matches L rule q host) rules" using assms(3,4) by (auto simp: list_ex_iff)
  then obtain path where p: "canonical_path (uri_path q) = Inr path"
      and n: "\<not> (block_path rule = ''/'' \<or> path = block_path rule \<or> below (block_path rule) path)"
    using assms(2-4) by (auto simp: path_blocks_check_def list_ex_iff split: if_splits sum.splits)
  have "(block_path rule = ''/'' \<or> path = block_path rule \<or> below (block_path rule) path)
      = prefix (path_segments (block_path rule)) (tl (split_on (CHR ''/'') path))"
    using blocked_segments validated_block_rule(1) [OF assms(1,3)] canonical_path_rooted [OF p] by blast
  then show ?thesis using p n by simp
qed

section \<open>Properties\<close>

text \<open>
  C1. No policy is bypassed. A request that is admitted is the client's request with unambiguous
  headers (no duplicate of a route-match header, one \<^verbatim>\<open>Cookie\<close> and one \<^verbatim>\<open>Content-Length\<close>, nothing the
  client nominated for removal), without dot segments unless they are allowed, and every policy
  holds of exactly that request with the edge resolved from it: all CSRF rules pass, no blocked
  path covers its canonical path, and every allow list that selects it is satisfied.
\<close>

theorem admitted_request_policies:
  assumes "handle_inner L nc im S svc conn now r gw = Some (Inr a, held, gw')" "hm_ok (req_headers r)"
    and "prepare_csrf L csrf_rules = Some (Inr (path_csrf S))" "validate_path_blocks (path_blocks S) = Inr ()"
    and "prepare_allowlists net_text allow_rules = Inr (path_allowlists S)"
  shows "let q = ad_request a; e = ad_edge a; host = forwarded_text L e; ip = to_canonical (client_ip e) in
    q = r\<lparr>req_headers := req_headers q\<rparr> \<and> clean_headers L S (req_headers q)
    \<and> (path_has_dot_segment (uri_path q) \<longrightarrow> allow_dot_segments S)
    \<and> resolve_edge L nc (conn_transport conn) q (conn_peer conn) (trusted_for S conn) = Inr e
    \<and> list_all (csrf_passes L q host (proto e) (explicit_forwarded_port e)) csrf_rules
    \<and> (\<forall>rule\<in>set (path_blocks S). scope_host_matches (http_lib.truncate L) rule q host \<longrightarrow>
         (\<exists>path. canonical_path (uri_path q) = Inr path
            \<and> \<not> prefix (path_segments (block_path rule)) (tl (split_on (CHR ''/'') path))))
    \<and> list_all (allowlist_admits (http_lib.truncate L) nc q host ip (geo_capture svc ip)) allow_rules"
  using assms(1)
proof (cases rule: handle_inner_cases)
  case (routed q edge bans country rates counters)
  have a: "ad_request a = q" "ad_edge a = edge" using route_request_admitted [OF routed(6)] by blast+
  note clean = sanitize_request_clean [OF routed(1) assms(2)]
  obtain c where gate: "csrf_check L (path_csrf S) q (forwarded_text L edge) (proto edge) (explicit_forwarded_port edge) = Some (Inr ())"
      "path_blocks_check (http_lib.truncate L) (path_blocks S) q (forwarded_text L edge) = Inr ()"
      "allowlists_check (http_lib.truncate L) nc (path_allowlists S) q (forwarded_text L edge) (client_ip edge) (geo_capture svc) = Inr c"
    using policy_gate_cases [OF routed(5)] by blast
  have csrf: "list_all (csrf_passes L q (forwarded_text L edge) (proto edge) (explicit_forwarded_port edge)) csrf_rules"
    using csrf_loop_exact [OF prepare_csrf_from [OF assms(3)], of None q None] gate(1) by (simp add: csrf_check_def)
  have l: "list_all2 (\<lambda>rule c. compile_allowlist rule = Inr c) allow_rules (path_allowlists S)"
    using assms(5) collect_results_list_all2 by (auto simp: prepare_allowlists_def)
  have "\<exists>out. try_fold (allowlist_step (http_lib.truncate L) nc q (forwarded_text L edge) (to_canonical (client_ip edge))
      (geo_capture svc (to_canonical (client_ip edge)))) None (path_allowlists S) = Inr out"
    using gate(3) by (auto simp: allowlists_check_def Let_def)
  then have allow: "list_all (allowlist_admits (http_lib.truncate L) nc q (forwarded_text L edge) (to_canonical (client_ip edge))
      (geo_capture svc (to_canonical (client_ip edge)))) allow_rules"
    by (subst (asm) allowlist_loop(1) [OF l]) simp_all
  show ?thesis unfolding Let_def a using clean(1,2,3) routed(2) csrf allow path_blocks_passed [OF assms(4) gate(2)] by blast
qed simp_all


text \<open>
  C10. A refusal costs nothing it should not. A refused request holds no permit of a route, and it
  took tokens from the rate limits only if it passed sanitizing, the edge, CSRF, path blocks and
  allow lists, so a request that one of these refuses cannot exhaust the limits of others.
\<close>

theorem refused_request_effects:
  assumes "handle_inner L nc im S svc conn now r gw = Some (Inl reply, held, gw')"
  shows "gw_counters gw' = gw_counters gw \<and> gw_permits gw' = gw_permits gw
    \<and> (gw_rates gw' = gw_rates gw \<or>
       (\<exists>q e c. sanitize_request L S (conn_workload conn \<noteq> None) r = Inr q
          \<and> resolve_edge L nc (conn_transport conn) q (conn_peer conn) (trusted_for S conn) = Inr e
          \<and> csrf_check L (path_csrf S) q (forwarded_text L e) (proto e) (explicit_forwarded_port e) = Some (Inr ())
          \<and> path_blocks_check (http_lib.truncate L) (path_blocks S) q (forwarded_text L e) = Inr ()
          \<and> allowlists_check (http_lib.truncate L) nc (path_allowlists S) q (forwarded_text L e) (client_ip e) (geo_capture svc) = Inr c))"
  using assms
proof (cases rule: handle_inner_cases)
  case (refused q edge bans reply' rates)
  then show ?thesis using policy_gate_cases [OF refused(4)] by auto
next
  case (routed q edge bans country rates counters)
  then show ?thesis using policy_gate_cases [OF routed(5)] route_request_refused [of L nc im S svc conn edge q country "gw_counters gw" reply] by auto
qed simp_all

lemma ban_gate_inv:
  assumes "ban_gate L S now edge q heap = (res, heap')" "heap_inv heap M" "\<forall>a\<in>set (path_failure_bans S). a < length heap"
  shows "heap_inv heap' (case res of Inr (Some ls) \<Rightarrow> with_leases M ls | _ \<Rightarrow> M)"
  using assms ban_check_inv [of "http_lib.truncate L" "path_failure_bans S" q "forwarded_text L edge" "client_ip edge" "failure_ban_scope S" now heap _ heap' M]
  by (auto simp: ban_gate_def split: if_splits prod.splits sum.splits)

lemma handle_inner_leases:
  assumes "handle_inner L nc im S svc conn now r gw = Some (outcome, held, gw')"
    and "heap_inv (gw_bans gw) M" "\<forall>a\<in>set (path_failure_bans S). a < length (gw_bans gw)"
  shows "heap_inv (gw_bans gw') (case held of Some ls \<Rightarrow> with_leases M ls | None \<Rightarrow> M)"
  using assms(1)
proof (cases rule: handle_inner_cases)
  case (early reply)
  then show ?thesis using assms(2) by simp
next
  case (banned q edge reply bans)
  then show ?thesis using ban_gate_inv [OF banned(3) assms(2,3)] by simp
next
  case (refused q edge bans reply rates)
  then show ?thesis using ban_gate_inv [OF refused(3) assms(2,3)] by (cases held) simp_all
next
  case (routed q edge bans country rates counters)
  then show ?thesis using ban_gate_inv [OF routed(4) assms(2,3)] by (cases held) simp_all
qed

lemma finish_response_leases:
  assumes "finish_response L S context now held response gw = (response', gw')"
    and "heap_inv (gw_bans gw) (case held of Some ls \<Rightarrow> with_leases M ls | None \<Rightarrow> M)"
  shows "heap_inv (gw_bans gw') M"
  using assms record_at_inv by (cases held) (auto simp: finish_response_def Let_def)



section \<open>A small gateway\<close>

definition demo_route :: "(unit, ip_addr, nat) proxy_route" where
  "demo_route = \<lparr>pr_runtime = demo_guard, pr_headers = [], pr_json = [], auth_unavailable = False, enforced_resource = Some ''admin'',
     pr_workload = None, pr_canonical_domain = None, require_tls = True, pr_redirect_code = None, max_requests = Some 2,
     admission_counter = 0, deny_cidrs = [V4 66], pr_country = None, pr_language = None\<rparr>"

definition demo_snapshot :: "(unit, ip_addr, nat) snapshot_view" where
  "demo_snapshot = \<lparr>identity_headers = [''x-user''], snap_health_path = Some ''/healthz'', allow_dot_segments = False,
     http_match_headers = [], trusted_proxy_cidrs = [], path_failure_bans = [0], failure_ban_scope = UrlScope,
     path_csrf = demo_csrf_compiled, path_blocks = [\<lparr>block_path = ''/secret'', block_hosts = []\<rparr>], path_allowlists = [],
     path_rate_limits = [], resource_guards = [demo_guard], authentication_path_guards = [], snap_http = [demo_route],
     https_redirect_code = 308, response_security = [], debug_gateway_header = False\<rparr>"

definition demo_services :: "nat services" where
  "demo_services = \<lparr>serving = True, guard_admission = (\<lambda>_ _. None), acme_serve = (\<lambda>_. None), request_blocks_check = (\<lambda>_ _. Inr ()),
     fences_current = True, json_permit = True, inspect_json_body = (\<lambda>_. Inr 0), json_pointer = (\<lambda>_ _. None),
     geo_capture = (\<lambda>_. default_observation)\<rparr>"

definition demo_connection :: "ip_addr connection" where
  "demo_connection = \<lparr>conn_transport = \<lparr>tls = True, local_port = 443\<rparr>, conn_peer = V4 7, conn_workload = None, conn_public = None,
     conn_retired = False\<rparr>"

definition demo_gateway :: gateway where
  "demo_gateway = \<lparr>gw_bans = [new_ban_bucket demo_ban_rule], gw_rates = [], gw_counters = [0], gw_permits = 8\<rparr>"

lemma demo_admitted:
  "map_option (\<lambda>(out, held, g). (map_sum resp_status (\<lambda>a. (ad_path a, request_host (http_lib.truncate plain_response) (ad_request a))) out, gw_counters g))
     (handle_inner plain_response (=) (\<lambda>_ _. False) demo_snapshot demo_services demo_connection 5 (demo_request ''/admin/%78'') demo_gateway)
   = Some (Inr (''/admin/x'', Some ''app.example.com''), [1])"
  by code_simp

lemma demo_outcome:
  "\<exists>a held g. handle_inner plain_response (=) (\<lambda>_ _. False) demo_snapshot demo_services demo_connection 5 (demo_request ''/admin/%78'') demo_gateway
     = Some (Inr a, held, g) \<and> ad_path a = ''/admin/x''
     \<and> request_host (http_lib.truncate plain_response) (ad_request a) = Some ''app.example.com''"
proof -
  have "\<exists>a held g. x = Some (Inr a, held, g) \<and> ad_path a = p \<and> request_host (http_lib.truncate plain_response) (ad_request a) = p'"
    if "map_option (\<lambda>(out, held, g). (map_sum resp_status (\<lambda>a. (ad_path a, request_host (http_lib.truncate plain_response) (ad_request a))) out, gw_counters g)) x
      = Some (Inr (p, p'), c)" for x :: "((response + (unit, ip_addr, nat) admitted) \<times> observation_leases option \<times> gateway) option" and p p' c
    using that by auto
  from this [OF demo_admitted] show ?thesis .
qed

lemma demo_request_ok: "hm_ok (req_headers (demo_request path))"
  by (auto simp: hm_ok_def demo_request_def)

theorem admitted_request_policies_witness:
  "\<exists>a held g. handle_inner plain_response (=) (\<lambda>_ _. False) demo_snapshot demo_services demo_connection 5 (demo_request ''/admin/%78'') demo_gateway
      = Some (Inr a, held, g)
    \<and> clean_headers plain_response demo_snapshot (req_headers (ad_request a))
    \<and> list_all (csrf_passes plain_response (ad_request a) (forwarded_text plain_response (ad_edge a)) (proto (ad_edge a))
        (explicit_forwarded_port (ad_edge a))) demo_csrf_rules"
proof -
  obtain a held g where h: "handle_inner plain_response (=) (\<lambda>_ _. False) demo_snapshot demo_services demo_connection 5
      (demo_request ''/admin/%78'') demo_gateway = Some (Inr a, held, g)" using demo_outcome by blast
  have c: "prepare_csrf plain_response demo_csrf_rules = Some (Inr (path_csrf demo_snapshot))" by code_simp
  have b: "validate_path_blocks (path_blocks demo_snapshot) = Inr ()" by code_simp
  have l: "prepare_allowlists (\<lambda>_. 0) [] = Inr (path_allowlists demo_snapshot)" by code_simp
  show ?thesis using admitted_request_policies [OF h demo_request_ok c b l] h unfolding Let_def by blast
qed


theorem refused_request_effects_witness:
  "\<exists>reply held g. handle_inner plain_response (=) (\<lambda>_ _. False) demo_snapshot demo_services demo_connection 5 (demo_request ''/secret/a'') demo_gateway
      = Some (Inl reply, held, g) \<and> gw_counters g = [0]"
proof -
  have ex: "\<exists>reply held g. x = Some (Inl reply, held, g)"
    if "map_option (\<lambda>(out, held, g). map_sum resp_status (\<lambda>_. ()) out) x = Some (Inl c)"
    for x :: "((response + (unit, ip_addr, nat) admitted) \<times> observation_leases option \<times> gateway) option" and c
    using that by auto
  have "map_option (\<lambda>(out, held, g). map_sum resp_status (\<lambda>_. ()) out)
      (handle_inner plain_response (=) (\<lambda>_ _. False) demo_snapshot demo_services demo_connection 5 (demo_request ''/secret/a'') demo_gateway)
      = Some (Inl 404)" by code_simp
  from ex [OF this] obtain reply held g where h: "handle_inner plain_response (=) (\<lambda>_ _. False) demo_snapshot demo_services demo_connection 5
      (demo_request ''/secret/a'') demo_gateway = Some (Inl reply, held, g)" by blast
  from refused_request_effects [OF h] have "gw_counters g = gw_counters demo_gateway" by blast
  then show ?thesis using h by (simp add: demo_gateway_def)
qed

lemma demo_ports: "known_ports plain_response"
  by (auto simp: known_ports_def plain_response_def plain_csrf_def plain_url_def response_lib.defs csrf_lib.defs http_lib.defs split: option.splits)



end
