(* ===== verification/Multipart.thy ===== *)
theory Multipart
  imports ProxyHeaders CachePolicy
begin

text \<open>
  \<^verbatim>\<open>src/src/request_block_multipart.rs\<close>: the incremental inspection of multipart bodies. The body
  arrives in chunks; the parser keeps a bounded look-behind and the fields, and refuses every body
  on which a backend could see other parts than it does. The searches of the memchr crate are
  parameters, as is the http crate's header-name parser.
\<close>

section \<open>Fields and parts\<close>

definition MAX_HEADERS :: nat where "MAX_HEADERS = 4096"
definition MAX_PARTS :: nat where "MAX_PARTS = 256"
definition MAX_FIELD_BYTES :: nat where "MAX_FIELD_BYTES = 65536"

abbreviation CR :: char where "CR \<equiv> CHR 0x0D"
abbreviation LF :: char where "LF \<equiv> CHR 0x0A"

record Field =
  fd_name :: string
  fd_value :: string
  fd_file :: bool

datatype parser_state = Opening | Headers | Body | Closing

record Part =
  pt_name :: string
  pt_file :: bool
  pt_value :: string

definition part_append :: "Part \<Rightarrow> string \<Rightarrow> nat \<Rightarrow> nat + Part" where
  "part_append p bytes limit =
     (if pt_file p then Inr p
      else if length bytes > limit - length (pt_value p) then Inl 413
      else Inr (p\<lparr>pt_value := pt_value p @ bytes\<rparr>))"

definition part_finish :: "Part \<Rightarrow> nat + Field" where
  "part_finish p =
     (if utf8_decode (pt_value p) = None then Inl 400
      else Inr \<lparr>fd_name = pt_name p, fd_value = pt_value p, fd_file = pt_file p\<rparr>)"

section \<open>Part headers\<close>

definition disposition_token :: "char \<Rightarrow> bool" where
  "disposition_token b \<longleftrightarrow> is_ascii_graphic b \<and> b \<notin> set ''()<>@,;:/[]?={}'' \<and> b \<noteq> CHR 0x5C \<and> b \<noteq> CHR 0x22"

text \<open>The value of an attribute and what follows it: a quoted string without escapes, or a token.\<close>

definition disposition_value :: "string \<Rightarrow> nat + string \<times> string" where
  "disposition_value s =
     (if s \<noteq> [] \<and> hd s = CHR 0x22
      then (let inner = takeWhile (\<lambda>c. c \<noteq> CHR 0x22) (tl s); after = dropWhile (\<lambda>c. c \<noteq> CHR 0x22) (tl s)
            in if CHR 0x5C \<in> set inner \<or> after = [] then Inl 400 else Inr (inner, tl after))
      else (let v = takeWhile disposition_token s
            in if v = [] then Inl 400 else Inr (v, dropWhile disposition_token s)))"

definition spaces_off :: "string \<Rightarrow> string" where
  "spaces_off = dropWhile (\<lambda>c. c = CHR '' '')"

lemma spaces_off_le: "length (spaces_off s) \<le> length s"
  by (simp add: spaces_off_def length_dropWhile_le)

lemma disposition_value_le: "disposition_value s = Inr (v, r) \<Longrightarrow> length r \<le> length s"
proof -
  assume a: "disposition_value s = Inr (v, r)"
  have "length (tl (dropWhile (\<lambda>c. c \<noteq> CHR 0x22) (tl s))) \<le> length s"
    using length_dropWhile_le [of "\<lambda>c. c \<noteq> CHR 0x22" "tl s"] by simp
  then show ?thesis using a length_dropWhile_le [of disposition_token s]
    by (auto simp: disposition_value_def Let_def split: if_splits)
qed

text \<open>One round of the attribute loop: the attribute, its value and the text behind it.\<close>

definition disposition_attribute :: "string \<Rightarrow> string list \<Rightarrow> nat + string \<times> string \<times> string" where
  "disposition_attribute s seen =
     (let s = spaces_off s; attribute = map to_lower (takeWhile disposition_token s)
      in if attribute = [] then Inl 400
         else let s = spaces_off (dropWhile disposition_token s)
              in if s = [] \<or> hd s \<noteq> CHR ''='' \<or> attribute \<in> set seen then Inl 400
                 else map_sum id (Pair attribute) (disposition_value (spaces_off (tl s))))"

lemma disposition_attribute_less: "disposition_attribute s seen = Inr (a, v, r) \<Longrightarrow> length (spaces_off r) < length s"
proof -
  assume a: "disposition_attribute s seen = Inr (a, v, r)"
  let ?s = "spaces_off (dropWhile disposition_token (spaces_off s))"
  have s: "?s \<noteq> []" "disposition_value (spaces_off (tl ?s)) = Inr (v, r)"
    using a by (auto simp: disposition_attribute_def Let_def map_sum_def split: if_splits sum.splits)
  have "length (spaces_off r) \<le> length (tl ?s)" using disposition_value_le [OF s(2)] spaces_off_le le_trans by blast
  also have "\<dots> < length ?s" using s(1) by simp
  also have "\<dots> \<le> length s" using spaces_off_le length_dropWhile_le le_trans by metis
  finally show ?thesis .
qed

function disposition_loop :: "string \<Rightarrow> string list \<Rightarrow> string option \<Rightarrow> bool \<Rightarrow> nat + string \<times> bool" where
  "disposition_loop s seen name file =
     (if s = [] then (case name of Some n \<Rightarrow> Inr (n, file) | None \<Rightarrow> Inl 400)
      else (case disposition_attribute s seen of
        Inl e \<Rightarrow> Inl e
      | Inr (attribute, v, s') \<Rightarrow>
          if attribute = ''name'' \<and> (v = [] \<or> length v > 256 \<or> list_ex char_is_control (str_chars v)) then Inl 400
          else if attribute \<noteq> ''name'' \<and> attribute \<noteq> ''filename'' then Inl 400
          else
            let name = (if attribute = ''name'' then Some v else name); file = (file \<or> attribute = ''filename'');
                s' = spaces_off s'
            in if s' = [] then disposition_loop [] (attribute # seen) name file
               else if hd s' \<noteq> CHR '';'' \<or> tl s' = [] then Inl 400
               else disposition_loop (tl s') (attribute # seen) name file))"
  by pat_completeness auto
termination
  by (relation "measure (\<lambda>(s, _). length s)") (auto dest: disposition_attribute_less)

declare disposition_loop.simps [simp del]

definition parse_disposition :: "string \<Rightarrow> nat + string \<times> bool" where
  "parse_disposition raw = (case split_once (CHR '';'') raw of
     None \<Rightarrow> Inl 400
   | Some (kind, rest) \<Rightarrow>
       if \<not> eq_ignore_ascii_case (utf8_trim kind) ''form-data'' then Inl 400 else disposition_loop rest [] None False)"

text \<open>\<^verbatim>\<open>str::split\<close> at CR LF.\<close>

fun split_crlf :: "string \<Rightarrow> string list" where
  "split_crlf [] = [[]]"
| "split_crlf [a] = [[a]]"
| "split_crlf (a # b # s) =
     (if a = CR \<and> b = LF then [] # split_crlf s
      else (case split_crlf (b # s) of [] \<Rightarrow> [[a]] | p # ps \<Rightarrow> (a # p) # ps))"

fun header_lines :: "('a) http_lib_scheme \<Rightarrow> string list \<Rightarrow> string option \<Rightarrow> string list \<Rightarrow> nat + string option" where
  "header_lines L seen disposition [] = Inr disposition"
| "header_lines L seen disposition (line # rest) =
     (case split_once (CHR '':'') line of
        None \<Rightarrow> Inl 400
      | Some (name, v) \<Rightarrow>
          (case parse_header_name L name of
             None \<Rightarrow> Inl 400
           | Some n \<Rightarrow>
               if n \<in> set seen \<or> list_ex char_is_control (str_chars v) then Inl 400
               else if n = ''content-disposition'' then header_lines L (n # seen) (Some (utf8_trim v)) rest
               else if n = ''content-type'' then header_lines L (n # seen) disposition rest
               else Inl 400))"

definition parse_part_headers :: "('a) http_lib_scheme \<Rightarrow> string \<Rightarrow> nat + Part" where
  "parse_part_headers L bytes =
     (if utf8_decode bytes = None then Inl 400
      else (case header_lines L [] None (split_crlf bytes) of
        Inl e \<Rightarrow> Inl e
      | Inr None \<Rightarrow> Inl 400
      | Inr (Some disposition) \<Rightarrow>
          map_sum id (\<lambda>(name, file). \<lparr>pt_name = name, pt_file = file, pt_value = []\<rparr>) (parse_disposition disposition)))"

section \<open>The parser\<close>

record Parser =
  mp_marker :: string
  mp_delimiter :: string
  mp_state :: parser_state
  mp_pending :: string
  mp_headers :: string
  mp_part :: "Part option"
  mp_fields :: "Field list"
  max_field_bytes :: nat
  mp_failed :: "nat option"
  line_tail :: string
  before_line_tail :: "char option"

text \<open>The two searches: the first index of a byte, and the indexes of the non-overlapping occurrences of a string.\<close>

record memchr_lib =
  memchr :: "char \<Rightarrow> string \<Rightarrow> nat option"
  memmem_find_iter :: "string \<Rightarrow> string \<Rightarrow> nat list"

definition boundary_ok :: "string \<Rightarrow> bool" where
  "boundary_ok boundary \<longleftrightarrow> boundary \<noteq> [] \<and> length boundary \<le> 70
     \<and> list_all (\<lambda>b. is_ascii_alphanumeric b \<or> b = CHR 0x27 \<or> b \<in> set ''()+_,-./:=?'') boundary"

definition parser_new :: "string \<Rightarrow> nat \<Rightarrow> nat + Parser" where
  "parser_new boundary limit =
     (if \<not> boundary_ok boundary \<or> \<not> (1 \<le> limit \<and> limit \<le> MAX_FIELD_BYTES) then Inl 400
      else Inr \<lparr>mp_marker = ''--'' @ boundary, mp_delimiter = [CR, LF] @ ''--'' @ boundary, mp_state = Opening, mp_pending = [],
        mp_headers = [], mp_part = None, mp_fields = [], max_field_bytes = limit, mp_failed = None, line_tail = [],
        before_line_tail = None\<rparr>)"

definition parser_append :: "Parser \<Rightarrow> string \<Rightarrow> nat + Parser" where
  "parser_append P bytes = (case mp_part P of
     None \<Rightarrow> Inl 400
   | Some p \<Rightarrow> map_sum id (\<lambda>p. P\<lparr>mp_part := Some p\<rparr>) (part_append p bytes (max_field_bytes P)))"

definition flush_pending :: "Parser \<Rightarrow> nat + Parser" where
  "flush_pending P = map_sum id (\<lambda>P. P\<lparr>mp_pending := []\<rparr>) (parser_append P (mp_pending P))"

definition restart_or_append :: "Parser \<Rightarrow> char \<Rightarrow> nat + Parser" where
  "restart_or_append P b = (if b = CR then Inr (P\<lparr>mp_pending := mp_pending P @ [b]\<rparr>) else parser_append P [b])"

text \<open>The part that ends, as a field; the parser goes on in the given state.\<close>

definition take_field :: "Parser \<Rightarrow> string \<Rightarrow> parser_state \<Rightarrow> nat + Parser" where
  "take_field P pending state = (case mp_part P of
     None \<Rightarrow> Inl 400
   | Some p \<Rightarrow> map_sum id
       (\<lambda>f. P\<lparr>mp_fields := mp_fields P @ [f], mp_part := None, mp_pending := pending, mp_state := state\<rparr>) (part_finish p))"

definition ambiguous :: "memchr_lib \<Rightarrow> string \<Rightarrow> string \<Rightarrow> char option \<Rightarrow> bool" where
  "ambiguous M marker input before = list_ex (\<lambda>index.
     (if index = 0 then before else Some (input ! (index - 1))) \<noteq> Some CR) (memmem_find_iter M input marker)"

definition last_byte :: "string \<Rightarrow> char option" where
  "last_byte s = (if s = [] then None else Some (last s))"

definition reject_bare_lf_boundaries :: "memchr_lib \<Rightarrow> Parser \<Rightarrow> string \<Rightarrow> nat + Parser" where
  "reject_bare_lf_boundaries M P bytes =
     (if bytes = [] then Inr P
      else
        let marker = tl (mp_delimiter P); keep = length marker;
            bridge = line_tail P @ take (min (length bytes) keep) bytes
        in if ambiguous M marker bridge (before_line_tail P) \<or> ambiguous M marker bytes (last_byte (line_tail P)) then Inl 400
           else if length bytes \<ge> keep
           then Inr (P\<lparr>before_line_tail := (if length bytes > keep then Some (bytes ! (length bytes - keep - 1)) else last_byte (line_tail P)),
                  line_tail := drop (length bytes - keep) bytes\<rparr>)
           else
             let tail = line_tail P @ bytes; remove = length tail - keep
             in Inr (if remove > 0 then P\<lparr>before_line_tail := Some (tail ! (remove - 1)), line_tail := drop remove tail\<rparr>
                     else P\<lparr>line_tail := tail\<rparr>))"

section \<open>One byte in each state\<close>

definition opening_step :: "Parser \<Rightarrow> char \<Rightarrow> nat + Parser" where
  "opening_step P b =
     (if length (mp_pending P) < length (mp_marker P) \<and> b \<noteq> mp_marker P ! length (mp_pending P) then Inl 400
      else
        let pending = mp_pending P @ [b]
        in if length pending \<noteq> length (mp_marker P) + 2 then Inr (P\<lparr>mp_pending := pending\<rparr>)
           else if drop (length (mp_marker P)) pending = [CR, LF] then Inr (P\<lparr>mp_state := Headers, mp_pending := []\<rparr>)
           else if drop (length (mp_marker P)) pending = ''--'' then Inr (P\<lparr>mp_state := Closing, mp_pending := []\<rparr>)
           else Inl 400)"

definition headers_step :: "('a) http_lib_scheme \<Rightarrow> Parser \<Rightarrow> char \<Rightarrow> nat + Parser" where
  "headers_step L P b =
     (let headers = mp_headers P @ [b] in
      if suffix [CR, LF, CR, LF] headers
      then
        let stop = length headers - 4
        in if stop > MAX_HEADERS then Inl 413
           else if length (mp_fields P) \<ge> MAX_PARTS then Inl 413
           else map_sum id (\<lambda>p. P\<lparr>mp_part := Some p, mp_headers := [], mp_state := Body\<rparr>) (parse_part_headers L (take stop headers))
      else if length headers \<ge> MAX_HEADERS + 4 then Inl 413
      else Inr (P\<lparr>mp_headers := headers\<rparr>))"

definition body_step :: "Parser \<Rightarrow> char \<Rightarrow> nat + Parser" where
  "body_step P b =
     (let n = length (mp_pending P); d = length (mp_delimiter P); push = P\<lparr>mp_pending := mp_pending P @ [b]\<rparr> in
      if n < d then
        (if b = mp_delimiter P ! n then Inr push
         else (case flush_pending P of Inl e \<Rightarrow> Inl e | Inr P \<Rightarrow> restart_or_append P b))
      else if n = d then (if b = CR \<or> b = CHR ''-'' then Inr push else Inl 400)
      else if n = d + 1 then
        (let mark = mp_pending P ! d in
         if mark = CR \<and> b = LF then take_field P [] Headers
         else if mark = CHR ''-'' \<and> b = CHR ''-'' then Inr push
         else Inl 400)
      else if n = d + 2 then (if b = CR then Inr push else Inl 400)
      else if b = LF then take_field P [CR, LF] Closing
      else Inl 400)"

text \<open>\<^term>\<open>None\<close> is the panic of an index out of range.\<close>

definition closing_step :: "Parser \<Rightarrow> char \<Rightarrow> (nat + Parser) option" where
  "closing_step P b =
     (if length (mp_pending P) = 2 then Some (Inl 400)
      else if length (mp_pending P) > 2 then None
      else if b \<noteq> [CR, LF] ! length (mp_pending P) then Some (Inl 400)
      else Some (Inr (P\<lparr>mp_pending := mp_pending P @ [b]\<rparr>)))"

definition byte_step :: "('a) http_lib_scheme \<Rightarrow> Parser \<Rightarrow> char \<Rightarrow> (nat + Parser) option" where
  "byte_step L P b = (case mp_state P of
     Opening \<Rightarrow> Some (opening_step P b)
   | Headers \<Rightarrow> Some (headers_step L P b)
   | Body \<Rightarrow> Some (body_step P b)
   | Closing \<Rightarrow> closing_step P b)"

section \<open>Feeding and finishing\<close>

text \<open>The loop: in a body without pending bytes it skips to the next CR at once.\<close>

function feed_loop :: "('a) http_lib_scheme \<Rightarrow> memchr_lib \<Rightarrow> Parser \<Rightarrow> string \<Rightarrow> (nat + Parser) option" where
  "feed_loop L M P [] = Some (Inr P)"
| "feed_loop L M P (b # bs) =
     (if mp_state P = Body \<and> mp_pending P = [] then
        (case memchr M CR (b # bs) of
           None \<Rightarrow> Some (parser_append P (b # bs))
         | Some index \<Rightarrow>
             if length bs < index then None
             else (case parser_append P (take index (b # bs)) of
               Inl e \<Rightarrow> Some (Inl e)
             | Inr P \<Rightarrow> (case body_step P ((b # bs) ! index) of Inl e \<Rightarrow> Some (Inl e) | Inr P \<Rightarrow> feed_loop L M P (drop index bs))))
      else (case byte_step L P b of
        None \<Rightarrow> None
      | Some (Inl e) \<Rightarrow> Some (Inl e)
      | Some (Inr P) \<Rightarrow> feed_loop L M P bs))"
  by pat_completeness auto
termination by (relation "measure (\<lambda>(L, M, P, bs). length bs)") auto

definition feed_inner :: "('a) http_lib_scheme \<Rightarrow> memchr_lib \<Rightarrow> Parser \<Rightarrow> string \<Rightarrow> (nat + Parser) option" where
  "feed_inner L M P bytes = (case reject_bare_lf_boundaries M P bytes of
     Inl e \<Rightarrow> Some (Inl e)
   | Inr P \<Rightarrow> feed_loop L M P bytes)"

text \<open>After a failure nothing but \<^verbatim>\<open>failed\<close> is read again, so the other fields keep their values.\<close>

definition feed :: "('a) http_lib_scheme \<Rightarrow> memchr_lib \<Rightarrow> Parser \<Rightarrow> string \<Rightarrow> ((nat + unit) \<times> Parser) option" where
  "feed L M P bytes = (case mp_failed P of
     Some status \<Rightarrow> Some (Inl status, P)
   | None \<Rightarrow>
       (case feed_inner L M P bytes of
          None \<Rightarrow> None
        | Some (Inl status) \<Rightarrow> Some (Inl status, P\<lparr>mp_failed := Some status\<rparr>)
        | Some (Inr P) \<Rightarrow> Some (Inr (), P)))"

definition parser_finish :: "Parser \<Rightarrow> nat + Field list" where
  "parser_finish P = (case mp_failed P of
     Some status \<Rightarrow> Inl status
   | None \<Rightarrow>
       (case (if mp_state P = Body \<and> length (mp_pending P) = length (mp_delimiter P) + 2
                 \<and> prefix (mp_delimiter P) (mp_pending P) \<and> suffix ''--'' (mp_pending P)
              then take_field P [] Closing else Inr P) of
          Inl e \<Rightarrow> Inl e
        | Inr P \<Rightarrow>
            if mp_state P \<noteq> Closing \<or> mp_pending P \<notin> {[], [CR, LF]} then Inl 400 else Inr (mp_fields P)))"

text \<open>The use of the parser on a body that arrives in chunks: the first error ends it.\<close>

fun inspect_chunks :: "('a) http_lib_scheme \<Rightarrow> memchr_lib \<Rightarrow> Parser \<Rightarrow> string list \<Rightarrow> (nat + Field list) option" where
  "inspect_chunks L M P [] = Some (parser_finish P)"
| "inspect_chunks L M P (chunk # chunks) = (case feed L M P chunk of
     None \<Rightarrow> None
   | Some (Inl e, _) \<Rightarrow> Some (Inl e)
   | Some (Inr _, P) \<Rightarrow> inspect_chunks L M P chunks)"

end
