(* ===== verification/MultipartWire.thy ===== *)
theory MultipartWire
  imports Multipart
begin

text \<open>
  What the multipart parser accepts: exactly the bodies of the wire format whose parts no lenient
  reader could cut differently, in whatever chunks they arrive.
\<close>

section \<open>Searching\<close>

text \<open>What the memchr crate documents of its two searches.\<close>

definition memchr_ok :: "memchr_lib \<Rightarrow> bool" where
  "memchr_ok M \<longleftrightarrow>
     (\<forall>c s. memchr M c s = (if c \<in> set s then Some (length (takeWhile (\<lambda>x. x \<noteq> c) s)) else None))
     \<and> (\<forall>s pat. pat \<noteq> [] \<longrightarrow>
          (\<forall>i\<in>set (memmem_find_iter M s pat). prefix pat (drop i s))
          \<and> (\<forall>i. prefix pat (drop i s) \<longrightarrow> (\<exists>j\<in>set (memmem_find_iter M s pat). j \<le> i \<and> i < j + length pat)))"

text \<open>The text before and after the first occurrence.\<close>

fun split_first :: "string \<Rightarrow> string \<Rightarrow> (string \<times> string) option" where
  "split_first pat [] = (if pat = [] then Some ([], []) else None)"
| "split_first pat (c # s) =
     (if prefix pat (c # s) then Some ([], drop (length pat) (c # s))
      else map_option (\<lambda>(a, r). (c # a, r)) (split_first pat s))"

lemma split_first_Some:
  assumes "pat \<noteq> []"
  shows "split_first pat s = Some (c, r) \<longleftrightarrow> s = c @ pat @ r \<and> (\<forall>i<length c. \<not> prefix pat (drop i s))"
proof (induction s arbitrary: c)
  case Nil
  then show ?case using assms by simp
next
  case (Cons x s)
  show ?case
  proof (cases "prefix pat (x # s)")
    case True
    then obtain t where t: "x # s = pat @ t" by (auto simp: prefix_def)
    then have e: "split_first pat (x # s) = Some ([], t)" using True by (metis append_eq_conv_conj split_first.simps(2))
    have "c = []" if "\<forall>i<length c. \<not> prefix pat (drop i (x # s))" using that True by (cases c) (force, force)
    then show ?thesis unfolding e by (metis append_Nil length_0_conv not_less_zero option.inject prod.inject same_append_eq t)
  next
    case False
    then have e: "split_first pat (x # s) = map_option (\<lambda>(a, r). (x # a, r)) (split_first pat s)" by simp
    have nz: "x # s \<noteq> pat @ r'" for r' using False by (metis prefixI)
    have "(\<forall>i<Suc n. \<not> prefix pat (drop i (x # s))) \<longleftrightarrow> (\<forall>i<n. \<not> prefix pat (drop i s))" for n
      using False by (auto simp: less_Suc_eq_0_disj)
    then show ?thesis unfolding e using nz Cons by (cases c) auto
  qed
qed

lemma split_first_None:
  assumes "pat \<noteq> []"
  shows "split_first pat s = None \<longleftrightarrow> (\<forall>i. \<not> prefix pat (drop i s))"
proof (induction s)
  case (Cons x s)
  have "(\<forall>i. \<not> prefix pat (drop i (x # s))) \<longleftrightarrow> \<not> prefix pat (x # s) \<and> (\<forall>i. \<not> prefix pat (drop i s))"
    by (metis drop0 drop_Suc_Cons not0_implies_Suc)
  then show ?case using Cons by auto
qed (use assms in simp)

lemma prefix_drop_sublist: "(\<exists>i. prefix pat (drop i s)) \<longleftrightarrow> sublist pat s"
proof
  assume "\<exists>i. prefix pat (drop i s)"
  then show "sublist pat s" by (meson sublist_drop prefix_imp_sublist sublist_order.order_trans)
next
  assume "sublist pat s"
  then obtain a b where "s = a @ pat @ b" by (auto simp: sublist_def)
  then have "prefix pat (drop (length a) s)" by simp
  then show "\<exists>i. prefix pat (drop i s)" ..
qed

lemma split_first_skip:
  assumes "\<forall>i<length u. \<not> prefix pat (drop i u @ t)"
  shows "split_first pat (u @ t) = map_option (\<lambda>(a, r). (u @ a, r)) (split_first pat t)"
  using assms
proof (induction u)
  case Nil
  then show ?case by (simp add: option.map_ident_strong case_prod_beta)
next
  case (Cons x u)
  have "\<forall>i<length u. \<not> prefix pat (drop i u @ t)" using Cons.prems by (metis drop_Suc_Cons length_Cons Suc_less_eq)
  moreover have "\<not> prefix pat (x # u @ t)" using Cons.prems by force
  ultimately show ?case using Cons.IH by (simp add: option.map_comp comp_def case_prod_beta)
qed

lemma split_first_ends:
  assumes "split_first pat h = None" "suffix pat (h @ [b])" "pat \<noteq> []"
  shows "split_first pat (h @ b # s) = Some (take (Suc (length h) - length pat) (h @ [b]), s)"
proof -
  obtain c where c: "h @ [b] = c @ pat" using assms(2) by (auto simp: suffix_def)
  have len: "length c + length pat = Suc (length h)" using c by (metis length_append length_append_singleton)
  have "\<not> prefix pat (drop i (h @ b # s))" if "i < length c" for i
  proof
    assume p: "prefix pat (drop i (h @ b # s))"
    have "prefix (drop i h) (drop i (h @ b # s))" by simp
    from prefix_length_prefix [OF p this] have "prefix pat (drop i h)" using that len by simp
    then show False using assms(1,3) split_first_None by blast
  qed
  moreover have "h @ b # s = c @ pat @ s" using c by (metis append.assoc append_Cons append_Nil)
  ultimately have "split_first pat (h @ b # s) = Some (c, s)" using split_first_Some [OF assms(3)] by blast
  moreover have "take (Suc (length h) - length pat) (h @ [b]) = c" using c len by (metis add_diff_cancel_right' append_eq_conv_conj)
  ultimately show ?thesis by simp
qed

lemma split_first_snoc:
  assumes "split_first pat h = None" "\<not> suffix pat (h @ [b])" "pat \<noteq> []"
  shows "split_first pat (h @ [b]) = None"
proof (rule ccontr)
  assume "split_first pat (h @ [b]) \<noteq> None"
  then obtain c r where "split_first pat (h @ [b]) = Some (c, r)" by auto
  then have r: "h @ [b] = c @ pat @ r" using split_first_Some [OF assms(3)] by simp
  show False
  proof (cases r rule: rev_cases)
    case Nil
    then show ?thesis using r assms(2) by (metis append_Nil2 suffixI)
  next
    case (snoc r' x)
    then have "h @ [b] = (c @ pat @ r') @ [x]" using r by simp
    then have "h = c @ pat @ r'" by blast
    then have "prefix pat (drop (length c) h)" by simp
    then show ?thesis using assms(1,3) split_first_None by blast
  qed
qed

lemma split_first_beyond:
  assumes "split_first pat u = None" "split_first pat (u @ t) = Some (a, r)" "pat \<noteq> []"
  shows "length u < length a + length pat"
proof (rule ccontr)
  assume "\<not> length u < length a + length pat"
  moreover have "u @ t = (a @ pat) @ r" using split_first_Some [OF assms(3)] assms(2) by simp
  then have "prefix (a @ pat) (u @ t)" "prefix u (u @ t)" by (metis prefixI) simp
  ultimately have "prefix (a @ pat) u" by (metis prefix_length_prefix length_append not_less)
  then obtain z where "u = a @ pat @ z" by (auto simp: prefix_def)
  then have "prefix pat (drop (length a) u)" by simp
  then show False using assms(1,3) split_first_None by blast
qed

section \<open>Byte by byte\<close>

fun steps :: "('a) http_lib_scheme \<Rightarrow> Parser \<Rightarrow> string \<Rightarrow> (nat + Parser) option" where
  "steps L P [] = Some (Inr P)"
| "steps L P (b # bs) = (case byte_step L P b of
     None \<Rightarrow> None | Some (Inl e) \<Rightarrow> Some (Inl e) | Some (Inr P) \<Rightarrow> steps L P bs)"

definition mp_inv :: "string \<Rightarrow> Parser \<Rightarrow> bool" where
  "mp_inv B P \<longleftrightarrow> boundary_ok B \<and> mp_marker P = ''--'' @ B \<and> mp_delimiter P = [CR, LF] @ ''--'' @ B \<and> mp_failed P = None
     \<and> (mp_state P = Body \<longrightarrow> mp_part P \<noteq> None) \<and> (mp_state P = Closing \<longrightarrow> length (mp_pending P) \<le> 2)"

lemmas step_defs = byte_step_def opening_step_def headers_step_def body_step_def closing_step_def take_field_def
  restart_or_append_def flush_pending_def parser_append_def Let_def

lemma byte_step_inv:
  assumes "mp_inv B P"
  shows "byte_step L P b \<noteq> None" "byte_step L P b = Some (Inr P') \<Longrightarrow> mp_inv B P'"
  using assms by (auto simp: mp_inv_def step_defs map_sum_def split: parser_state.splits if_splits option.splits sum.splits)

lemma steps_inv:
  assumes "mp_inv B P"
  shows "steps L P s \<noteq> None" "steps L P s = Some (Inr P') \<Longrightarrow> mp_inv B P'"
  using assms
proof (induction s arbitrary: P)
  case (Cons b s)
  {
    case 1
    then show ?case using byte_step_inv [OF 1, of L b] Cons.IH(1) by (fastforce split: option.splits sum.splits)
  next
    case 2
    then show ?case using byte_step_inv(2) [OF 2(2), of L b] Cons.IH(2) by (auto split: option.splits sum.splits)
  }
qed auto

lemma steps_append: "steps L P (a @ b) = (case steps L P a of Some (Inr P') \<Rightarrow> steps L P' b | r \<Rightarrow> r)"
  by (induction a arbitrary: P) (auto split: option.splits sum.splits)

lemma part_append_append:
  "part_append p (a @ b) n = (case part_append p a n of Inl e \<Rightarrow> Inl e | Inr p' \<Rightarrow> part_append p' b n)"
  by (auto simp: part_append_def)

lemma part_append_Nil [simp]: "part_append p [] n = Inr p"
  by (simp add: part_append_def)

lemma parser_append_append:
  "parser_append P (a @ b) = (case parser_append P a of Inl e \<Rightarrow> Inl e | Inr P' \<Rightarrow> parser_append P' b)"
  by (auto simp: parser_append_def part_append_append split: option.splits sum.splits)

lemma parser_append_keeps:
  "parser_append P a = Inr P' \<Longrightarrow> mp_state P' = mp_state P \<and> mp_pending P' = mp_pending P \<and> (mp_inv B P \<longrightarrow> mp_inv B P')"
  by (auto simp: parser_append_def mp_inv_def map_sum_def split: option.splits sum.splits)

lemma parser_append_Nil: "mp_part P \<noteq> None \<Longrightarrow> parser_append P [] = Inr P"
  by (auto simp: parser_append_def)

lemma pending_same: "mp_pending P = x \<Longrightarrow> P\<lparr>mp_pending := x\<rparr> = P"
  by (cases P) simp

lemma steps_plain:
  assumes "mp_inv B P" "mp_state P = Body" "mp_pending P = []" "CR \<notin> set cs"
  shows "steps L P cs = Some (parser_append P cs)"
  using assms
proof (induction cs arbitrary: P)
  case Nil
  then show ?case by (auto simp: parser_append_Nil mp_inv_def)
next
  case (Cons c cs)
  have n: "parser_append P [] = Inr P" using Cons.prems by (auto simp: parser_append_Nil mp_inv_def)
  have p: "P\<lparr>mp_pending := []\<rparr> = P" by (rule pending_same) (use Cons.prems in simp)
  have "byte_step L P c = Some (parser_append P [c])"
    using Cons.prems n by (auto simp: p byte_step_def body_step_def mp_inv_def flush_pending_def restart_or_append_def)
  moreover have "steps L P' cs = Some (parser_append P' cs)" if "parser_append P [c] = Inr P'" for P'
    using Cons.IH [of P'] Cons.prems parser_append_keeps [OF that, of B] by simp
  ultimately show ?case using parser_append_append [of P "[c]" cs] by (auto split: sum.splits)
qed

lemma feed_loop_skip:
  assumes "memchr M CR (u @ CR # v) = Some (length u)" "mp_state P = Body" "mp_pending P = []"
  shows "feed_loop L M P (u @ CR # v) = (case parser_append P u of Inl e \<Rightarrow> Some (Inl e)
          | Inr P \<Rightarrow> (case body_step P CR of Inl e \<Rightarrow> Some (Inl e) | Inr P \<Rightarrow> feed_loop L M P v))"
  using assms by (cases u) (simp_all split: sum.split)

lemma memchr_first:
  assumes "memchr_ok M" "CR \<notin> set u"
  shows "memchr M CR (u @ CR # v) = Some (length u)"
proof -
  have "takeWhile (\<lambda>x. x \<noteq> CR) (u @ CR # v) = u" using assms(2) by (subst takeWhile_append2) auto
  then show ?thesis using assms(1) by (simp add: memchr_ok_def)
qed

lemma feed_loop_steps:
  assumes "memchr_ok M" "mp_inv B P"
  shows "feed_loop L M P s = steps L P s"
  using assms
proof (induction L M P s rule: feed_loop.induct)
  case (2 L M P b bs)
  note IH = 2(1,2) and ok = 2(3) and inv = 2(4)
  show ?case
  proof (cases "mp_state P = Body \<and> mp_pending P = []")
    case False
    then have "feed_loop L M P (b # bs) = (case byte_step L P b of
        None \<Rightarrow> None | Some (Inl e) \<Rightarrow> Some (Inl e) | Some (Inr P) \<Rightarrow> feed_loop L M P bs)" by auto
    moreover have "feed_loop L M P' bs = steps L P' bs" if "byte_step L P b = Some (Inr P')" for P'
      using IH(2) [OF False that refl ok] byte_step_inv(2) [OF inv that] by simp
    ultimately show ?thesis by (auto split: option.splits sum.splits)
  next
    case True
    let ?s = "b # bs"
    show ?thesis
    proof (cases "CR \<in> set ?s")
      case False
      then have "memchr M CR ?s = None" using ok by (simp add: memchr_ok_def)
      then show ?thesis using True steps_plain [OF inv _ _ False, of L] by (simp del: steps.simps)
    next
      case cr: True
      then obtain u v where uv: "?s = u @ CR # v" "CR \<notin> set u" using split_list_first by metis
      have m: "memchr M CR ?s = Some (length u)" unfolding uv(1) by (rule memchr_first [OF ok uv(2)])
      have parts: "take (length u) ?s = u" "?s ! length u = CR" by (simp_all add: uv(1))
      have more: "drop (length u) bs = v" "\<not> length bs < length u" using uv(1) by (cases u; simp)+
      have fl: "feed_loop L M P ?s = (case parser_append P u of Inl e \<Rightarrow> Some (Inl e)
          | Inr P \<Rightarrow> (case body_step P CR of Inl e \<Rightarrow> Some (Inl e) | Inr P \<Rightarrow> feed_loop L M P v))"
        unfolding uv(1) by (rule feed_loop_skip) (use True m uv(1) in simp_all)
      have st: "steps L P ?s = (case steps L P u of Some (Inr P') \<Rightarrow> steps L P' (CR # v) | r \<Rightarrow> r)"
        unfolding uv(1) by (rule steps_append)
      have su: "steps L P u = Some (parser_append P u)" using steps_plain [OF inv] True uv(2) by simp
      have bs: "byte_step L P' CR = Some (body_step P' CR)" "mp_inv B P'" if "parser_append P u = Inr P'" for P'
        using parser_append_keeps [OF that] True inv by (simp_all add: byte_step_def)
      have "feed_loop L M P'' v = steps L P'' v"
        if "parser_append P u = Inr P'" "body_step P' CR = Inr P''" for P' P''
        using IH(1) [OF True m more(2) _ _ ok, of P' P''] byte_step_inv(2) [of B P' L CR P''] that bs [OF that(1)] by (simp add: parts more)
      then show ?thesis unfolding fl st su using bs by (auto split: sum.splits)
    qed
  qed
qed simp

section \<open>What each state accepts\<close>

definition accepted :: "('a) http_lib_scheme \<Rightarrow> Parser \<Rightarrow> string \<Rightarrow> Field list option" where
  "accepted L P s = (case steps L P s of
     Some (Inr P') \<Rightarrow> (case parser_finish P' of Inr fs \<Rightarrow> Some fs | Inl _ \<Rightarrow> None) | _ \<Rightarrow> None)"

lemma accepted_Nil: "accepted L P [] = (case parser_finish P of Inr fs \<Rightarrow> Some fs | Inl _ \<Rightarrow> None)"
  by (simp add: accepted_def)

lemma accepted_Cons: "accepted L P (b # s) = (case byte_step L P b of Some (Inr P') \<Rightarrow> accepted L P' s | _ \<Rightarrow> None)"
  by (auto simp: accepted_def split: option.splits sum.splits)

text \<open>The parser at the start of a part's headers, and in its body.\<close>

definition at_headers :: "Parser \<Rightarrow> Field list \<Rightarrow> string \<Rightarrow> Parser" where
  "at_headers P fs h = P\<lparr>mp_state := Headers, mp_pending := [], mp_headers := h, mp_part := None, mp_fields := fs\<rparr>"

definition at_body :: "Parser \<Rightarrow> Field list \<Rightarrow> Part \<Rightarrow> string \<Rightarrow> Parser" where
  "at_body P fs p pending =
     P\<lparr>mp_state := Body, mp_pending := pending, mp_headers := [], mp_part := Some p, mp_fields := fs\<rparr>"

definition at_closing :: "Parser \<Rightarrow> Field list \<Rightarrow> string \<Rightarrow> Parser" where
  "at_closing P fs pending = P\<lparr>mp_state := Closing, mp_pending := pending, mp_headers := [], mp_part := None, mp_fields := fs\<rparr>"

lemma at_selectors [simp]:
  "mp_state (at_headers P fs h) = Headers" "mp_headers (at_headers P fs h) = h" "mp_fields (at_headers P fs h) = fs"
  "mp_state (at_body P fs p x) = Body" "mp_pending (at_body P fs p x) = x" "mp_delimiter (at_body P fs p x) = mp_delimiter P"
  "mp_failed (at_body P fs p x) = mp_failed P" "mp_failed (at_closing P fs x) = mp_failed P" "mp_failed (at_headers P fs h) = mp_failed P"
  "mp_state (at_closing P fs x) = Closing" "mp_pending (at_closing P fs x) = x" "mp_fields (at_closing P fs x) = fs"
  by (simp_all add: at_headers_def at_body_def at_closing_def)

lemma at_updates [simp]:
  "(at_body P fs p x)\<lparr>mp_pending := y\<rparr> = at_body P fs p y" "(at_closing P fs x)\<lparr>mp_pending := y\<rparr> = at_closing P fs y"
  "(at_headers P fs h)\<lparr>mp_headers := h'\<rparr> = at_headers P fs h'"
  "(at_headers P fs h)\<lparr>mp_part := Some p, mp_headers := [], mp_state := Body\<rparr> = at_body P fs p []"
  by (cases P; simp add: at_headers_def at_body_def at_closing_def)+

lemma at_steps [simp]:
  "take_field (at_body P fs p x) [] Headers = map_sum id (\<lambda>f. at_headers P (fs @ [f]) []) (part_finish p)"
  "take_field (at_body P fs p x) y Closing = map_sum id (\<lambda>f. at_closing P (fs @ [f]) y) (part_finish p)"
  "parser_append (at_body P fs p x) a = map_sum id (\<lambda>p. at_body P fs p x) (part_append p a (max_field_bytes P))"
  by (cases P; simp add: take_field_def parser_append_def at_headers_def at_body_def at_closing_def)+

lemma accepted_closing:
  assumes "mp_failed P = None"
  shows "accepted L (at_closing P fs [CR, LF]) s = (if s = [] then Some fs else None)"
    "accepted L (at_closing P fs []) s = (if s = [] \<or> s = [CR, LF] then Some fs else None)"
proof -
  show 1: "accepted L (at_closing P fs [CR, LF]) s = (if s = [] then Some fs else None)" for s
    using assms by (cases s) (simp_all add: accepted_Nil accepted_Cons parser_finish_def byte_step_def closing_step_def)
  have 2: "accepted L (at_closing P fs [CR]) s = (if s = [LF] then Some fs else None)" for s
    using assms 1 by (cases s) (simp_all add: accepted_Nil accepted_Cons parser_finish_def byte_step_def closing_step_def)
  show "accepted L (at_closing P fs []) s = (if s = [] \<or> s = [CR, LF] then Some fs else None)"
    using assms 2 by (cases s) (simp_all add: accepted_Nil accepted_Cons parser_finish_def byte_step_def closing_step_def)
qed

text \<open>After a delimiter: the next part, or the end of the body.\<close>

lemma accepted_delimiter:
  assumes "mp_inv B P" "D = mp_delimiter P"
  shows "accepted L (at_body P fs p D) r = (case part_finish p of
     Inl _ \<Rightarrow> None
   | Inr f \<Rightarrow>
       if r = ''--'' \<or> r = ''--'' @ [CR, LF] then Some (fs @ [f])
       else (case r of a # b # r' \<Rightarrow> if a = CR \<and> b = LF then accepted L (at_headers P (fs @ [f]) []) r' else None | _ \<Rightarrow> None))"
proof -
  have failed: "mp_failed P = None" using assms(1) by (simp add: mp_inv_def)
  note step = accepted_Nil accepted_Cons parser_finish_def byte_step_def body_step_def assms(2) nth_append suffix_def Let_def
  have 1: "accepted L (at_body P fs p (D @ ''--'' @ [CR])) r = (case part_finish p of Inl _ \<Rightarrow> None | Inr f \<Rightarrow> if r = [LF] then Some (fs @ [f]) else None)" for r
    using failed accepted_closing(1) [OF failed, of L] by (cases r) (simp_all add: step split: sum.split)
  have 2: "accepted L (at_body P fs p (D @ ''--'')) r = (case part_finish p of Inl _ \<Rightarrow> None | Inr f \<Rightarrow> if r = [] \<or> r = [CR, LF] then Some (fs @ [f]) else None)" for r
    using failed 1 by (cases r) (simp_all add: step split: sum.split)
  have 3: "accepted L (at_body P fs p (D @ ''-'')) r = (case part_finish p of Inl _ \<Rightarrow> None | Inr f \<Rightarrow> if r = ''-'' \<or> r = ''-'' @ [CR, LF] then Some (fs @ [f]) else None)" for r
    using failed 2 by (cases r) (simp_all add: step split: sum.split)
  have 4: "accepted L (at_body P fs p (D @ [CR])) r = (case part_finish p of Inl _ \<Rightarrow> None | Inr f \<Rightarrow>
      (case r of b # r' \<Rightarrow> if b = LF then accepted L (at_headers P (fs @ [f]) []) r' else None | _ \<Rightarrow> None))" for r
    using failed by (cases r) (simp_all add: step split: sum.split)
  show ?thesis
    using failed 3 4 by (cases r) (simp_all add: step split: sum.split list.split)
qed

text \<open>A body: up to the first delimiter, all of which goes to the part.\<close>

lemma delimiter_inside:
  assumes "boundary_ok B" "D = [CR, LF] @ ''--'' @ B"
  shows "0 < i \<Longrightarrow> i < length D \<Longrightarrow> D ! i \<noteq> CR" "D \<noteq> []"
proof -
  have "CR \<notin> set B" using assms(1) by (auto simp: boundary_ok_def list_all_iff is_ascii_alphanumeric_def is_ascii_digit_def is_ascii_upper_def is_ascii_lower_def)
  then have "CR \<notin> set (tl D)" using assms(2) by simp
  then show "0 < i \<Longrightarrow> i < length D \<Longrightarrow> D ! i \<noteq> CR" by (metis Suc_pred length_tl nth_mem nth_tl less_diff_conv One_nat_def Suc_eq_plus1 Suc_less_eq)
  show "D \<noteq> []" using assms(2) by simp
qed

lemma delimiter_mismatch:
  assumes "boundary_ok B" "D = [CR, LF] @ ''--'' @ B" "k < length D" "b \<noteq> D ! k"
  shows "split_first D (take k D @ b # s) = map_option (\<lambda>(a, r). (take k D @ a, r)) (split_first D (b # s))"
proof (rule split_first_skip, intro allI impI notI)
  fix i
  assume i: "i < length (take k D)" and p: "prefix D (drop i (take k D) @ b # s)"
  then obtain z where z: "drop i (take k D) @ b # s = D @ z" by (auto simp: prefix_def)
  show False
  proof (cases "i = 0")
    case True
    have "(take k D @ b # s) ! k = b" using assms(3) by (simp add: nth_append)
    moreover have "(D @ z) ! k = D ! k" using assms(3) by (simp add: nth_append)
    ultimately show False using z True assms(4) by simp
  next
    case False
    have "(drop i (take k D) @ b # s) ! 0 = D ! i" using i by (simp add: nth_append)
    moreover have "(D @ z) ! 0 = CR" using assms(2) by simp
    ultimately show False using z delimiter_inside(1) [OF assms(1,2), of i] False i by simp
  qed
qed

lemma accepted_body:
  assumes "mp_inv B P" "D = mp_delimiter P" "k < length D"
  shows "accepted L (at_body P fs p (take k D)) s = (case split_first D (take k D @ s) of
     None \<Rightarrow> None
   | Some (c, r) \<Rightarrow> (case part_append p c (max_field_bytes P) of Inl _ \<Rightarrow> None | Inr p' \<Rightarrow> accepted L (at_body P fs p' D) r))"
  using assms(3)
proof (induction s arbitrary: k p)
  case Nil
  have "split_first D (take k D) = None"
  proof -
    have "\<not> prefix D (drop i (take k D))" for i using prefix_length_le [of D "drop i (take k D)"] Nil by auto
    then show ?thesis using split_first_None [of D] assms(3) by (metis list.size(3) not_less_zero)
  qed
  then show ?case using assms Nil by (simp add: accepted_Nil parser_finish_def mp_inv_def)
next
  case (Cons b s)
  have D: "boundary_ok B" "D = [CR, LF] @ ''--'' @ B" "mp_delimiter P = D" using assms by (auto simp: mp_inv_def)
  have lk: "length (take k D) = k" using Cons.prems by simp
  let ?n = "max_field_bytes P"
  show ?case
  proof (cases "b = D ! k")
    case True
    then have e: "take k D @ b # s = take (Suc k) D @ s" using Cons.prems by (simp add: take_Suc_conv_app_nth)
    have st: "accepted L (at_body P fs p (take k D)) (b # s) = accepted L (at_body P fs p (take (Suc k) D)) s"
      using True Cons.prems lk by (simp add: accepted_Cons byte_step_def body_step_def D(3) take_Suc_conv_app_nth)
    show ?thesis
    proof (cases "Suc k < length D")
      case True
      show ?thesis unfolding st e using Cons.IH [OF True] .
    next
      case False
      then have t: "take (Suc k) D = D" by simp
      have "split_first D (D @ s) = Some ([], s)" using split_first_Some [OF delimiter_inside(2) [OF D(1,2)]] by simp
      then show ?thesis unfolding st e t by simp
    qed
  next
    case False
    note mm = delimiter_mismatch [OF D(1,2) Cons.prems False, of s]
    have st: "accepted L (at_body P fs p (take k D)) (b # s) = (case part_append p (take k D) ?n of Inl _ \<Rightarrow> None
        | Inr p' \<Rightarrow> (case restart_or_append (at_body P fs p' []) b of Inl _ \<Rightarrow> None | Inr P' \<Rightarrow> accepted L P' s))"
      using False Cons.prems lk by (auto simp: accepted_Cons byte_step_def body_step_def D(3) flush_pending_def split: sum.split)
    show ?thesis
    proof (cases "b = CR")
      case True
      have "1 < length D" "take 1 D = [CR]" using D(2) by simp_all
      then show ?thesis unfolding st mm using Cons.IH [of 1] True
        by (auto simp: restart_or_append_def part_append_append split: sum.split option.split)
    next
      case nb: False
      have "split_first D (b # s) = map_option (\<lambda>(a, r). (b # a, r)) (split_first D s)" using nb D(2) by simp
      moreover have pa: "part_append q (take k D @ b # c) ?n = (case part_append q (take k D) ?n of Inl e \<Rightarrow> Inl e
          | Inr q \<Rightarrow> (case part_append q [b] ?n of Inl e \<Rightarrow> Inl e | Inr q \<Rightarrow> part_append q c ?n))" for q c
        using part_append_append [of q "take k D" "b # c"] part_append_append [of _ "[b]" c] by (simp split: sum.split)
      moreover have "accepted L (at_body P fs p' []) s = (case split_first D s of None \<Rightarrow> None
          | Some (c, r) \<Rightarrow> (case part_append p' c ?n of Inl _ \<Rightarrow> None | Inr p'' \<Rightarrow> accepted L (at_body P fs p'' D) r))" for p'
        using Cons.IH [of 0 p'] Cons.prems by force
      ultimately show ?thesis unfolding st mm using nb
        by (cases "split_first D s") (auto simp: restart_or_append_def pa split: sum.split)
    qed
  qed
qed

text \<open>The headers of a part: up to the first empty line.\<close>

lemma accepted_headers_from:
  assumes "split_first [CR, LF, CR, LF] h = None" "length h < MAX_HEADERS + 4" "mp_failed P = None"
  shows "accepted L (at_headers P fs h) s = (case split_first [CR, LF, CR, LF] (h @ s) of
     None \<Rightarrow> None
   | Some (a, r) \<Rightarrow>
       if length a \<le> MAX_HEADERS \<and> length fs < MAX_PARTS
       then (case parse_part_headers L a of Inl _ \<Rightarrow> None | Inr p \<Rightarrow> accepted L (at_body P fs p []) r)
       else None)"
  using assms(1,2)
proof (induction s arbitrary: h)
  case Nil
  then show ?case using assms(3) by (simp add: accepted_Nil parser_finish_def)
next
  case (Cons b s)
  let ?e = "[CR, LF, CR, LF]"
  show ?case
  proof (cases "suffix ?e (h @ [b])")
    case True
    have len: "4 \<le> Suc (length h)" using suffix_length_le [OF True] by simp
    have "split_first ?e (h @ b # s) = Some (take (Suc (length h) - 4) (h @ [b]), s)"
      using split_first_ends [OF Cons.prems(1) True, of s] by (simp add: numeral_3_eq_3)
    then show ?thesis using True len Cons.prems(2)
      by (auto simp: accepted_Cons byte_step_def headers_step_def Let_def MAX_PARTS_def MAX_HEADERS_def split: sum.split)
  next
    case False
    have n: "split_first ?e (h @ [b]) = None" using split_first_snoc [OF Cons.prems(1) False] by simp
    have e: "(h @ [b]) @ s = h @ b # s" by simp
    show ?thesis
    proof (cases "length (h @ [b]) < MAX_HEADERS + 4")
      case True
      then show ?thesis using False Cons.IH [OF n True] by (auto simp: accepted_Cons byte_step_def headers_step_def Let_def)
    next
      case big: False
      then have "accepted L (at_headers P fs h) (b # s) = None" using False by (auto simp: accepted_Cons byte_step_def headers_step_def Let_def)
      moreover have "MAX_HEADERS < length a" if "split_first ?e (h @ b # s) = Some (a, r)" for a r
        using split_first_beyond [OF n, of s a r] that big by simp
      ultimately show ?thesis by (auto split: option.split)
    qed
  qed
qed

lemmas accepted_headers = accepted_headers_from [of "[]", simplified MAX_HEADERS_def, simplified, folded MAX_HEADERS_def]

text \<open>The opening boundary.\<close>

definition at_opening :: "Parser \<Rightarrow> string \<Rightarrow> Parser" where
  "at_opening P pending = P\<lparr>mp_state := Opening, mp_pending := pending, mp_headers := [], mp_part := None, mp_fields := []\<rparr>"

lemma at_opening_simps [simp]:
  "mp_state (at_opening P x) = Opening" "mp_pending (at_opening P x) = x" "mp_marker (at_opening P x) = mp_marker P"
  "mp_failed (at_opening P x) = mp_failed P" "(at_opening P x)\<lparr>mp_pending := y\<rparr> = at_opening P y"
  "(at_opening P x)\<lparr>mp_state := Headers, mp_pending := []\<rparr> = at_headers P [] []"
  "(at_opening P x)\<lparr>mp_state := Closing, mp_pending := []\<rparr> = at_closing P [] []"
  by (cases P; simp add: at_opening_def at_headers_def at_closing_def)+

lemma accepted_marker:
  assumes "mp_failed P = None" "k \<le> length (mp_marker P)"
  shows "accepted L (at_opening P (take k (mp_marker P))) s = (case strip_prefix (drop k (mp_marker P)) s of
     None \<Rightarrow> None | Some r \<Rightarrow> accepted L (at_opening P (mp_marker P)) r)"
  using assms(2)
proof (induction s arbitrary: k)
  case Nil
  then show ?case using assms(1) by (cases "k = length (mp_marker P)") (auto simp: strip_prefix_def accepted_Nil parser_finish_def)
next
  case (Cons b s)
  let ?m = "mp_marker P"
  show ?case
  proof (cases "k = length ?m")
    case True
    then show ?thesis by (simp add: strip_prefix_def)
  next
    case False
    then have k: "k < length ?m" "length (take k ?m) = k" "drop k ?m = ?m ! k # drop (Suc k) ?m"
      using Cons.prems by (simp_all add: Cons_nth_drop_Suc)
    have "accepted L (at_opening P (take k ?m)) (b # s) = (if b = ?m ! k then accepted L (at_opening P (take (Suc k) ?m)) s else None)"
      using k by (auto simp: accepted_Cons byte_step_def opening_step_def Let_def take_Suc_conv_app_nth)
    then show ?thesis using Cons.IH [of "Suc k"] k by (auto simp: strip_prefix_def)
  qed
qed

lemma accepted_opening:
  assumes "mp_failed P = None"
  shows "accepted L (at_opening P []) s = (case strip_prefix (mp_marker P) s of
     None \<Rightarrow> None
   | Some r \<Rightarrow> if r = ''--'' \<or> r = ''--'' @ [CR, LF] then Some []
       else (case r of a # b # r' \<Rightarrow> if a = CR \<and> b = LF then accepted L (at_headers P [] []) r' else None | _ \<Rightarrow> None))"
proof -
  let ?m = "mp_marker P"
  have 1: "accepted L (at_opening P (?m @ [a])) r = (case r of [] \<Rightarrow> None | b # r \<Rightarrow>
      if a = CR \<and> b = LF then accepted L (at_headers P [] []) r
      else if a = CHR ''-'' \<and> b = CHR ''-'' \<and> (r = [] \<or> r = [CR, LF]) then Some [] else None)" for a r
    using assms accepted_closing(2) [OF assms, of L "[]"]
    by (cases r) (auto simp: accepted_Nil accepted_Cons parser_finish_def byte_step_def opening_step_def Let_def)
  have "accepted L (at_opening P ?m) r = (if r = ''--'' \<or> r = ''--'' @ [CR, LF] then Some []
       else (case r of a # b # r' \<Rightarrow> if a = CR \<and> b = LF then accepted L (at_headers P [] []) r' else None | _ \<Rightarrow> None))" for r
    using assms 1 by (cases r) (auto simp: accepted_Nil accepted_Cons parser_finish_def byte_step_def opening_step_def Let_def split: list.split)
  then show ?thesis using accepted_marker [OF assms, of 0 L s] by (simp split: option.split)
qed

section \<open>The wire format\<close>

text \<open>
  A body: parts of a header block and a content, between boundaries. A part gives a field when its
  headers name one and its content has no delimiter; the content of a file is not kept.
\<close>

definition wire_rest :: "string \<Rightarrow> (string \<times> string) list \<Rightarrow> string \<Rightarrow> string" where
  "wire_rest B parts trailer =
     concat (map (\<lambda>(h, c). [CR, LF] @ h @ [CR, LF, CR, LF] @ c @ [CR, LF] @ ''--'' @ B) parts) @ ''--'' @ trailer"

definition wire :: "string \<Rightarrow> (string \<times> string) list \<Rightarrow> string \<Rightarrow> string" where
  "wire B parts trailer = ''--'' @ B @ wire_rest B parts trailer"

definition part_field :: "('a) http_lib_scheme \<Rightarrow> nat \<Rightarrow> string \<times> string \<Rightarrow> Field \<Rightarrow> bool" where
  "part_field L limit = (\<lambda>(h, c) f. length h \<le> MAX_HEADERS \<and> (\<exists>p. parse_part_headers L h = Inr p
     \<and> fd_name f = pt_name p \<and> fd_file f = pt_file p
     \<and> (if pt_file p then fd_value f = [] else fd_value f = c \<and> length c \<le> limit \<and> utf8_decode c \<noteq> None)))"

definition continue_at :: "('a) http_lib_scheme \<Rightarrow> Parser \<Rightarrow> Field list \<Rightarrow> string \<Rightarrow> Field list option" where
  "continue_at L P fs r =
     (if r = ''--'' \<or> r = ''--'' @ [CR, LF] then Some fs
      else (case r of a # b # r' \<Rightarrow> if a = CR \<and> b = LF then accepted L (at_headers P fs []) r' else None | _ \<Rightarrow> None))"

lemma header_lines_nonempty: "header_lines L seen d ls = Inr r \<Longrightarrow> [] \<notin> set ls"
  by (induction ls arbitrary: seen d) (auto simp: split_once_def split: option.splits if_splits)

lemma split_crlf_empty: "split_crlf s \<noteq> []" "s = [] \<or> prefix [CR, LF] s \<Longrightarrow> hd (split_crlf s) = []"
  by (induction s rule: split_crlf.induct) (auto split: list.splits)

lemma split_crlf_gap: "sublist [CR, LF, CR, LF] (h @ [CR, LF, CR]) \<Longrightarrow> [] \<in> set (tl (split_crlf h))"
proof (induction h rule: split_crlf.induct)
  case (3 a b s)
  show ?case
  proof (cases "a = CR \<and> b = LF")
    case False
    then have "sublist [CR, LF, CR, LF] (b # s @ [CR, LF, CR])" using 3(3) by (auto simp: sublist_Cons_right)
    then show ?thesis using 3(2) False by (auto split: list.split)
  next
    case True
    then have "prefix [CR, LF] (s @ [CR, LF, CR]) \<or> sublist [CR, LF, CR, LF] (s @ [CR, LF, CR])"
      using 3(3) by (auto simp: sublist_Cons_right)
    moreover have "s = [] \<or> prefix [CR, LF] s" if "prefix [CR, LF] (s @ [CR, LF, CR])"
      using that by (cases s rule: split_crlf.cases) auto
    ultimately have "[] \<in> set (split_crlf s)" using True 3(1) split_crlf_empty [of s] by (metis hd_in_set list.set_sel(2))
    then show ?thesis using True by simp
  qed
qed (auto simp: sublist_Cons_right)

lemma parse_part_headers_split:
  assumes "parse_part_headers L h = Inr p"
  shows "split_first [CR, LF, CR, LF] (h @ [CR, LF, CR, LF] @ r) = Some (h, r)" "pt_value p = []"
proof -
  let ?e = "[CR, LF, CR, LF]"
  have "[] \<notin> set (split_crlf h)" and v: "pt_value p = []"
    using assms by (auto dest: header_lines_nonempty simp: parse_part_headers_def map_sum_def split: if_splits sum.splits option.splits)
  then have gap: "\<not> sublist ?e (h @ [CR, LF, CR])" using split_crlf_gap split_crlf_empty(1) by (metis list.set_sel(2))
  have "\<not> prefix ?e (drop i (h @ ?e @ r))" if "i < length h" for i
  proof
    assume p: "prefix ?e (drop i (h @ ?e @ r))"
    have "prefix (drop i (h @ [CR, LF, CR])) (drop i (h @ ?e @ r))" using that by simp
    from prefix_length_prefix [OF p this] have "prefix ?e (drop i (h @ [CR, LF, CR]))" using that by simp
    then show False using gap prefix_drop_sublist by blast
  qed
  then show "split_first ?e (h @ ?e @ r) = Some (h, r)" using split_first_Some [of ?e] by simp
  show "pt_value p = []" by (rule v)
qed

lemma content_split:
  assumes "boundary_ok B" "D = [CR, LF] @ ''--'' @ B"
  shows "split_first D s = Some (c, r) \<longleftrightarrow> s = c @ D @ r \<and> \<not> sublist D c"
proof -
  have "prefix D (drop i (c @ D @ r)) \<longleftrightarrow> prefix D (drop i c)" if i: "i < length c" for i
  proof
    assume p: "prefix D (drop i (c @ D @ r))"
    show "prefix D (drop i c)"
    proof (cases "i + length D \<le> length c")
      case True
      have "prefix (drop i c) (drop i (c @ D @ r))" using i by simp
      from prefix_length_prefix [OF p this] show ?thesis using True i by simp
    next
      case False
      then have j: "length c - i < length D" "0 < length c - i" using i by simp_all
      obtain z where z: "drop i (c @ D @ r) = D @ z" using p by (auto simp: prefix_def)
      have "drop i (c @ D @ r) ! (length c - i) = CR" using i assms(2) by (simp add: nth_append)
      then have "(D @ z) ! (length c - i) = CR" by (simp only: z)
      then have "D ! (length c - i) = CR" using j by (simp add: nth_append)
      then show ?thesis using delimiter_inside(1) [OF assms j(2,1)] by simp
    qed
  qed (use i in \<open>simp add: prefix_prefix\<close>)
  moreover have "(\<forall>i<length c. \<not> prefix D (drop i c)) \<longleftrightarrow> \<not> sublist D c"
    using prefix_drop_sublist [of D c] delimiter_inside(2) [OF assms] by (metis drop_all not_le prefix_Nil)
  ultimately show ?thesis using split_first_Some [OF delimiter_inside(2) [OF assms], of s c r] by auto
qed

lemma part_result:
  assumes "pt_value p = []"
  shows "(\<exists>p'. part_append p c limit = Inr p' \<and> part_finish p' = Inr f) \<longleftrightarrow>
     fd_name f = pt_name p \<and> fd_file f = pt_file p
     \<and> (if pt_file p then fd_value f = [] else fd_value f = c \<and> length c \<le> limit \<and> utf8_decode c \<noteq> None)"
  using assms by (cases f) (auto simp: part_append_def part_finish_def utf8_decode_def)

lemma body_part:
  assumes "mp_inv B P" "D = [CR, LF] @ ''--'' @ B"
  shows "accepted L (at_body P fs p []) s = Some gs \<longleftrightarrow>
     (\<exists>c r p' f. s = c @ D @ r \<and> \<not> sublist D c \<and> part_append p c (max_field_bytes P) = Inr p' \<and> part_finish p' = Inr f
        \<and> continue_at L P (fs @ [f]) r = Some gs)"
proof -
  have D: "boundary_ok B" "D = mp_delimiter P" "0 < length D" using assms by (auto simp: mp_inv_def)
  have "accepted L (at_body P fs p []) s = (case split_first D s of
     None \<Rightarrow> None
   | Some (c, r) \<Rightarrow> (case part_append p c (max_field_bytes P) of Inl _ \<Rightarrow> None
       | Inr p' \<Rightarrow> (case part_finish p' of Inl _ \<Rightarrow> None | Inr f \<Rightarrow> continue_at L P (fs @ [f]) r)))"
    using accepted_body [OF assms(1) D(2,3), of L fs p s] unfolding accepted_delimiter [OF assms(1) D(2)] continue_at_def [symmetric] by simp
  then have "accepted L (at_body P fs p []) s = Some gs \<longleftrightarrow> (\<exists>c r p' f. split_first D s = Some (c, r)
      \<and> part_append p c (max_field_bytes P) = Inr p' \<and> part_finish p' = Inr f \<and> continue_at L P (fs @ [f]) r = Some gs)"
    by (auto split: option.splits sum.splits)
  then show ?thesis unfolding content_split [OF D(1) assms(2)] by simp
qed

lemma headers_part:
  assumes "mp_inv B P" "D = [CR, LF] @ ''--'' @ B"
  shows "accepted L (at_headers P fs []) s = Some gs \<longleftrightarrow>
     (\<exists>h c r f. s = h @ [CR, LF, CR, LF] @ c @ D @ r \<and> part_field L (max_field_bytes P) (h, c) f \<and> \<not> sublist D c
        \<and> length fs < MAX_PARTS \<and> continue_at L P (fs @ [f]) r = Some gs)" (is "_ \<longleftrightarrow> ?rhs")
proof -
  have failed: "mp_failed P = None" using assms by (simp add: mp_inv_def)
  let ?e = "[CR, LF, CR, LF]" and ?n = "max_field_bytes P"
  have "accepted L (at_headers P fs []) s = Some gs \<longleftrightarrow> (\<exists>h r p. split_first ?e s = Some (h, r) \<and> length h \<le> MAX_HEADERS
      \<and> length fs < MAX_PARTS \<and> parse_part_headers L h = Inr p \<and> accepted L (at_body P fs p []) r = Some gs)" (is "_ \<longleftrightarrow> ?mid")
    using accepted_headers [OF failed, of L fs s] by (auto split: option.splits sum.splits)
  moreover have ?rhs if mid: ?mid
  proof -
    obtain h r p where h: "split_first ?e s = Some (h, r)" "length h \<le> MAX_HEADERS" "length fs < MAX_PARTS"
      "parse_part_headers L h = Inr p" "accepted L (at_body P fs p []) r = Some gs" using mid by blast
    obtain c r' p' f where c: "r = c @ D @ r'" "\<not> sublist D c" "part_append p c ?n = Inr p'" "part_finish p' = Inr f"
      "continue_at L P (fs @ [f]) r' = Some gs" using body_part [OF assms] h(5) by blast
    have "s = h @ ?e @ c @ D @ r'" using split_first_Some [of ?e s h r] h(1) c(1) by simp
    moreover have "part_field L ?n (h, c) f"
      using h(2,4) c(3,4) part_result [OF parse_part_headers_split(2) [OF h(4)], of c ?n f] by (auto simp: part_field_def)
    ultimately show ?rhs using c h(3) by blast
  qed
  moreover have ?mid if rhs: ?rhs
  proof -
    obtain h c r' f where h: "s = h @ ?e @ c @ D @ r'" "part_field L ?n (h, c) f" "\<not> sublist D c" "length fs < MAX_PARTS"
      "continue_at L P (fs @ [f]) r' = Some gs" using rhs by blast
    obtain p where p: "parse_part_headers L h = Inr p" "length h \<le> MAX_HEADERS" using h(2) by (auto simp: part_field_def)
    have "\<exists>p'. part_append p c ?n = Inr p' \<and> part_finish p' = Inr f"
      using part_result [OF parse_part_headers_split(2) [OF p(1)], of c ?n f] h(2) p(1) by (auto simp: part_field_def)
    then have "accepted L (at_body P fs p []) (c @ D @ r') = Some gs" using body_part [OF assms] h(3,5) by blast
    then show ?mid using parse_part_headers_split(1) [OF p(1), of "c @ D @ r'"] h(1,4) p by blast
  qed
  ultimately show ?thesis by blast
qed

lemma continue_part:
  assumes "mp_inv B P" "D = [CR, LF] @ ''--'' @ B"
  shows "continue_at L P fs r = Some gs \<longleftrightarrow>
     (r = ''--'' \<or> r = ''--'' @ [CR, LF]) \<and> gs = fs
     \<or> (\<exists>h c r' f. r = [CR, LF] @ h @ [CR, LF, CR, LF] @ c @ D @ r' \<and> part_field L (max_field_bytes P) (h, c) f \<and> \<not> sublist D c
          \<and> length fs < MAX_PARTS \<and> continue_at L P (fs @ [f]) r' = Some gs)"
proof (cases "\<exists>s. r = CR # LF # s")
  case True
  then obtain s where s: "r = CR # LF # s" by blast
  then have "continue_at L P fs r = accepted L (at_headers P fs []) s" by (simp add: continue_at_def)
  then show ?thesis using headers_part [OF assms, of L fs s gs] s by simp
next
  case False
  then show ?thesis by (auto simp: continue_at_def split: list.splits)
qed

lemma wire_rest_simps:
  "wire_rest B [] trailer = ''--'' @ trailer"
  "wire_rest B ((h, c) # parts) trailer = [CR, LF] @ h @ [CR, LF, CR, LF] @ c @ ([CR, LF] @ ''--'' @ B) @ wire_rest B parts trailer"
  by (simp_all add: wire_rest_def)

lemma continue_wire:
  assumes "mp_inv B P" "D = [CR, LF] @ ''--'' @ B" "length fs \<le> MAX_PARTS"
  shows "continue_at L P fs r = Some gs \<longleftrightarrow>
     (\<exists>parts trailer gs'. r = wire_rest B parts trailer \<and> trailer \<in> {[], [CR, LF]} \<and> gs = fs @ gs'
        \<and> list_all2 (part_field L (max_field_bytes P)) parts gs' \<and> (\<forall>c\<in>set (map snd parts). \<not> sublist D c)
        \<and> length fs + length parts \<le> MAX_PARTS)" (is "_ \<longleftrightarrow> (\<exists>parts trailer gs'. ?w r fs parts trailer gs')")
proof
  assume "continue_at L P fs r = Some gs"
  then show "\<exists>parts trailer gs'. ?w r fs parts trailer gs'"
    using assms(3)
  proof (induction "length r" arbitrary: r fs rule: less_induct)
    case less
    consider "r = ''--'' \<or> r = ''--'' @ [CR, LF]" "gs = fs"
      | h c r' f where "r = [CR, LF] @ h @ [CR, LF, CR, LF] @ c @ D @ r'" "part_field L (max_field_bytes P) (h, c) f" "\<not> sublist D c"
          "length fs < MAX_PARTS" "continue_at L P (fs @ [f]) r' = Some gs"
      using continue_part [OF assms(1,2), of L fs r gs] less.prems(1) by blast
    then show ?case
    proof cases
      case 1
      then have "?w r fs [] [] [] \<or> ?w r fs [] [CR, LF] []" using less.prems(2) by (auto simp: wire_rest_simps)
      then show ?thesis by blast
    next
      case (2 h c r' f)
      obtain parts trailer gs' where "?w r' (fs @ [f]) parts trailer gs'"
        using less.hyps [of r' "fs @ [f]"] 2 by auto
      then have "?w r fs ((h, c) # parts) trailer (f # gs')" using 2 assms(2) by (simp add: wire_rest_simps)
      then show ?thesis by blast
    qed
  qed
next
  assume "\<exists>parts trailer gs'. ?w r fs parts trailer gs'"
  then obtain parts trailer gs' where "?w r fs parts trailer gs'" by blast
  then show "continue_at L P fs r = Some gs"
  proof (induction parts arbitrary: r fs gs')
    case Nil
    then show ?case by (auto simp: continue_at_def wire_rest_simps)
  next
    case (Cons part parts)
    obtain h c where hc: "part = (h, c)" by force
    obtain f gs'' where g: "gs' = f # gs''" "part_field L (max_field_bytes P) (h, c) f"
      using Cons.prems hc by (auto simp: list_all2_Cons1)
    have "continue_at L P (fs @ [f]) (wire_rest B parts trailer) = Some gs"
      by (rule Cons.IH [of _ _ gs'']) (use Cons.prems g hc in auto)
    then show ?case using continue_part [OF assms(1,2), of L fs r gs] Cons.prems g hc assms(2) by (auto simp: wire_rest_simps)
  qed
qed

lemma accepted_wire:
  assumes "mp_inv B P" "D = [CR, LF] @ ''--'' @ B"
  shows "accepted L (at_opening P []) s = Some gs \<longleftrightarrow>
     (\<exists>parts trailer. s = wire B parts trailer \<and> trailer \<in> {[], [CR, LF]}
        \<and> list_all2 (part_field L (max_field_bytes P)) parts gs \<and> (\<forall>c\<in>set (map snd parts). \<not> sublist D c)
        \<and> length parts \<le> MAX_PARTS)"
proof -
  have P: "mp_failed P = None" "mp_marker P = ''--'' @ B" using assms by (simp_all add: mp_inv_def)
  have "accepted L (at_opening P []) s = Some gs \<longleftrightarrow> (\<exists>r. s = ''--'' @ B @ r \<and> continue_at L P [] r = Some gs)"
    unfolding accepted_opening [OF P(1)] continue_at_def [symmetric] P(2)
    by (auto simp: strip_prefix_def prefix_def split: option.splits)
  then show ?thesis using continue_wire [OF assms, of "[]" L _ gs] by (auto simp: wire_def)
qed

end
