(* ===== verification/MultipartChunks.thy ===== *)
theory MultipartChunks
  imports MultipartWire
begin

text \<open>
  Chunks and the look-behind of the multipart parser: in whatever pieces a body arrives, it is
  accepted as the whole of it would be.
\<close>

section \<open>Chunks\<close>

text \<open>Every line feed that starts a boundary line follows a carriage return.\<close>

definition byte_before :: "string \<Rightarrow> char option \<Rightarrow> nat \<Rightarrow> char option" where
  "byte_before s before i = (if i = 0 then before else Some (s ! (i - 1)))"

definition crlf_only :: "string \<Rightarrow> string \<Rightarrow> bool" where
  "crlf_only B s \<longleftrightarrow> (\<forall>i. prefix (LF # ''--'' @ B) (drop i s) \<longrightarrow> byte_before s None i = Some CR)"

text \<open>The look-behind of the parser after the text \<open>u\<close>.\<close>

definition behind :: "string \<Rightarrow> string \<Rightarrow> Parser \<Rightarrow> bool" where
  "behind B u P \<longleftrightarrow> (let keep = length B + 3 in
     line_tail P = drop (length u - keep) u
     \<and> before_line_tail P = (if length u > keep then Some (u ! (length u - keep - 1)) else None))"

lemma boundary_line_inside:
  assumes "boundary_ok B" "0 < i" "i < length (LF # ''--'' @ B)"
  shows "(LF # ''--'' @ B) ! i \<noteq> LF"
proof -
  have B: "LF \<notin> set (''--'' @ B)" using assms(1)
    by (auto simp: boundary_ok_def list_all_iff is_ascii_alphanumeric_def is_ascii_digit_def is_ascii_upper_def is_ascii_lower_def)
  obtain n where n: "i = Suc n" "n < length (''--'' @ B)" using assms(2,3) by (cases i) auto
  then show ?thesis using nth_mem [OF n(2)] B by (metis nth_Cons_Suc)
qed

lemma occurrence_nth:
  assumes "prefix m (drop i s)" "k < length m"
  shows "i + k < length s" "s ! (i + k) = m ! k"
proof -
  obtain z where z: "drop i s = m @ z" using assms(1) by (auto simp: prefix_def)
  have "length m \<le> length s - i" using z by (metis length_append length_drop le_add1)
  then show l: "i + k < length s" using assms(2) by simp
  have "drop i s ! k = m ! k" using z assms(2) by (simp add: nth_append)
  then show "s ! (i + k) = m ! k" using l by simp
qed

lemma memchr_okD:
  assumes "memchr_ok M" "pat \<noteq> []"
  shows "i \<in> set (memmem_find_iter M s pat) \<Longrightarrow> prefix pat (drop i s)"
    "prefix pat (drop i s) \<Longrightarrow> \<exists>j\<in>set (memmem_find_iter M s pat). j \<le> i \<and> i < j + length pat"
proof -
  note ok = conjunct2 [OF assms(1) [unfolded memchr_ok_def], THEN spec [of _ s], THEN spec [of _ pat], THEN mp, OF assms(2)]
  show "i \<in> set (memmem_find_iter M s pat) \<Longrightarrow> prefix pat (drop i s)" using conjunct1 [OF ok] by blast
  show "prefix pat (drop i s) \<Longrightarrow> \<exists>j\<in>set (memmem_find_iter M s pat). j \<le> i \<and> i < j + length pat"
    using conjunct2 [OF ok] by blast
qed

lemma ambiguous_exact:
  assumes "memchr_ok M" "boundary_ok B" "m = LF # ''--'' @ B"
  shows "ambiguous M m s before \<longleftrightarrow> (\<exists>i. prefix m (drop i s) \<and> byte_before s before i \<noteq> Some CR)"
proof -
  have m: "m \<noteq> []" "m ! 0 = LF" using assms(3) by simp_all
  note ok = memchr_okD [OF assms(1) m(1), where s = s]
  have "i \<in> set (memmem_find_iter M s m)" if p: "prefix m (drop i s)" for i
  proof -
    obtain j where j: "j \<in> set (memmem_find_iter M s m)" "j \<le> i" "i < j + length m" using ok(2) [OF p] by blast
    have "s ! i = LF" using occurrence_nth(2) [OF p, of 0] m by simp
    moreover have "s ! i = m ! (i - j)" using occurrence_nth(2) [OF ok(1) [OF j(1)], of "i - j"] j(2,3) by simp
    ultimately have "\<not> 0 < i - j" using boundary_line_inside [OF assms(2), of "i - j", folded assms(3)] j(2,3) by force
    then show ?thesis using j(1,2) by simp
  qed
  then have "set (memmem_find_iter M s m) = {i. prefix m (drop i s)}" using ok(1) by blast
  then show ?thesis unfolding ambiguous_def byte_before_def list_ex_iff by simp
qed

text \<open>An occurrence in a factor of the text is one in the text, with the same byte before it.\<close>

lemma occurrence_factor:
  assumes "m \<noteq> []"
  shows "prefix m (drop j t) \<Longrightarrow> prefix m (drop (length a + j) (a @ t @ b))"
    "prefix m (drop (length a + j) (a @ t @ b)) \<Longrightarrow> j + length m \<le> length t \<Longrightarrow> prefix m (drop j t)"
    "prefix m (drop i w) \<Longrightarrow> i + length m \<le> length w"
proof -
  show "prefix m (drop (length a + j) (a @ t @ b))" if "prefix m (drop j t)" using that by (simp add: prefix_prefix)
  show "prefix m (drop j t)" if p: "prefix m (drop (length a + j) (a @ t @ b))" and j: "j + length m \<le> length t"
  proof -
    have "prefix (drop j t) (drop (length a + j) (a @ t @ b))" by simp
    from prefix_length_prefix [OF p this] show ?thesis using j by simp
  qed
  show "i + length m \<le> length w" if "prefix m (drop i w)"
    using prefix_length_le [OF that] assms by (cases "i \<le> length w") auto
qed

lemma byte_before_factor:
  "j \<le> length t \<Longrightarrow> byte_before (a @ t @ b) None (length a + j) = byte_before t (last_byte a) j"
  by (cases j) (auto simp: byte_before_def last_byte_def nth_append last_conv_nth)

lemma bare_lf_exact:
  assumes "memchr_ok M" "boundary_ok B" "m = LF # ''--'' @ B" "crlf_only B u" "o' = length u - length m"
  shows "ambiguous M m (drop o' u @ take (length m) c) (last_byte (take o' u)) \<or> ambiguous M m c (last_byte u) \<longleftrightarrow> \<not> crlf_only B (u @ c)"
    (is "?bridge \<or> ?chunk \<longleftrightarrow> _")
proof -
  let ?t = "drop o' u @ take (length m) c" and ?w = "u @ c"
  have m: "m \<noteq> []" using assms(3) by simp
  have co: "crlf_only B s \<longleftrightarrow> (\<forall>i. prefix m (drop i s) \<longrightarrow> byte_before s None i = Some CR)" for s
    by (simp only: crlf_only_def assms(3))
  note amb = ambiguous_exact [OF assms(1-3)] and occ = occurrence_factor [OF m]
  have w1: "?w = take o' u @ ?t @ drop (length m) c" and w2: "?w = u @ c @ []" and w3: "?w = [] @ u @ c" and l: "length (take o' u) = o'"
    using assms(5) by (simp_all flip: append.assoc)
  have lift: "\<not> crlf_only B ?w" if w: "?w = a @ t @ b" and am: "ambiguous M m t (last_byte a)" for a t b
  proof -
    obtain j where j: "prefix m (drop j t)" "byte_before t (last_byte a) j \<noteq> Some CR" using am amb by blast
    have "j \<le> length t" using occ(3) [OF j(1)] by simp
    then show ?thesis using occ(1) [OF j(1), of a b] byte_before_factor [of j t a b] j(2) unfolding w co by metis
  qed
  have "?bridge \<or> ?chunk" if n: "\<not> crlf_only B ?w"
  proof -
    obtain i where i: "prefix m (drop i ?w)" "byte_before ?w None i \<noteq> Some CR" using n unfolding co by blast
    have down: "ambiguous M m t (last_byte a)" if w: "?w = a @ t @ b" and r: "length a \<le> i" "i - length a + length m \<le> length t" for a t b
    proof -
      have i': "i = length a + (i - length a)" using r(1) by simp
      have "prefix m (drop (i - length a) t)" using occ(2) [of a "i - length a" t b] i(1) r w i' by simp
      moreover have "byte_before t (last_byte a) (i - length a) \<noteq> Some CR"
        using byte_before_factor [of "i - length a" t a b] i(2) r w i' by simp
      ultimately show ?thesis using amb by blast
    qed
    have len: "i + length m \<le> length u + length c" using occ(3) [OF i(1)] by simp
    consider "i + length m \<le> length u" | "length u \<le> i" | "length u < i + length m" "i < length u" by linarith
    then show ?thesis
    proof cases
      case 1
      then have "ambiguous M m u (last_byte [])" using down [OF w3] by simp
      then have False using assms(4) unfolding amb co last_byte_def by auto
      then show ?thesis ..
    next
      case 2
      then show ?thesis using down [OF w2] len by simp
    next
      case 3
      have "length (take o' u) \<le> i" unfolding l using 3 assms(5) by linarith
      moreover have "i + length m - length u \<le> length c" "i + length m - length u \<le> length m" using len 3 by linarith+
      then have "i + length m - length u \<le> min (length c) (length m)" by simp
      moreover have "length ?t = length u - o' + min (length c) (length m)" by simp
      ultimately have "length (take o' u) \<le> i" "i - length (take o' u) + length m \<le> length ?t"
        unfolding l using 3 assms(5) by linarith+
      then show ?thesis using down [OF w1] by blast
    qed
  qed
  then show ?thesis using lift [OF w1] lift [OF w2] by blast
qed

text \<open>The look-behind moves with the text and does not matter to the automaton.\<close>

abbreviation look :: "string \<Rightarrow> char option \<Rightarrow> Parser \<Rightarrow> Parser" where
  "look tail before P \<equiv> P\<lparr>line_tail := tail, before_line_tail := before\<rparr>"

lemma parser_append_look: "parser_append (look t b P) bytes = map_sum id (look t b) (parser_append P bytes)"
  by (cases P) (simp add: parser_append_def map_sum_def split: option.split sum.split)

lemma take_field_look: "take_field (look t b P) x st = map_sum id (look t b) (take_field P x st)"
  by (cases P) (simp add: take_field_def map_sum_def split: option.split sum.split)

lemma pending_look: "(look t b P)\<lparr>mp_pending := x\<rparr> = look t b (P\<lparr>mp_pending := x\<rparr>)"
  by (cases P) simp

lemma body_step_look: "body_step (look t b P) x = map_sum id (look t b) (body_step P x)"
  by (auto simp: body_step_def flush_pending_def restart_or_append_def parser_append_look take_field_look pending_look Let_def map_sum_def
      split: sum.split)

lemma byte_step_look:
  "byte_step L (look t b P) x = map_option (map_sum id (look t b)) (byte_step L P x)"
proof (cases "mp_state P")
  case Headers
  then show ?thesis by (cases P) (auto simp: byte_step_def headers_step_def Let_def map_sum_def split: sum.split)
next
  case Body
  then show ?thesis by (simp add: byte_step_def body_step_look)
next
  case Opening
  then show ?thesis by (cases P) (simp add: byte_step_def opening_step_def Let_def)
next
  case Closing
  then show ?thesis by (cases P) (simp add: byte_step_def closing_step_def)
qed

lemma steps_look: "steps L (look t b P) s = map_option (map_sum id (look t b)) (steps L P s)"
  by (induction s arbitrary: P) (auto simp: byte_step_look split: option.splits sum.splits)

lemma accepted_look: "accepted L (look t b P) s = accepted L P s"
proof -
  have "parser_finish (look t b Q) = parser_finish Q" for Q
    by (cases Q) (auto simp: parser_finish_def take_field_def map_sum_def split: option.splits sum.splits)
  then show ?thesis by (auto simp: accepted_def steps_look split: option.splits sum.splits)
qed

lemma byte_step_keeps_look:
  "byte_step L P x = Some (Inr P') \<Longrightarrow> line_tail P' = line_tail P \<and> before_line_tail P' = before_line_tail P"
  by (auto simp: step_defs map_sum_def split: parser_state.splits if_splits option.splits sum.splits)

lemma steps_keep_look:
  "steps L P s = Some (Inr P') \<Longrightarrow> line_tail P' = line_tail P \<and> before_line_tail P' = before_line_tail P"
  by (induction s arbitrary: P) (auto dest: byte_step_keeps_look split: option.splits sum.splits)

lemma accepted_append: "steps L P a = Some (Inr P') \<Longrightarrow> accepted L P (a @ b) = accepted L P' b"
  by (simp add: accepted_def steps_append)

lemma crlf_only_append:
  assumes "crlf_only B (a @ b)"
  shows "crlf_only B a"
  unfolding crlf_only_def
proof (intro allI impI)
  let ?m = "LF # ''--'' @ B"
  fix i
  assume p: "prefix ?m (drop i a)"
  have "i \<le> length a" using occurrence_factor(3) [OF _ p] by simp
  then have "byte_before (a @ b) None i = byte_before a None i" using byte_before_factor [of i a "[]" b] by (simp add: last_byte_def)
  moreover have "prefix ?m (drop i (a @ b))" using occurrence_factor(1) [OF _ p, of "[]" b] by simp
  ultimately show "byte_before a None i = Some CR" using assms unfolding crlf_only_def by metis
qed

lemma behind_last:
  assumes "behind B u P"
  shows "last_byte (line_tail P) = last_byte u" "before_line_tail P = last_byte (take (length u - (length B + 3)) u)"
proof -
  have "line_tail P = drop (length u - (length B + 3)) u" using assms by (simp add: behind_def Let_def)
  moreover have "\<not> length u \<le> length u - (length B + 3)" if "u \<noteq> []" using that by (cases u) auto
  ultimately show "last_byte (line_tail P) = last_byte u" by (cases "u = []") (auto simp: last_byte_def)
  show "before_line_tail P = last_byte (take (length u - (length B + 3)) u)"
    using assms by (auto simp: behind_def last_byte_def Let_def last_conv_nth)
qed

lemma behind_move:
  assumes "behind B u P" "c \<noteq> []" "keep = length B + 3"
  shows "length c \<ge> keep \<Longrightarrow> behind B (u @ c)
      (look (drop (length c - keep) c) (if length c > keep then Some (c ! (length c - keep - 1)) else last_byte (line_tail P)) P)"
    "length c < keep \<Longrightarrow> t = line_tail P @ c \<Longrightarrow> behind B (u @ c)
      (if length t - keep > 0 then look (drop (length t - keep) t) (Some (t ! (length t - keep - 1))) P else P\<lparr>line_tail := t\<rparr>)"
proof -
  let ?o = "length u - keep"
  have tail: "line_tail P = drop ?o u" and before: "before_line_tail P = (if length u > keep then Some (u ! (?o - 1)) else None)"
    using assms(1,3) by (simp_all add: behind_def Let_def)
  show "behind B (u @ c) (look (drop (length c - keep) c) (if length c > keep then Some (c ! (length c - keep - 1)) else last_byte (line_tail P)) P)"
    if "length c \<ge> keep"
    using that unfolding behind_last(1) [OF assms(1)] by (auto simp: behind_def Let_def nth_append last_byte_def last_conv_nth simp flip: assms(3))
  show "behind B (u @ c) (if length t - keep > 0 then look (drop (length t - keep) t) (Some (t ! (length t - keep - 1))) P else P\<lparr>line_tail := t\<rparr>)"
    if c: "length c < keep" and t: "t = line_tail P @ c"
  proof -
    have w: "drop ?o (u @ c) = t" using tail t by simp
    have lt: "length t = length u - ?o + length c" using tail t by simp
    show ?thesis
    proof (cases "length t - keep > 0")
      case True
      then have n: "length (u @ c) - keep = ?o + (length t - keep)" "length (u @ c) > keep" using lt by auto
      have "drop (length t - keep) (drop ?o (u @ c)) = drop (length (u @ c) - keep) (u @ c)" by (simp only: drop_drop n(1) add.commute)
      then have "drop (length t - keep) t = drop (length (u @ c) - keep) (u @ c)" by (simp only: w)
      moreover have "drop ?o (u @ c) ! (length t - keep - 1) = (u @ c) ! (?o + (length t - keep - 1))" by (rule nth_drop) simp
      then have "t ! (length t - keep - 1) = (u @ c) ! (length (u @ c) - keep - 1)" unfolding w n(1) using True by simp
      ultimately show ?thesis using True n(2) unfolding behind_def Let_def assms(3) [symmetric] by simp
    next
      case False
      then have "length u < keep" "length (u @ c) \<le> keep" using lt assms(2) by (auto simp: neq_Nil_conv)
      then show ?thesis using False before w unfolding behind_def Let_def assms(3) [symmetric] by simp
    qed
  qed
qed

lemma behind_cong: "line_tail P' = line_tail P \<and> before_line_tail P' = before_line_tail P \<Longrightarrow> behind B u P' \<longleftrightarrow> behind B u P"
  by (simp add: behind_def)

lemma look_simps:
  "P\<lparr>before_line_tail := b, line_tail := t\<rparr> = look t b P" "P\<lparr>line_tail := t\<rparr> = look t (before_line_tail P) P"
  "P = look (line_tail P) (before_line_tail P) P"
  by (cases P; simp)+

lemma take_min: "take (min (length c) n) c = take n c"
  by (simp add: min_def)

lemma reject_exact:
  assumes "memchr_ok M" "mp_inv B P" "behind B u P" "crlf_only B u"
  shows "\<not> crlf_only B (u @ c) \<Longrightarrow> reject_bare_lf_boundaries M P c = Inl 400"
    "crlf_only B (u @ c) \<Longrightarrow> \<exists>t b. reject_bare_lf_boundaries M P c = Inr (look t b P) \<and> behind B (u @ c) (look t b P)"
proof -
  define m t where "m = LF # ''--'' @ B" and "t = line_tail P @ c"
  have B: "boundary_ok B" "tl (mp_delimiter P) = m" and len: "length m = length B + 3" using assms(2) by (simp_all add: mp_inv_def m_def)
  have tail: "line_tail P = drop (length u - length m) u" using assms(3) unfolding behind_def Let_def len by blast
  have bare: "ambiguous M m (line_tail P @ take (min (length c) (length m)) c) (before_line_tail P) \<or> ambiguous M m c (last_byte (line_tail P))
      \<longleftrightarrow> \<not> crlf_only B (u @ c)"
    using bare_lf_exact [OF assms(1) B(1) m_def assms(4) refl, of c] behind_last [OF assms(3), folded len]
    by (simp add: tail [symmetric] take_min)
  have step: "reject_bare_lf_boundaries M P c = (if \<not> crlf_only B (u @ c) then Inl 400
      else if length c \<ge> length m
      then Inr (look (drop (length c - length m) c) (if length c > length m then Some (c ! (length c - length m - 1)) else last_byte (line_tail P)) P)
      else Inr (if length t - length m > 0 then look (drop (length t - length m) t) (Some (t ! (length t - length m - 1))) P
                else P\<lparr>line_tail := t\<rparr>))" if "c \<noteq> []"
    unfolding reject_bare_lf_boundaries_def Let_def B(2) bare look_simps(1) t_def using that by simp
  show "reject_bare_lf_boundaries M P c = Inl 400" if "\<not> crlf_only B (u @ c)"
    using that step assms(4) by (cases "c = []") auto
  show "\<exists>t b. reject_bare_lf_boundaries M P c = Inr (look t b P) \<and> behind B (u @ c) (look t b P)" if ok: "crlf_only B (u @ c)"
  proof (cases "c = []")
    case True
    then show ?thesis using assms(3) look_simps(3) by (metis append_Nil2 reject_bare_lf_boundaries_def)
  next
    case False
    note move = behind_move [OF assms(3) False len] and st = step [OF False]
    show ?thesis
    proof (cases "length c \<ge> length m")
      case True
      then have "reject_bare_lf_boundaries M P c = Inr (look (drop (length c - length m) c)
          (if length c > length m then Some (c ! (length c - length m - 1)) else last_byte (line_tail P)) P)"
        unfolding st using ok by (simp only: simp_thms if_True if_False)
      then show ?thesis using move(1) [OF True] by blast
    next
      case short: False
      let ?P = "if length t - length m > 0 then look (drop (length t - length m) t) (Some (t ! (length t - length m - 1))) P
          else P\<lparr>line_tail := t\<rparr>"
      have r: "reject_bare_lf_boundaries M P c = Inr ?P" unfolding st using ok short by (simp only: simp_thms if_True if_False)
      have "length c < length m" using short by simp
      note b = move(2) [OF this t_def]
      obtain x y where e: "?P = look x y P" using look_simps(2) [where P = P and t = t] by (metis (full_types))
      from r b show ?thesis unfolding e by blast
    qed
  qed
qed

lemma inspect_exact:
  assumes "memchr_ok M" "mp_inv B P" "behind B u P" "crlf_only B u"
  shows "inspect_chunks L M P chunks \<noteq> None \<and>
    (inspect_chunks L M P chunks = Some (Inr fs) \<longleftrightarrow> crlf_only B (u @ concat chunks) \<and> accepted L P (concat chunks) = Some fs)"
  using assms(2-4)
proof (induction chunks arbitrary: P u)
  case Nil
  then show ?case by (auto simp: accepted_Nil split: sum.split)
next
  case (Cons c chunks)
  have failed: "mp_failed P = None" using Cons.prems by (simp add: mp_inv_def)
  show ?case
  proof (cases "crlf_only B (u @ c)")
    case False
    then have "inspect_chunks L M P (c # chunks) = Some (Inl 400)"
      using reject_exact(1) [OF assms(1) Cons.prems] failed by (simp add: feed_def feed_inner_def)
    then show ?thesis using False crlf_only_append [of B "u @ c"] by auto
  next
    case True
    then obtain t b where r: "reject_bare_lf_boundaries M P c = Inr (look t b P)" "behind B (u @ c) (look t b P)"
      using reject_exact(2) [OF assms(1) Cons.prems] by blast
    have inv: "mp_inv B (look t b P)" using Cons.prems(1) by (simp add: mp_inv_def)
    have fi: "feed_inner L M P c = steps L (look t b P) c"
      using r(1) feed_loop_steps [OF assms(1) inv] by (simp add: feed_inner_def)
    obtain res where res: "steps L (look t b P) c = Some res" using steps_inv(1) [OF inv] by blast
    show ?thesis
    proof (cases res)
      case (Inl e)
      then have "accepted L (look t b P) (c @ concat chunks) = None" using res by (simp add: accepted_def steps_append)
      then show ?thesis using Inl fi res failed by (simp add: feed_def accepted_look)
    next
      case (Inr P')
      then have s': "steps L (look t b P) c = Some (Inr P')" using res by simp
      have "mp_inv B P'" "behind B (u @ c) P'" using steps_inv(2) [OF inv s'] behind_cong [OF steps_keep_look [OF s']] r(2) by simp_all
      from Cons.IH [OF this True] show ?thesis
        using Inr fi res failed accepted_append [of L "look t b P" c P' "concat chunks"] by (simp add: feed_def accepted_look)
    qed
  qed
qed

lemma parser_new_start:
  assumes "parser_new B limit = Inr P"
  shows "mp_inv B P" "behind B [] P" "crlf_only B []" "at_opening P [] = P" "max_field_bytes P = limit"
  using assms by (auto simp: parser_new_def mp_inv_def behind_def crlf_only_def at_opening_def split: if_splits)

lemma content_without_boundary_line:
  assumes "crlf_only B s" "s = a @ [LF] @ c @ b" "\<not> sublist ([CR, LF] @ ''--'' @ B) c"
  shows "\<not> sublist (LF # ''--'' @ B) c"
proof
  let ?m = "LF # ''--'' @ B"
  assume "sublist ?m c"
  then obtain j where j: "prefix ?m (drop j c)" using prefix_drop_sublist by blast
  have w: "s = (a @ [LF]) @ c @ b" using assms(2) by simp
  have "j \<le> length c" using occurrence_factor(3) [OF _ j] by simp
  then have "byte_before c (Some LF) j = Some CR"
    using occurrence_factor(1) [OF _ j, of "a @ [LF]" b] byte_before_factor [of j c "a @ [LF]" b] assms(1) w
    unfolding crlf_only_def by (metis last_byte_def last_snoc list.distinct(1) snoc_eq_iff_butlast)
  then have n: "0 < j" "c ! (j - 1) = CR" by (auto simp: byte_before_def split: if_splits)
  then have "drop (j - 1) c = CR # drop j c" using \<open>j \<le> length c\<close> by (metis Cons_nth_drop_Suc One_nat_def Suc_pred less_le_trans diff_less zero_less_one)
  then have "prefix ([CR, LF] @ ''--'' @ B) (drop (j - 1) c)" using j by simp
  then show False using assms(3) prefix_drop_sublist by blast
qed

text \<open>
  C4. The parser sees the parts every backend sees. In whatever chunks a body arrives, the
  inspection never panics, and it yields the fields \<open>fs\<close> exactly when the body is a sequence of
  at most 256 parts between boundary lines whose headers and contents give these fields, no
  content contains a line feed followed by the boundary, as strict and lenient readers cut parts
  there, and every boundary line in the body follows a carriage return.
\<close>

theorem multipart_exact:
  assumes "memchr_ok M" "parser_new B limit = Inr P"
  shows "inspect_chunks L M P chunks \<noteq> None
    \<and> (inspect_chunks L M P chunks = Some (Inr fs) \<longleftrightarrow>
        (\<exists>parts trailer. concat chunks = wire B parts trailer \<and> trailer \<in> {[], [CR, LF]} \<and> length parts \<le> MAX_PARTS
           \<and> list_all2 (part_field L limit) parts fs \<and> (\<forall>c\<in>set (map snd parts). \<not> sublist (LF # ''--'' @ B) c)
           \<and> crlf_only B (concat chunks)))"
proof -
  note start = parser_new_start [OF assms(2)]
  let ?s = "concat chunks" and ?D = "[CR, LF] @ ''--'' @ B"
  have acc: "accepted L P ?s = Some fs \<longleftrightarrow> (\<exists>parts trailer. ?s = wire B parts trailer \<and> trailer \<in> {[], [CR, LF]}
      \<and> list_all2 (part_field L limit) parts fs \<and> (\<forall>c\<in>set (map snd parts). \<not> sublist ?D c) \<and> length parts \<le> MAX_PARTS)"
    using accepted_wire [OF start(1) refl, of L ?s fs] unfolding start(4,5) .
  have no: "\<not> sublist (LF # ''--'' @ B) c" if w: "crlf_only B ?s" "?s = wire B parts trailer" "c \<in> set (map snd parts)" "\<not> sublist ?D c" for c parts trailer
  proof -
    obtain h pre post where "parts = pre @ (h, c) # post" using w(3) by (auto dest!: split_list)
    then have "?s = (''--'' @ B @ concat (map (\<lambda>(h, c). [CR, LF] @ h @ [CR, LF, CR, LF] @ c @ ?D) pre) @ [CR, LF] @ h @ [CR, LF, CR]) @ [LF] @ c
        @ ?D @ wire_rest B post trailer" using w(2) by (simp add: wire_def wire_rest_def)
    from content_without_boundary_line [OF w(1) this w(4)] show ?thesis .
  qed
  have "\<not> sublist ?D c" if "\<not> sublist (LF # ''--'' @ B) c" for c
    using that by (metis append_Cons append_Nil sublist_order.order_trans sublist_Cons_right sublist_order.order_refl)
  then show ?thesis using inspect_exact [OF assms(1) start(1-3), of L chunks fs] acc no unfolding append_Nil by blast
qed

section \<open>Bounds\<close>

fun feed_chunks :: "('a) http_lib_scheme \<Rightarrow> memchr_lib \<Rightarrow> Parser \<Rightarrow> string list \<Rightarrow> (nat + Parser) option" where
  "feed_chunks L M P [] = Some (Inr P)"
| "feed_chunks L M P (chunk # chunks) = (case feed L M P chunk of
     None \<Rightarrow> None | Some (Inl e, _) \<Rightarrow> Some (Inl e) | Some (Inr _, P) \<Rightarrow> feed_chunks L M P chunks)"

text \<open>The buffers of the parser in each state.\<close>

definition value_fits :: "nat \<Rightarrow> bool \<Rightarrow> string \<Rightarrow> bool" where
  "value_fits n file v \<longleftrightarrow> length v \<le> (if file then 0 else n)"

definition sized :: "Parser \<Rightarrow> bool" where
  "sized P \<longleftrightarrow>
     (case mp_state P of
        Opening \<Rightarrow> length (mp_pending P) < length (mp_marker P) + 2
      | Headers \<Rightarrow> mp_pending P = []
      | Body \<Rightarrow> length (mp_pending P) \<le> length (mp_delimiter P) + 3 \<and> length (mp_fields P) < MAX_PARTS
      | Closing \<Rightarrow> length (mp_pending P) \<le> 2)
     \<and> length (mp_headers P) < MAX_HEADERS + 4 \<and> length (mp_fields P) \<le> MAX_PARTS
     \<and> pred_option (\<lambda>p. value_fits (max_field_bytes P) (pt_file p) (pt_value p)) (mp_part P)
     \<and> list_all (\<lambda>f. value_fits (max_field_bytes P) (fd_file f) (fd_value f)) (mp_fields P)"

lemma part_append_fits:
  "part_append p a n = Inr p' \<Longrightarrow> value_fits n (pt_file p) (pt_value p) \<Longrightarrow> value_fits n (pt_file p') (pt_value p')"
  by (auto simp: part_append_def value_fits_def split: if_splits)

lemma parser_append_sized: "parser_append P a = Inr P' \<Longrightarrow> sized P \<Longrightarrow> sized P'"
  using part_append_fits [of _ a "max_field_bytes P"]
  by (auto simp: parser_append_def sized_def map_sum_def split: option.splits sum.splits parser_state.splits)

lemma take_field_sized:
  assumes "take_field P x st = Inr P'" "sized P" "mp_state P = Body" "st = Headers \<and> x = [] \<or> st = Closing \<and> length x \<le> 2"
  shows "sized P'"
  using assms by (auto simp: take_field_def part_finish_def sized_def map_sum_def split: option.splits sum.splits if_splits)

lemma body_step_sized:
  assumes "body_step P b = Inr P'" "sized P" "mp_state P = Body" "mp_delimiter P \<noteq> []"
  shows "sized P'"
proof -
  have push: "sized (Q\<lparr>mp_pending := x\<rparr>)" if "sized Q" "mp_state Q = Body" "length x \<le> length (mp_delimiter Q) + 3" for Q x
    using that by (simp add: sized_def)
  have app: "sized Q' \<and> mp_state Q' = Body \<and> mp_pending Q' = mp_pending Q" if "parser_append Q a = Inr Q'" "sized Q" "mp_state Q = Body" for Q Q' a
    using that parser_append_sized parser_append_keeps by metis
  have flush: "sized Q' \<and> mp_state Q' = Body \<and> mp_pending Q' = []" if "flush_pending P = Inr Q'" for Q'
    using that assms(2,3) app push by (auto simp: flush_pending_def map_sum_def split: sum.splits)
  have restart: "sized P'" if "restart_or_append Q b = Inr P'" "sized Q" "mp_state Q = Body" "mp_pending Q = []" for Q
    using that app push by (auto simp: restart_or_append_def split: if_splits)
  show ?thesis
    using assms(1,4) flush restart push [OF assms(2,3)] take_field_sized [OF _ assms(2,3)]
    by (auto simp: body_step_def Let_def split: if_splits sum.splits)
qed

lemma byte_step_sized:
  assumes "byte_step L P b = Some (Inr P')" "sized P" "mp_delimiter P \<noteq> []"
  shows "sized P'"
proof (cases "mp_state P")
  case Body
  then show ?thesis using assms body_step_sized by (simp add: byte_step_def)
next
  case Headers
  have "value_fits n (pt_file p) (pt_value p)" if "parse_part_headers L h = Inr p" for n h p
    using parse_part_headers_split(2) [OF that] by (simp add: value_fits_def)
  then show ?thesis using Headers assms
    by (auto simp: byte_step_def headers_step_def sized_def Let_def map_sum_def MAX_HEADERS_def split: if_splits sum.splits)
next
  case Opening
  then show ?thesis using assms by (auto simp: byte_step_def opening_step_def sized_def Let_def split: if_splits)
next
  case Closing
  then show ?thesis using assms by (auto simp: byte_step_def closing_step_def sized_def split: if_splits)
qed

lemma steps_sized:
  assumes "mp_inv B P" "sized P" "steps L P s = Some (Inr P')"
  shows "sized P'"
  using assms
proof (induction s arbitrary: P)
  case (Cons b s)
  then obtain Q where Q: "byte_step L P b = Some (Inr Q)" "steps L Q s = Some (Inr P')" by (auto split: option.splits sum.splits)
  have "mp_delimiter P \<noteq> []" using Cons.prems(1) by (simp add: mp_inv_def)
  then show ?case using Cons.IH [OF byte_step_inv(2) [OF Cons.prems(1) Q(1)] byte_step_sized [OF Q(1) Cons.prems(2)] Q(2)] by blast
qed simp

lemma byte_step_keeps_limit: "byte_step L P x = Some (Inr P') \<Longrightarrow> max_field_bytes P' = max_field_bytes P"
  by (auto simp: step_defs map_sum_def split: parser_state.splits if_splits option.splits sum.splits)

lemma steps_keep_limit: "steps L P s = Some (Inr P') \<Longrightarrow> max_field_bytes P' = max_field_bytes P"
  by (induction s arbitrary: P) (auto dest: byte_step_keeps_limit split: option.splits sum.splits)

lemma feed_sized:
  assumes "memchr_ok M" "mp_inv B P" "behind B u P" "crlf_only B u" "sized P" "feed L M P c = Some (Inr x, P')"
  shows "mp_inv B P' \<and> behind B (u @ c) P' \<and> crlf_only B (u @ c) \<and> sized P' \<and> max_field_bytes P' = max_field_bytes P"
proof -
  have fi: "feed_inner L M P c = Some (Inr P')" using assms(2,6) by (auto simp: feed_def mp_inv_def split: option.splits sum.splits)
  then have c: "crlf_only B (u @ c)" using reject_exact(1) [OF assms(1-4), of c] by (cases "crlf_only B (u @ c)") (auto simp: feed_inner_def)
  then obtain t b where r: "reject_bare_lf_boundaries M P c = Inr (look t b P)" "behind B (u @ c) (look t b P)"
    using reject_exact(2) [OF assms(1-4)] by blast
  have inv: "mp_inv B (look t b P)" "sized (look t b P)" using assms(2,5) by (auto simp: mp_inv_def sized_def split: parser_state.splits)
  have s: "steps L (look t b P) c = Some (Inr P')" using fi r(1) feed_loop_steps [OF assms(1) inv(1), of L c] by (simp add: feed_inner_def)
  show ?thesis using steps_inv(2) [OF inv(1) s] behind_cong [OF steps_keep_look [OF s]] r(2) c steps_sized [OF inv s] steps_keep_limit [OF s] by simp
qed

lemma feed_chunks_sized:
  assumes "memchr_ok M" "mp_inv B P" "behind B u P" "crlf_only B u" "sized P" "feed_chunks L M P chunks = Some (Inr P')"
  shows "mp_inv B P' \<and> behind B (u @ concat chunks) P' \<and> sized P' \<and> max_field_bytes P' = max_field_bytes P"
  using assms(2-6)
proof (induction chunks arbitrary: P u)
  case (Cons c chunks)
  then obtain x Q where Q: "feed L M P c = Some (Inr x, Q)" "feed_chunks L M Q chunks = Some (Inr P')"
    by (auto split: option.splits sum.splits prod.splits)
  note step = feed_sized [OF assms(1) Cons.prems(1-4) Q(1)]
  then show ?case using Cons.IH [of Q "u @ c"] Q(2) by simp
qed simp

text \<open>
  C40. The memory of an inspection is bounded, whatever the body: between two chunks the parser
  holds at most a boundary with its framing, 4100 bytes of headers, 256 fields of at most the
  configured size, nothing of a file, and a look-behind of one boundary line.
\<close>

theorem multipart_bounded:
  assumes "memchr_ok M" "parser_new B limit = Inr P" "feed_chunks L M P chunks = Some (Inr P')"
  shows "length (mp_pending P') \<le> length B + 7 \<and> length (mp_headers P') < MAX_HEADERS + 4 \<and> length (line_tail P') \<le> length B + 3
    \<and> length (mp_fields P') \<le> MAX_PARTS \<and> list_all (\<lambda>f. value_fits limit (fd_file f) (fd_value f)) (mp_fields P')
    \<and> pred_option (\<lambda>p. value_fits limit (pt_file p) (pt_value p)) (mp_part P')"
proof -
  note start = parser_new_start [OF assms(2)]
  have "sized P" using assms(2) by (auto simp: parser_new_def sized_def MAX_HEADERS_def split: if_splits)
  from feed_chunks_sized [OF assms(1) start(1-3) this assms(3)]
  have P': "mp_inv B P'" "behind B (concat chunks) P'" "sized P'" "max_field_bytes P' = limit" using start(5) by simp_all
  have "length (mp_marker P') = length B + 2" "length (mp_delimiter P') = length B + 4" using P'(1) by (simp_all add: mp_inv_def)
  then have "length (mp_pending P') \<le> length B + 7" using P'(3) by (auto simp: sized_def split: parser_state.splits)
  moreover have "length (line_tail P') \<le> length B + 3" using P'(2) by (auto simp: behind_def Let_def)
  ultimately show ?thesis using P'(3,4) by (simp add: sized_def)
qed

section \<open>A small instance\<close>

function find_from :: "string \<Rightarrow> string \<Rightarrow> nat \<Rightarrow> nat list" where
  "find_from pat s i =
     (if s = [] then []
      else if pat \<noteq> [] \<and> prefix pat s then i # find_from pat (drop (length pat) s) (i + length pat)
      else find_from pat (tl s) (Suc i))"
  by pat_completeness auto
termination by (relation "measure (\<lambda>(pat, s, i). length s)") auto

declare find_from.simps [simp del]

definition demo_memchr :: memchr_lib where
  "demo_memchr = \<lparr>memchr = (\<lambda>c s. if c \<in> set s then Some (length (takeWhile (\<lambda>x. x \<noteq> c) s)) else None),
     memmem_find_iter = (\<lambda>s pat. find_from pat s 0)\<rparr>"

lemma find_from_sound: "j \<in> set (find_from pat s i) \<Longrightarrow> i \<le> j \<and> prefix pat (drop (j - i) s)"
proof (induction pat s i rule: find_from.induct)
  case (1 pat s i)
  consider "s = []" | "s \<noteq> []" "pat \<noteq> [] \<and> prefix pat s" | "s \<noteq> []" "\<not> (pat \<noteq> [] \<and> prefix pat s)" by blast
  then show ?case
  proof cases
    case 2
    then have "j = i \<or> j \<in> set (find_from pat (drop (length pat) s) (i + length pat))" using 1(3) by (simp add: find_from.simps [of pat s])
    then show ?thesis
    proof
      assume "j \<in> set (find_from pat (drop (length pat) s) (i + length pat))"
      from 1(1) [OF 2 this] have le: "i + length pat \<le> j" and p: "prefix pat (drop (j - (i + length pat) + length pat) s)"
        unfolding drop_drop by blast+
      have "j - (i + length pat) + length pat = j - i" using le by simp
      then show ?thesis using p le by (simp only:) simp
    qed (use 2 in simp)
  next
    case 3
    then have "find_from pat s i = find_from pat (tl s) (Suc i)" by (subst find_from.simps) auto
    then have "j \<in> set (find_from pat (tl s) (Suc i))" using 1(3) by simp
    from 1(2) [OF 3 this] have le: "Suc i \<le> j" and p: "prefix pat (drop (Suc (j - Suc i)) s)" unfolding drop_Suc by blast+
    have "Suc (j - Suc i) = j - i" using le by simp
    then show ?thesis using p le by (simp only:) simp
  qed (use 1(3) in \<open>simp add: find_from.simps\<close>)
qed

lemma find_from_complete:
  "pat \<noteq> [] \<Longrightarrow> prefix pat (drop k s) \<Longrightarrow> \<exists>j\<in>set (find_from pat s i). j \<le> i + k \<and> i + k < j + length pat"
proof (induction pat s i arbitrary: k rule: find_from.induct)
  case (1 pat s i)
  have s: "s \<noteq> []" using 1(3,4) by auto
  show ?case
  proof (cases "prefix pat s")
    case True
    then have f: "find_from pat s i = i # find_from pat (drop (length pat) s) (i + length pat)" using s 1(3) by (simp add: find_from.simps [of pat s])
    show ?thesis
    proof (cases "k < length pat")
      case False
      have "prefix pat (drop (k - length pat) (drop (length pat) s))" using 1(4) False by simp
      then obtain j where "j \<in> set (find_from pat (drop (length pat) s) (i + length pat))"
        "j \<le> i + length pat + (k - length pat)" "i + length pat + (k - length pat) < j + length pat"
        using 1(1) [OF s] True 1(3) by blast
      then show ?thesis using f False by auto
    qed (simp add: f)
  next
    case False
    then have "0 < k" using 1(4) by (cases k) simp_all
    then have "prefix pat (drop (k - 1) (tl s))" using 1(4) by (cases k) (simp_all add: drop_Suc)
    then obtain j where "j \<in> set (find_from pat (tl s) (Suc i))" "j \<le> Suc i + (k - 1)" "Suc i + (k - 1) < j + length pat"
      using 1(2) [OF s] False 1(3) by blast
    then show ?thesis using s False \<open>0 < k\<close> by (auto simp: find_from.simps [of pat s])
  qed
qed

lemma demo_memchr_ok: "memchr_ok demo_memchr"
  unfolding memchr_ok_def demo_memchr_def memchr_lib.simps
proof (intro conjI allI impI ballI)
  fix s pat :: string and i
  assume pat: "pat \<noteq> []"
  show "prefix pat (drop i s)" if "i \<in> set (find_from pat s 0)" using find_from_sound [OF that] by simp
  show "\<exists>j\<in>set (find_from pat s 0). j \<le> i \<and> i < j + length pat" if "prefix pat (drop i s)"
    using find_from_complete [OF pat that, of 0] by simp
qed simp

definition demo_chunks :: "string list" where
  "demo_chunks = [''--b'' @ [CR, LF] @ ''Content-Disposition: form-data; name=a'' @ [CR, LF, CR], LF # ''v'' @ [CR], [LF] @ ''--b--'']"

theorem multipart_exact_witness:
  "\<exists>P. parser_new ''b'' 8 = Inr P
    \<and> inspect_chunks plain_http demo_memchr P demo_chunks = Some (Inr [\<lparr>fd_name = ''a'', fd_value = ''v'', fd_file = False\<rparr>])
    \<and> (\<exists>parts trailer. concat demo_chunks = wire ''b'' parts trailer
         \<and> list_all2 (part_field plain_http 8) parts [\<lparr>fd_name = ''a'', fd_value = ''v'', fd_file = False\<rparr>])"
proof -
  obtain P where P: "parser_new ''b'' 8 = Inr P" by (cases "parser_new ''b'' 8") (code_simp, simp)
  have "map_sum id (\<lambda>P. inspect_chunks plain_http demo_memchr P demo_chunks) (parser_new ''b'' 8)
      = Inr (Some (Inr [\<lparr>fd_name = ''a'', fd_value = ''v'', fd_file = False\<rparr>]))" by code_simp
  then have i: "inspect_chunks plain_http demo_memchr P demo_chunks = Some (Inr [\<lparr>fd_name = ''a'', fd_value = ''v'', fd_file = False\<rparr>])"
    using P by simp
  then show ?thesis using multipart_exact [OF demo_memchr_ok P, of plain_http demo_chunks] P by blast
qed

theorem multipart_bounded_witness:
  "\<exists>P P'. parser_new ''b'' 8 = Inr P \<and> feed_chunks plain_http demo_memchr P (butlast demo_chunks) = Some (Inr P')
    \<and> length (mp_pending P') \<le> 8 \<and> length (line_tail P') \<le> 4"
proof -
  obtain P where P: "parser_new ''b'' 8 = Inr P" by (cases "parser_new ''b'' 8") (code_simp, simp)
  have "map_sum id (\<lambda>P. map_option (map_sum id mp_state) (feed_chunks plain_http demo_memchr P (butlast demo_chunks))) (parser_new ''b'' 8)
      = Inr (Some (Inr Body))" by code_simp
  moreover have "\<exists>P'. x = Some (Inr P')" if "map_option (map_sum id mp_state) x = Some (Inr st)" for x :: "(nat + Parser) option" and st
    using that by (cases x; cases "the x") auto
  ultimately obtain P' where f: "feed_chunks plain_http demo_memchr P (butlast demo_chunks) = Some (Inr P')"
    using P by auto
  have "length ''b'' + 7 = 8" "length ''b'' + 3 = 4" by simp_all
  then show ?thesis using multipart_bounded [OF demo_memchr_ok P f] P f by metis
qed

end
