(* ===== verification/Spec2Isabelle.thy ===== *)
theory Spec2Isabelle
  imports HostMatch PathRateLimits FailureBanRuns RouteAdmission TcpMember BalanceSelection BalanceHealth RetiredMembers
    ResourceGuard ClientHello ClientHelloWire CachePolicy TcpHealth LanguagePolicy PathAllowlists PathFailureBans ProxyEdge ProxyAdmission
    MultipartChunks
begin

text \<open>
  A verification development for the Hangang gateway (\<^verbatim>\<open>src/src/*.rs\<close>).

  \<^bold>\<open>The program.\<close> Hangang accepts HTTP and TCP connections on its listeners, decides per request
  or connection whether and where to forward it, and keeps the state those decisions need across
  configuration reloads. The decision path has five layers, and the theories follow it:

  \<^enum> who is asking: the client address behind trusted proxies, its country, the host name of an
    HTTP request or of a TLS ClientHello;
  \<^enum> may they: host and path namespaces, resource policies, block and allow lists, rate limits and
    bans;
  \<^enum> where to: pools of members, the balancer, health, admission gates and counters;
  \<^enum> what may be kept and what is sent: the shared-cache policy, response policies, the headers
    written for backends and authorization services;
  \<^enum> how these compose: the order in which the proxy asks them, and the state they share.

  \<^bold>\<open>Conventions\<close> (theory \<^verbatim>\<open>Prelude\<close>). Rust strings and byte slices are lists of bytes; a
  \<^verbatim>\<open>Result\<close> is a sum with the error on the left, an \<^verbatim>\<open>anyhow\<close> error its message; a panic is an
  outer \<^term>\<open>None\<close>; 64-bit words are used where width or wrap-around matters, natural numbers
  with the bound written out elsewhere; an \<^verbatim>\<open>Arc\<close> is an address into a list of objects; a
  validator is the list of its checks in source order; clocks are arguments. \<^verbatim>\<open>StdNet\<close> has the
  standard library's IP address parser and ordering, \<^verbatim>\<open>Http\<close> what the sources observe of a
  request, \<^verbatim>\<open>StdNetText\<close> the textual form of IP addresses and that the parser reads it back.
  Third-party crates are arguments: the \<^verbatim>\<open>http\<close> and \<^verbatim>\<open>url\<close> parsers (the records \<open>http_lib\<close>,
  \<open>csrf_lib\<close>, \<open>response_lib\<close>, each extending the one before), the MaxMind reader, IP networks, regular expressions, SHA-256, the HTTP date parser. A property that needs
  something of them states it as a hypothesis, and its witness instantiates them.

  \<^bold>\<open>Who is asking.\<close>
  \<^item> \<^verbatim>\<open>HostMatch\<close> models \<^verbatim>\<open>host_match.rs\<close>: the bit-parallel label automaton is the textbook
    wildcard match on every valid label, globs match label by label, matching ignores case.
  \<^item> \<^verbatim>\<open>TrustedProxy\<close> models \<^verbatim>\<open>trusted_proxy.rs\<close>: the client is the rightmost untrusted hop, and
    what an attacker prepends cannot change it.
  \<^item> \<^verbatim>\<open>GeoIp\<close>, \<^verbatim>\<open>GeoIpSlot\<close>, \<^verbatim>\<open>CountryPolicy\<close> model \<^verbatim>\<open>geoip.rs\<close>, \<^verbatim>\<open>geoip_runtime.rs\<close>,
    \<^verbatim>\<open>country_policy.rs\<close>, \<^verbatim>\<open>country_observation.rs\<close>: loading and freshness of a database, the
    address filter as CIDR blocks, the slot that fails closed and never revives a stale build,
    and country decisions.
  \<^item> \<^verbatim>\<open>ClientHello\<close> and \<^verbatim>\<open>ClientHelloWire\<close> model \<^verbatim>\<open>client_hello.rs\<close>: the reader is lossless and
    bounded, its names are canonical, and it inverts an encoder of the wire format for every way
    of cutting the message into records. The record loop is a recursion on the 256 records it
    may read; the loops over extensions and names terminate by the length of their input.
  \<^item> \<^verbatim>\<open>ProxyEdge\<close> models the edge of a request in \<^verbatim>\<open>proxy.rs\<close> (\<^verbatim>\<open>resolve_edge\<close> and what is written
    from it): an untrusted peer cannot influence it, the next gateway reads back the same client,
    scheme, port and host, and the original URL told to an authorization service has one reading.
  \<^item> \<^verbatim>\<open>WorkloadAuth\<close> models \<^verbatim>\<open>workload_auth.rs\<close>: a prepared route authorizes exactly the configured
    identities of the configured mutual-TLS listeners.

  \<^bold>\<open>May they.\<close>
  \<^item> \<^verbatim>\<open>ResourcePolicy\<close> models \<^verbatim>\<open>resource_policy.rs\<close> and the SPIFFE check of
    \<^verbatim>\<open>workload_tls.rs\<close>: canonical paths are fixed points without dot segments, and a validated
    policy grants access only to listed subjects of its own authenticator.
  \<^item> \<^verbatim>\<open>ResourceGuard\<close> models \<^verbatim>\<open>resource_guard.rs\<close> and the route scopes of \<^verbatim>\<open>config.rs\<close>: scope
    intersection is exact, and a request that passes belongs to every guard that selects it.
  \<^item> \<^verbatim>\<open>PathBlocks\<close>, \<^verbatim>\<open>PathAllowlists\<close> model \<^verbatim>\<open>path_blocks.rs\<close>, \<^verbatim>\<open>path_allowlists.rs\<close> with their
    decisions written out over path segments.
  \<^item> \<^verbatim>\<open>Buckets\<close>, \<^verbatim>\<open>PathRateLimits\<close>, \<^verbatim>\<open>PathFailureBans\<close>, \<^verbatim>\<open>FailureBanRuns\<close> model
    \<^verbatim>\<open>path_rate_limits.rs\<close> and \<^verbatim>\<open>path_failure_bans.rs\<close>. The locale \<open>bucket_family\<close> is what both
    share across reloads. Shown are the token-bucket and window bounds and recovery, and for
    bans, over runs of all operations, the lease count, the ban at the threshold and its deadline.
    \<^verbatim>\<open>FailureBanLeases\<close> lifts the lease count to a heap of buckets and the leases of one request.
  \<^item> \<^verbatim>\<open>PathCsrf\<close> models \<^verbatim>\<open>path_csrf.rs\<close>: the memoised check decides as each rule alone would.
  \<^item> \<^verbatim>\<open>Multipart\<close>, \<^verbatim>\<open>MultipartWire\<close>, \<^verbatim>\<open>MultipartChunks\<close> model
    \<^verbatim>\<open>request_block_multipart.rs\<close>, with the searches of the memchr crate as parameters: the
    byte automaton accepts exactly the wire format, the skipping loop and the look-behind across
    chunks change nothing about it, no accepted content hides a boundary line from a lenient
    reader, and the buffers are bounded.
  \<^item> \<^verbatim>\<open>LanguagePolicy\<close> models \<^verbatim>\<open>language_policy.rs\<close>: every spelling of a preference list is read
    back, and parsed lists and compiled policies are well-formed.

  \<^bold>\<open>Where to.\<close>
  \<^item> \<^verbatim>\<open>MemberAdmission\<close> has the locales \<open>lease_counter\<close> and \<open>admission_gate\<close> and models
    \<^verbatim>\<open>member_admission.rs\<close>: one word with two flags and a 62-bit count. \<^verbatim>\<open>RouteAdmission\<close>
    (\<^verbatim>\<open>admission.rs\<close>) and \<^verbatim>\<open>TcpMember\<close> (\<^verbatim>\<open>tcp_member.rs\<close>) are further lease counters, the first
    with leases that are cloned, the second with counters that survive a reload.
  \<^item> \<^verbatim>\<open>PoolMember\<close> models \<^verbatim>\<open>pool_member.rs\<close>.
  \<^item> \<^verbatim>\<open>Balance\<close> models \<^verbatim>\<open>balance.rs\<close>; \<^verbatim>\<open>BalanceSelection\<close> shows that selection is total, sound,
    complete, fair by weight and least-loaded (products of counts and weights are 64-bit words,
    hence the bound of 2^54 connections); \<^verbatim>\<open>BalanceHealth\<close> shows epoch fencing over all
    interleavings of operations, the initial check, and that a reload admits exactly the serving
    members and leaves the published generation alone.
  \<^item> \<^verbatim>\<open>TcpHealth\<close> models \<^verbatim>\<open>tcp_health.rs\<close>: thresholds as runs of probe results, and, with every
    operation cut into its stores, what a reader without the lock may see.
  \<^item> \<^verbatim>\<open>RetiredMembers\<close> models \<^verbatim>\<open>retired_members.rs\<close> on top of both kinds of gates: capacity,
    distinct ids, closed gates, and commits that cannot fail after publication.

  \<^bold>\<open>What may be kept and what is sent.\<close>
  \<^item> \<^verbatim>\<open>CachePolicy\<close> models \<^verbatim>\<open>cache_policy.rs\<close>: equal keys mean equal requests, and the lifetime of a
    stored response is bounded.
  \<^item> \<^verbatim>\<open>ResponseSecurity\<close> models \<^verbatim>\<open>response_security.rs\<close>: the last selecting rule decides each
    security header, in headers and trailers, and redirects are upgraded on the same host only.
  \<^item> \<^verbatim>\<open>ProxyHeaders\<close> models the header and path hygiene of \<^verbatim>\<open>proxy.rs\<close>: dot segments, hop-by-hop
    headers, Content-Length, cookies, policy headers. Trimming bytes that are no UTF-8 whitespace
    takes fuel, the length of the text, which each step shortens.

  \<^bold>\<open>How they compose.\<close> \<^verbatim>\<open>ProxyAdmission\<close> models \<^verbatim>\<open>handle\<close>, \<^verbatim>\<open>handle_unfinalized\<close> and the part of
  \<^verbatim>\<open>handle_inner\<close> in \<^verbatim>\<open>proxy.rs\<close> that runs from the listener to the cache, over the definitions of the
  other theories: sanitizing, edge, bans, CSRF, blocks, allow lists, rate limits, resource guards,
  route selection, workload identity, redirects, route permit, country and language, and the
  finishing of the response. A request that is admitted passed every rule as specified, one inside
  a protected namespace is served only by a route that enforces that resource, a refusal gives
  back what it took, ban leases are balanced whatever other requests do meanwhile, and every
  request is answered. The state is that of local counters; the guard service, the ACME responder,
  body inspection and JSON are parameters (\<open>services\<close>), as is everything behind the cache
  lookup (\<open>upstream\<close>).

  \<^bold>\<open>Concurrency.\<close> An operation that the source makes atomic (a compare-and-swap loop, a section
  under a lock) is one step, and properties about sharing quantify over all sequences of steps.
  The lock-free reads inside one balancer call are taken at one moment. One request's admission
  is a sequence of such steps without others in between; what other requests do while it waits
  for its upstream is the parameter \<open>others\<close>.

  \<^bold>\<open>Not modelled.\<close> The asynchronous rest of the pipeline (cache lookup, authentication and upstream
  calls of \<^verbatim>\<open>proxy.rs\<close>, \<^verbatim>\<open>tcp.rs\<close>, \<^verbatim>\<open>udp.rs\<close>, \<^verbatim>\<open>transform*.rs\<close>): futures, streaming and sockets; the
  same for the inspection of bodies other than its multipart parser (\<^verbatim>\<open>request_blocks.rs\<close>,
  \<^verbatim>\<open>request_block_spool.rs\<close>). Counters shared through Redis
  (\<^verbatim>\<open>security_redis.rs\<close>): the protocol is in server-side scripts. Storage and administration
  (\<^verbatim>\<open>config_store.rs\<close>, \<^verbatim>\<open>redis_store.rs\<close>, \<^verbatim>\<open>admin*.rs\<close>): databases, password hashing, HTTP
  handlers. Adapters to other systems (\<^verbatim>\<open>kubernetes.rs\<close>, \<^verbatim>\<open>docker*.rs\<close>, \<^verbatim>\<open>acme*.rs\<close>,
  \<^verbatim>\<open>pumgye*.rs\<close>, \<^verbatim>\<open>guard*.rs\<close>, \<^verbatim>\<open>native_*.rs\<close>). Cryptography and certificates (\<^verbatim>\<open>jwt*.rs\<close>,
  \<^verbatim>\<open>tls.rs\<close>, \<^verbatim>\<open>certificates.rs\<close>). Process control (\<^verbatim>\<open>main.rs\<close>, \<^verbatim>\<open>supervisor.rs\<close>, \<^verbatim>\<open>restart.rs\<close>,
  \<^verbatim>\<open>update.rs\<close>). Metrics and recordings. The serde derives that read the configuration, and of
  \<^verbatim>\<open>config.rs\<close> everything but route scopes, the canonical domain and protected headers.
\<close>

end
